(* ===== verification/Prelude.thy ===== *)
theory Prelude
  imports Main "HOL-Library.Word" "HOL-Library.AList" "HOL-Library.Sublist"
begin

section \<open>Prelude: types, maps and arithmetic the components share\<close>

text \<open>
  Names for the model's base types, the association-list model of Rust's \<^verbatim>\<open>HashMap\<close> (and of
  the insertion-ordered \<^verbatim>\<open>serde_json::Map\<close>), big-endian integers, checked \<^verbatim>\<open>usize\<close> addition
  and the lemmas on them that the component theories use.

  A byte is an Isabelle \<^typ>\<open>char\<close> (an 8-bit value), so a byte buffer and a Rust \<^verbatim>\<open>String\<close> are
  both a \<^typ>\<open>string\<close>: \<^verbatim>\<open>s.as_bytes()\<close> is the identity and \<^verbatim>\<open>s.len()\<close> is the list length.
  That a byte list is the text of a \<^verbatim>\<open>String\<close> (valid UTF-8) is the predicate of theory Rust_Str.
\<close>

type_synonym bytes = "char list"
type_synonym u64 = "64 word"
type_synonym u32 = "32 word"

text \<open>An \<^verbatim>\<open>i64\<close> is the same 64 bits, read by \<^const>\<open>sint\<close>; \<^verbatim>\<open>as i64\<close> and \<^verbatim>\<open>as u64\<close> are the identity.\<close>

type_synonym i64 = "64 word"

named_theorems maps
  \<comment> \<open>lookups after an update of an association-list map\<close>
named_theorems codec
  \<comment> \<open>byte-level encode and decode equations\<close>
named_theorems wf_intros
  \<comment> \<open>preservation of a component's invariant by its operations\<close>

subsection \<open>Bytes and big-endian integers\<close>

definition byte_val :: "char \<Rightarrow> nat" where
  "byte_val c = of_char c"

definition byte_of :: "nat \<Rightarrow> char" where
  "byte_of n = char_of n"

lemma byte_val_byte_of [simp]: "byte_val (byte_of n) = n mod 256"
  by (simp add: byte_val_def byte_of_def)

lemma byte_of_byte_val [simp]: "byte_of (byte_val c) = c"
  by (simp add: byte_val_def byte_of_def)

lemma byte_val_less [simp]: "byte_val c < 256"
  by (simp add: byte_val_def)

lemma byte_val_eq_iff: "byte_val c = byte_val d \<longleftrightarrow> c = d"
  by (metis byte_of_byte_val)

text \<open>\<^verbatim>\<open>(n as u16).to_be_bytes()\<close> and \<^verbatim>\<open>u16::from_be_bytes\<close>; likewise for \<^verbatim>\<open>u32\<close>.\<close>

definition be16 :: "nat \<Rightarrow> bytes" where
  "be16 n = [byte_of (n div 256), byte_of n]"

definition un16 :: "char \<Rightarrow> char \<Rightarrow> nat" where
  "un16 a b = byte_val a * 256 + byte_val b"

definition be32 :: "nat \<Rightarrow> bytes" where
  "be32 n = [byte_of (n div 16777216), byte_of (n div 65536), byte_of (n div 256), byte_of n]"

definition un32 :: "char \<Rightarrow> char \<Rightarrow> char \<Rightarrow> char \<Rightarrow> nat" where
  "un32 a b c d = ((byte_val a * 256 + byte_val b) * 256 + byte_val c) * 256 + byte_val d"

lemma length_be16 [simp]: "length (be16 n) = 2"
  by (simp add: be16_def)

lemma length_be32 [simp]: "length (be32 n) = 4"
  by (simp add: be32_def)

lemma un16_be16 [codec]: "n < 65536 \<Longrightarrow> un16 (byte_of (n div 256)) (byte_of n) = n"
  by (simp add: un16_def)

lemma un16_less [simp]: "un16 a b < 65536"
  unfolding un16_def using byte_val_less[of a] byte_val_less[of b] by linarith

lemma un16_le [simp]: "un16 a b \<le> 65535"
  using un16_less[of a b] by (simp del: un16_less)

lemma be16_un16 [codec]: "be16 (un16 a b) = [a, b]"
proof -
  have "byte_of (byte_val a * 256 + byte_val b) = b"
    by (metis byte_val_byte_of byte_val_less byte_of_byte_val mod_less mod_mult_self3)
  moreover have "(byte_val a * 256 + byte_val b) div 256 = byte_val a"
    using byte_val_less[of b] by simp
  ultimately show ?thesis by (simp add: be16_def un16_def)
qed

lemma un32_be32 [codec]:
  assumes "n < 4294967296"
  shows "un32 (byte_of (n div 16777216)) (byte_of (n div 65536)) (byte_of (n div 256)) (byte_of n) = n"
proof -
  define x y z where "x = n div 256" and "y = x div 256" and "z = y div 256"
  have d: "n div 65536 = y" "n div 16777216 = z"
    by (simp_all add: x_def y_def z_def div_mult2_eq [symmetric])
  have "z < 256" using assms by (simp add: d(2) [symmetric] less_mult_imp_div_less)
  then have "((z mod 256 * 256 + y mod 256) * 256 + x mod 256) * 256 + n mod 256 = n"
    by (simp add: z_def y_def x_def)
  then show ?thesis by (simp add: un32_def d x_def [symmetric])
qed

lemma un32_less [simp]: "un32 a b c d < 4294967296"
proof -
  have "byte_val e \<le> 255" for e using byte_val_less[of e] by linarith
  from this[of a] this[of b] this[of c] this[of d]
  have "16777216 * byte_val a + 65536 * byte_val b + 256 * byte_val c + byte_val d < 4294967296"
    by linarith
  then show ?thesis by (simp add: un32_def algebra_simps)
qed

text \<open>\<^verbatim>\<open>usize::checked_add\<close> on a 64-bit target.\<close>

definition checked_add_usize :: "nat \<Rightarrow> nat \<Rightarrow> nat option" where
  "checked_add_usize a b = (if a + b < 2 ^ 64 then Some (a + b) else None)"

lemma checked_add_usize_Some [simp]:
  "checked_add_usize a b = Some c \<longleftrightarrow> c = a + b \<and> a + b < 2 ^ 64"
  by (auto simp: checked_add_usize_def)

lemma checked_add_usize_small [simp]: "a + b < 2 ^ 64 \<Longrightarrow> checked_add_usize a b = Some (a + b)"
  by (simp add: checked_add_usize_def)

subsection \<open>Finite maps\<close>

text \<open>
  The contract the handlers rely on wherever they keep a table keyed by a string: what a lookup
  returns after an insert or a removal, and that the table stays well formed (one entry per
  key). \<^verbatim>\<open>HashMap\<close>, \<^verbatim>\<open>serde_json::Map\<close> and the keyed SQL tables are interpretations.
\<close>

locale map_adt =
  fixes get :: "'m \<Rightarrow> 'k \<Rightarrow> 'v option"
    and ins :: "'k \<Rightarrow> 'v \<Rightarrow> 'm \<Rightarrow> 'm"
    and del :: "'k \<Rightarrow> 'm \<Rightarrow> 'm"
    and wf :: "'m \<Rightarrow> bool"
  assumes get_ins: "wf m \<Longrightarrow> get (ins k v m) = (get m)(k \<mapsto> v)"
    and get_del: "wf m \<Longrightarrow> get (del k m) = (get m)(k := None)"
    and wf_ins: "wf m \<Longrightarrow> wf (ins k v m)"
    and wf_del: "wf m \<Longrightarrow> wf (del k m)"
begin

lemma get_ins_same: "wf m \<Longrightarrow> get (ins k v m) k = Some v"
  by (simp add: get_ins)

lemma get_ins_other: "wf m \<Longrightarrow> k' \<noteq> k \<Longrightarrow> get (ins k v m) k' = get m k'"
  by (simp add: get_ins)

lemma get_del_same: "wf m \<Longrightarrow> get (del k m) k = None"
  by (simp add: get_del)

lemma get_del_other: "wf m \<Longrightarrow> k' \<noteq> k \<Longrightarrow> get (del k m) k' = get m k'"
  by (simp add: get_del)

lemma del_ins_fresh: "wf m \<Longrightarrow> get m k = None \<Longrightarrow> get (del k (ins k v m)) = get m"
  by (auto simp: get_del get_ins wf_ins)

lemma ins_twice: "wf m \<Longrightarrow> get (ins k v (ins k w m)) = get (ins k v m)"
  by (simp add: get_ins wf_ins)

end

text \<open>
  The model's map: an association list with distinct keys. Its order stands for the table's
  iteration order; results that depend on that order take the order as an argument. An insert
  replaces the value in place or appends, which is also what \<^verbatim>\<open>serde_json::Map\<close> does when it
  preserves insertion order.
\<close>

type_synonym ('k, 'v) hmap = "('k \<times> 'v) list"

definition hm_wf :: "('k, 'v) hmap \<Rightarrow> bool" where
  "hm_wf m \<longleftrightarrow> distinct (map fst m)"

definition hm_get :: "('k, 'v) hmap \<Rightarrow> 'k \<Rightarrow> 'v option" where
  "hm_get m = map_of m"

definition hm_insert :: "'k \<Rightarrow> 'v \<Rightarrow> ('k, 'v) hmap \<Rightarrow> ('k, 'v) hmap" where
  "hm_insert k v m = AList.update k v m"

definition hm_remove :: "'k \<Rightarrow> ('k, 'v) hmap \<Rightarrow> ('k, 'v) hmap" where
  "hm_remove k m = AList.delete k m"

text \<open>\<^verbatim>\<open>entry(k).or_insert(v)\<close> and \<^verbatim>\<open>get_mut(k)\<close> followed by an assignment.\<close>

definition hm_or_insert :: "'k \<Rightarrow> 'v \<Rightarrow> ('k, 'v) hmap \<Rightarrow> ('k, 'v) hmap" where
  "hm_or_insert k v m = (case hm_get m k of None \<Rightarrow> hm_insert k v m | Some _ \<Rightarrow> m)"

definition hm_modify :: "'k \<Rightarrow> ('v \<Rightarrow> 'v) \<Rightarrow> ('k, 'v) hmap \<Rightarrow> ('k, 'v) hmap" where
  "hm_modify k f m = (case hm_get m k of None \<Rightarrow> m | Some v \<Rightarrow> hm_insert k (f v) m)"

text \<open>\<^verbatim>\<open>get(k).copied().unwrap_or(d)\<close>, and \<^verbatim>\<open>values().sum()\<close>.\<close>

definition hm_get_or :: "'v \<Rightarrow> ('k, 'v) hmap \<Rightarrow> 'k \<Rightarrow> 'v" where
  "hm_get_or d m k = (case hm_get m k of None \<Rightarrow> d | Some v \<Rightarrow> v)"

definition hm_sum :: "('k, 'v::comm_monoid_add) hmap \<Rightarrow> 'v" where
  "hm_sum m = sum_list (map snd m)"

interpretation hm: map_adt hm_get hm_insert hm_remove hm_wf
  by unfold_locales
    (simp_all add: hm_get_def hm_insert_def hm_remove_def hm_wf_def update_conv' delete_conv'
      distinct_update distinct_delete)

lemma hm_get_insert [maps]: "hm_get (hm_insert k v m) = (hm_get m)(k \<mapsto> v)"
  by (simp add: hm_get_def hm_insert_def update_conv')

lemma hm_get_remove [maps]: "hm_get (hm_remove k m) = (hm_get m)(k := None)"
  by (simp add: hm_get_def hm_remove_def delete_conv')

lemma hm_get_or_insert [maps]:
  "hm_get (hm_or_insert k v m) =
     (hm_get m)(k \<mapsto> (case hm_get m k of None \<Rightarrow> v | Some w \<Rightarrow> w))"
  by (auto simp: hm_or_insert_def maps split: option.splits)

lemma hm_get_modify [maps]:
  "hm_get (hm_modify k f m) = (hm_get m)(k := map_option f (hm_get m k))"
  by (auto simp: hm_modify_def maps split: option.splits)

lemma hm_wf_Nil [simp, wf_intros]: "hm_wf []"
  by (simp add: hm_wf_def)

lemma hm_get_Nil [simp]: "hm_get [] k = None"
  by (simp add: hm_get_def)

lemma hm_wf_insert [wf_intros]: "hm_wf m \<Longrightarrow> hm_wf (hm_insert k v m)"
  by (rule hm.wf_ins)

lemma hm_wf_remove [wf_intros]: "hm_wf m \<Longrightarrow> hm_wf (hm_remove k m)"
  by (rule hm.wf_del)

lemma hm_wf_or_insert [wf_intros]: "hm_wf m \<Longrightarrow> hm_wf (hm_or_insert k v m)"
  by (simp add: hm_or_insert_def hm_wf_insert split: option.splits)

lemma hm_wf_modify [wf_intros]: "hm_wf m \<Longrightarrow> hm_wf (hm_modify k f m)"
  by (simp add: hm_modify_def hm_wf_insert split: option.splits)

lemma hm_get_or_insert_upd [maps]: "hm_get_or d (hm_insert k v m) = (hm_get_or d m)(k := v)"
  by (auto simp: hm_get_or_def maps)

lemma hm_get_or_or_insert [maps]: "hm_get_or d (hm_or_insert k d m) = hm_get_or d m"
  by (auto simp: hm_get_or_def maps fun_eq_iff split: option.splits)

lemma hm_insert_fresh: "hm_get m k = None \<Longrightarrow> hm_insert k v m = m @ [(k, v)]"
  by (simp add: hm_get_def hm_insert_def) (induction m, auto split: if_splits)

lemma hm_sum_insert:
  fixes v :: "'v::ab_group_add"
  assumes "hm_wf m"
  shows "hm_sum (hm_insert k v m) = hm_sum m - hm_get_or 0 m k + v"
  using assms unfolding hm_sum_def hm_wf_def hm_get_or_def hm_get_def hm_insert_def
  by (induction m) (auto simp: map_of_eq_None_iff algebra_simps split: option.splits)

lemma hm_keys_insert: "map fst (hm_insert k v m) =
    (if hm_get m k = None then map fst m @ [k] else map fst m)"
  by (induction m) (auto simp: hm_get_def hm_insert_def)

subsection \<open>Lists\<close>

lemma prefix_concat_take:
  "prefix (concat (map f (take n xs))) (concat (map f xs))"
  by (metis append_take_drop_id concat_append map_append prefixI)

lemma sum_list_upt_card:
  "sum_list (map (\<lambda>k. if P k then 1 else 0) [a..<b]) = card {k. a \<le> k \<and> k < b \<and> P k}"
  for a b :: nat
proof -
  have "sum_list (map (\<lambda>k. if P k then 1 else 0) [a..<b]) = (\<Sum>k = a..<b. if P k then 1 else 0)"
    by (simp add: interv_sum_list_conv_sum_set_nat)
  also have "\<dots> = card {k \<in> {a..<b}. P k}"
    by (simp add: sum.If_cases Int_def)
  also have "{k \<in> {a..<b}. P k} = {k. a \<le> k \<and> k < b \<and> P k}" by auto
  finally show ?thesis .
qed

end
