(* ===== verification/Rust_Str.thy ===== *)
theory Rust_Str
  imports Prelude
begin

section \<open>Rust strings: UTF-8, searching, trimming, decimal numbers\<close>

text \<open>
  The part of the standard library's \<^verbatim>\<open>str\<close> that the components use, on byte lists. A
  \<^verbatim>\<open>String\<close> is a byte list that \<^verbatim>\<open>std::str::from_utf8\<close> accepts (\<^verbatim>\<open>utf8_ok\<close>).
  \<^verbatim>\<open>str::trim\<close> removes Unicode white space, so its model removes the UTF-8 encodings of those
  code points; \<^verbatim>\<open>u8::is_ascii_whitespace\<close> is the five ASCII bytes. Searching for an ASCII
  needle in a valid UTF-8 text is a search on bytes.
\<close>

subsection \<open>UTF-8\<close>

definition utf8_cont :: "char \<Rightarrow> bool" where
  "utf8_cont c \<longleftrightarrow> 128 \<le> byte_val c \<and> byte_val c < 192"

definition byte_in :: "nat \<Rightarrow> nat \<Rightarrow> char \<Rightarrow> bool" where
  "byte_in lo hi c \<longleftrightarrow> lo \<le> byte_val c \<and> byte_val c \<le> hi"

text \<open>The well-formed byte sequences of the Unicode standard, which \<^verbatim>\<open>from_utf8\<close> checks.\<close>

fun utf8_ok :: "bytes \<Rightarrow> bool" where
  "utf8_ok [] = True"
| "utf8_ok (a # s) =
     (if byte_val a < 128 then utf8_ok s
      else if byte_in 194 223 a then
        (case s of b # s' \<Rightarrow> utf8_cont b \<and> utf8_ok s' | _ \<Rightarrow> False)
      else if byte_in 224 239 a then
        (case s of b # c # s' \<Rightarrow>
            (if byte_val a = 224 then byte_in 160 191 b
             else if byte_val a = 237 then byte_in 128 159 b
             else utf8_cont b) \<and> utf8_cont c \<and> utf8_ok s'
         | _ \<Rightarrow> False)
      else if byte_in 240 244 a then
        (case s of b # c # d # s' \<Rightarrow>
            (if byte_val a = 240 then byte_in 144 191 b
             else if byte_val a = 244 then byte_in 128 143 b
             else utf8_cont b) \<and> utf8_cont c \<and> utf8_cont d \<and> utf8_ok s'
         | _ \<Rightarrow> False)
      else False)"

definition ascii :: "bytes \<Rightarrow> bool" where
  "ascii s \<longleftrightarrow> list_all (\<lambda>c. byte_val c < 128) s"

lemma ascii_simps [simp]:
  "ascii []" "ascii (c # s) \<longleftrightarrow> byte_val c < 128 \<and> ascii s" "ascii (s @ t) \<longleftrightarrow> ascii s \<and> ascii t"
  by (simp_all add: ascii_def)

lemma ascii_utf8_ok: "ascii s \<Longrightarrow> utf8_ok s"
  by (induction s) (simp_all del: utf8_ok.simps(2) add: utf8_ok.simps(2)[of _ "_"])

text \<open>
  \<^verbatim>\<open>c as char\<close> on a byte \<^verbatim>\<open>c\<close> is the code point of that number (Latin-1), and pushing it on a
  \<^verbatim>\<open>String\<close> appends its UTF-8 encoding: one byte below 128, two from there on.
\<close>

definition push_byte_char :: "char \<Rightarrow> bytes" where
  "push_byte_char c =
     (if byte_val c < 128 then [c]
      else [byte_of (192 + byte_val c div 64), byte_of (128 + byte_val c mod 64)])"

lemma push_byte_char_ascii [simp]: "byte_val c < 128 \<Longrightarrow> push_byte_char c = [c]"
  by (simp add: push_byte_char_def)

subsection \<open>Searching and splitting\<close>

text \<open>\<^verbatim>\<open>s.find(needle)\<close>: the least index where the needle occurs.\<close>

fun str_find :: "bytes \<Rightarrow> bytes \<Rightarrow> nat option" where
  "str_find n [] = (if n = [] then Some 0 else None)"
| "str_find n (c # s) =
     (if prefix n (c # s) then Some 0 else map_option Suc (str_find n s))"

definition str_contains :: "bytes \<Rightarrow> bytes \<Rightarrow> bool" where
  "str_contains n s \<longleftrightarrow> str_find n s \<noteq> None"

definition starts_with :: "bytes \<Rightarrow> bytes \<Rightarrow> bool" where
  "starts_with p s \<longleftrightarrow> prefix p s"

definition ends_with :: "bytes \<Rightarrow> bytes \<Rightarrow> bool" where
  "ends_with p s \<longleftrightarrow> prefix (rev p) (rev s)"

definition strip_prefix :: "bytes \<Rightarrow> bytes \<Rightarrow> bytes option" where
  "strip_prefix p s = (if prefix p s then Some (drop (length p) s) else None)"

text \<open>\<^verbatim>\<open>s.split_once(c)\<close> for an ASCII character.\<close>

fun split_once :: "char \<Rightarrow> bytes \<Rightarrow> (bytes \<times> bytes) option" where
  "split_once c [] = None"
| "split_once c (x # s) =
     (if x = c then Some ([], s)
      else (case split_once c s of None \<Rightarrow> None | Some (a, b) \<Rightarrow> Some (x # a, b)))"

lemma str_find_Some:
  "str_find n s = Some i \<Longrightarrow> i + length n \<le> length s \<and> take (length n) (drop i s) = n"
proof (induction s arbitrary: i)
  case Nil
  then show ?case by (auto split: if_splits)
next
  case (Cons c s)
  show ?case
  proof (cases "prefix n (c # s)")
    case True
    with Cons.prems have "i = 0" by simp
    with True show ?thesis by (metis add_0 append_eq_conv_conj drop0 prefix_def prefix_length_le)
  next
    case False
    with Cons.prems obtain j where "str_find n s = Some j" "i = Suc j" by auto
    with Cons.IH[of j] show ?thesis by simp
  qed
qed

lemma str_find_least:
  "str_find n s = Some i \<Longrightarrow> j < i \<Longrightarrow> take (length n) (drop j s) \<noteq> n"
proof (induction s arbitrary: i j)
  case Nil
  then show ?case by (auto split: if_splits)
next
  case (Cons c s)
  show ?case
  proof (cases "prefix n (c # s)")
    case True
    with Cons.prems show ?thesis by simp
  next
    case False
    with Cons.prems obtain i' where i': "str_find n s = Some i'" "i = Suc i'" by auto
    show ?thesis
    proof (cases j)
      case 0
      with False show ?thesis by (metis drop0 take_is_prefix)
    next
      case (Suc j')
      with Cons.IH[OF i'(1)] Cons.prems(2) i'(2) show ?thesis by simp
    qed
  qed
qed

lemma str_find_None:
  "str_find n s = None \<Longrightarrow> i \<le> length s \<Longrightarrow> take (length n) (drop i s) \<noteq> n"
proof (induction s arbitrary: i)
  case Nil
  then show ?case by (auto split: if_splits)
next
  case (Cons c s)
  then have np: "\<not> prefix n (c # s)" and f: "str_find n s = None" by (auto split: if_splits)
  show ?case
  proof (cases i)
    case 0
    with np show ?thesis by (metis drop0 take_is_prefix)
  next
    case (Suc j)
    with Cons.IH[OF f, of j] Cons.prems(2) show ?thesis by simp
  qed
qed

lemma split_once_append: "c \<notin> set a \<Longrightarrow> split_once c (a @ c # b) = Some (a, b)"
  by (induction a) auto

lemma split_once_SomeD: "split_once c s = Some (a, b) \<Longrightarrow> s = a @ c # b \<and> c \<notin> set a"
  by (induction s arbitrary: a b) (auto split: if_splits option.splits)

lemma split_once_Some: "split_once c s = Some (a, b) \<longleftrightarrow> s = a @ c # b \<and> c \<notin> set a"
  using split_once_append split_once_SomeD by metis

lemma split_once_None: "split_once c s = None \<longleftrightarrow> c \<notin> set s"
  by (induction s) (auto split: option.splits)

lemma strip_prefix_append [simp]: "strip_prefix p (p @ s) = Some s"
  by (simp add: strip_prefix_def)

lemma ends_with_iff: "ends_with p s \<longleftrightarrow> (\<exists>a. s = a @ p)"
  unfolding ends_with_def prefix_def by (metis rev_append rev_rev_ident)

subsection \<open>Trimming\<close>

definition is_ascii_whitespace :: "char \<Rightarrow> bool" where
  "is_ascii_whitespace c \<longleftrightarrow> byte_val c \<in> {32, 9, 10, 12, 13}"

text \<open>The UTF-8 encodings of the code points with the Unicode property White_Space.\<close>

definition ws_encodings :: "bytes list" where
  "ws_encodings =
     map (\<lambda>n. [byte_of n]) [9, 10, 11, 12, 13, 32]
     @ map (map byte_of) ([[194, 133], [194, 160], [225, 154, 128]]
         @ map (\<lambda>n. [226, 128, n]) [128, 129, 130, 131, 132, 133, 134, 135, 136, 137, 138, 168, 169, 175]
         @ [[226, 129, 159], [227, 128, 128]])"

text \<open>The white space at the front of a text, if any, and the text after it.\<close>

fun strip_one :: "bytes list \<Rightarrow> bytes \<Rightarrow> bytes option" where
  "strip_one [] s = None"
| "strip_one (w # ws) s = (if w \<noteq> [] \<and> prefix w s then Some (drop (length w) s) else strip_one ws s)"

lemma strip_one_shorter: "strip_one ws s = Some t \<Longrightarrow> length t < length s"
proof (induction ws)
  case Nil
  then show ?case by simp
next
  case (Cons w ws)
  then show ?case
    by (auto split: if_splits simp: prefix_def)
qed

function strip_all :: "bytes list \<Rightarrow> bytes \<Rightarrow> bytes" where
  "strip_all ws s = (case strip_one ws s of None \<Rightarrow> s | Some t \<Rightarrow> strip_all ws t)"
  by pat_completeness auto
termination
  by (relation "measure (\<lambda>(ws, s). length s)") (auto dest: strip_one_shorter)

declare strip_all.simps [simp del]

definition trim_start :: "bytes \<Rightarrow> bytes" where
  "trim_start s = strip_all ws_encodings s"

definition trim_end :: "bytes \<Rightarrow> bytes" where
  "trim_end s = rev (strip_all (map rev ws_encodings) (rev s))"

definition trim :: "bytes \<Rightarrow> bytes" where
  "trim s = trim_end (trim_start s)"

text \<open>\<^verbatim>\<open>trim_matches(c)\<close> and \<^verbatim>\<open>trim_end_matches(c)\<close> for an ASCII character.\<close>

definition trim_end_matches :: "char \<Rightarrow> bytes \<Rightarrow> bytes" where
  "trim_end_matches c s = rev (dropWhile (\<lambda>x. x = c) (rev s))"

definition trim_matches :: "char \<Rightarrow> bytes \<Rightarrow> bytes" where
  "trim_matches c s = trim_end_matches c (dropWhile (\<lambda>x. x = c) s)"

lemma strip_all_idem: "strip_all ws (strip_all ws s) = strip_all ws s"
  by (induction ws s rule: strip_all.induct)
    (metis (no_types, lifting) option.case_eq_if option.collapse strip_all.simps)

lemma strip_all_suffix: "suffix (strip_all ws s) s"
proof (induction ws s rule: strip_all.induct)
  case (1 ws s)
  show ?case
  proof (cases "strip_one ws s")
    case None
    then show ?thesis by (simp add: strip_all.simps[of ws s])
  next
    case (Some t)
    have "suffix t s" using Some
      by (induction ws) (auto split: if_splits simp: suffix_drop)
    with 1[OF Some] Some show ?thesis
      by (auto simp: strip_all.simps[of ws s] intro: suffix_order.trans)
  qed
qed

subsection \<open>Decimal numbers\<close>

text \<open>\<^verbatim>\<open>n.to_string()\<close> of an unsigned integer.\<close>

fun show_nat :: "nat \<Rightarrow> bytes" where
  "show_nat n = (if n < 10 then [byte_of (48 + n)] else show_nat (n div 10) @ [byte_of (48 + n mod 10)])"

declare show_nat.simps [simp del]

definition is_digit :: "char \<Rightarrow> bool" where
  "is_digit c \<longleftrightarrow> 48 \<le> byte_val c \<and> byte_val c \<le> 57"

fun digits_val :: "nat \<Rightarrow> bytes \<Rightarrow> nat option" where
  "digits_val acc [] = Some acc"
| "digits_val acc (c # s) =
     (if is_digit c then digits_val (acc * 10 + (byte_val c - 48)) s else None)"

text \<open>
  \<^verbatim>\<open>str::parse\<close> of an unsigned type: an optional \<open>+\<close>, at least one digit, nothing else, and no
  overflow. Of \<^verbatim>\<open>i64\<close>: an optional sign.
\<close>

definition parse_digits :: "bytes \<Rightarrow> nat option" where
  "parse_digits s = (if s = [] then None else digits_val 0 s)"

definition parse_u64 :: "bytes \<Rightarrow> u64 option" where
  "parse_u64 s =
     (case parse_digits (case s of c # s' \<Rightarrow> (if c = CHR ''+'' then s' else s) | [] \<Rightarrow> s) of
        None \<Rightarrow> None
      | Some n \<Rightarrow> (if n < 2 ^ 64 then Some (of_nat n) else None))"

definition parse_i64 :: "bytes \<Rightarrow> int option" where
  "parse_i64 s =
     (case s of
        [] \<Rightarrow> None
      | c # s' \<Rightarrow>
          (if c = CHR ''-'' then
             (case parse_digits s' of
                None \<Rightarrow> None
              | Some n \<Rightarrow> (if n \<le> 2 ^ 63 then Some (- int n) else None))
           else
             (case parse_digits (if c = CHR ''+'' then s' else s) of
                None \<Rightarrow> None
              | Some n \<Rightarrow> (if n < 2 ^ 63 then Some (int n) else None))))"

lemma digits_val_append:
  "digits_val acc (s @ t) = (case digits_val acc s of None \<Rightarrow> None | Some a \<Rightarrow> digits_val a t)"
  by (induction s arbitrary: acc) auto

lemma show_nat_not_Nil [simp]: "show_nat n \<noteq> []"
  by (subst show_nat.simps) simp

lemma digits_val_show_nat: "digits_val 0 (show_nat n) = Some n"
proof (induction n rule: show_nat.induct)
  case (1 n)
  have d: "is_digit (byte_of (48 + m)) \<and> byte_val (byte_of (48 + m)) - 48 = m" if "m < 10" for m
    using that by (simp add: is_digit_def)
  show ?case
  proof (cases "n < 10")
    case True
    with d[of n] show ?thesis by (subst show_nat.simps) simp
  next
    case False
    with 1 d[of "n mod 10"] show ?thesis
      by (subst show_nat.simps) (simp add: digits_val_append)
  qed
qed

lemma digits_show_nat: "list_all is_digit (show_nat n)"
proof (induction n rule: show_nat.induct)
  case (1 n)
  have "is_digit (byte_of (48 + m))" if "m < 10" for m
    using that by (simp add: is_digit_def)
  with 1 show ?case by (subst show_nat.simps) auto
qed

lemma parse_digits_show_nat [simp]: "parse_digits (show_nat n) = Some n"
  by (simp add: parse_digits_def digits_val_show_nat)

lemma show_nat_inject [simp]: "show_nat m = show_nat n \<longleftrightarrow> m = n"
  by (metis digits_val_show_nat option.inject)

lemma parse_u64_show: "parse_u64 (show_nat (unat (w :: u64))) = Some w"
proof -
  have "\<not> is_digit (CHR ''+'')" by (simp add: is_digit_def byte_val_def)
  moreover obtain c s where cs: "show_nat (unat w) = c # s"
    by (meson list.exhaust show_nat_not_Nil)
  ultimately have "c \<noteq> CHR ''+''" using digits_show_nat[of "unat w"] by auto
  with cs have "parse_u64 (show_nat (unat w)) =
      (case parse_digits (show_nat (unat w)) of None \<Rightarrow> None
       | Some n \<Rightarrow> (if n < 2 ^ 64 then Some (of_nat n) else None))"
    by (simp add: parse_u64_def)
  also have "\<dots> = Some w" using unsigned_less[where w = w and ?'a = nat] by simp
  finally show ?thesis .
qed

subsection \<open>Texts that trimming keeps\<close>

text \<open>A byte that is the first (or last) of no white-space encoding.\<close>

definition solid :: "char \<Rightarrow> bool" where
  "solid c \<longleftrightarrow> list_all (\<lambda>w. hd w \<noteq> c \<and> last w \<noteq> c) ws_encodings"

lemma strip_all_keep:
  "list_all (\<lambda>w. w \<noteq> [] \<longrightarrow> hd w \<noteq> c) ws \<Longrightarrow> strip_all ws (c # s) = c # s"
proof -
  assume a: "list_all (\<lambda>w. w \<noteq> [] \<longrightarrow> hd w \<noteq> c) ws"
  then have "strip_one ws (c # s) = None"
    by (induction ws) (auto simp: prefix_Cons)
  then show ?thesis by (simp add: strip_all.simps[of ws "c # s"])
qed

lemma trim_start_solid: "solid c \<Longrightarrow> trim_start (c # s) = c # s"
  by (simp add: trim_start_def solid_def list_all_iff strip_all_keep)

lemma ws_encodings_not_Nil: "w \<in> set ws_encodings \<Longrightarrow> w \<noteq> []"
  by (auto simp: ws_encodings_def)

lemma trim_end_solid: "solid c \<Longrightarrow> trim_end (s @ [c]) = s @ [c]"
proof -
  assume "solid c"
  then have "list_all (\<lambda>w. w \<noteq> [] \<longrightarrow> hd w \<noteq> c) (map rev ws_encodings)"
    by (auto simp: solid_def list_all_iff hd_rev)
  then show ?thesis by (simp add: trim_end_def strip_all_keep)
qed

lemma trim_solid: "solid c \<Longrightarrow> solid d \<Longrightarrow> trim (c # s @ [d]) = c # s @ [d]"
  using trim_end_solid[of d "c # s"] by (simp add: trim_def trim_start_solid)

lemma trim_all_solid: "list_all solid s \<Longrightarrow> trim s = s"
proof (cases s rule: rev_cases)
  case (snoc t d)
  assume a: "list_all solid s"
  then show ?thesis
  proof (cases t)
    case Nil
    with snoc a show ?thesis
      using trim_end_solid[of d "[]"] by (simp add: trim_def trim_start_solid)
  next
    case (Cons c u)
    with snoc a show ?thesis by (simp add: trim_solid)
  qed
qed (simp add: trim_def trim_start_def trim_end_def strip_all.simps ws_encodings_def)

lemma solid_ascii: "33 \<le> byte_val c \<Longrightarrow> byte_val c < 128 \<Longrightarrow> solid c"
  by (auto simp: solid_def ws_encodings_def)

text \<open>
  Equations for the evaluation of these functions: white space is compared character by character,
  and an end that is a printable ASCII character needs no search.
\<close>

lemma is_ascii_whitespace_code [code]:
  "is_ascii_whitespace c \<longleftrightarrow> c = CHR 0x20 \<or> c = CHR 0x09 \<or> c = CHR 0x0A \<or> c = CHR 0x0C \<or> c = CHR 0x0D"
proof -
  have "byte_val c = byte_val d \<longleftrightarrow> c = d" for d by (simp add: byte_val_def)
  from this[of "CHR 0x20"] this[of "CHR 0x09"] this[of "CHR 0x0A"] this[of "CHR 0x0C"] this[of "CHR 0x0D"]
  show ?thesis by (simp add: is_ascii_whitespace_def) (simp add: byte_val_def)
qed

definition printable :: "char \<Rightarrow> bool" where
  "printable c \<longleftrightarrow> \<not> digit7 c \<and> (digit5 c \<or> digit6 c) \<and> c \<noteq> CHR 0x20"

lemma printable_solid: "printable c \<Longrightarrow> solid c"
proof (rule solid_ascii)
  assume p: "printable c"
  have v: "byte_val c = of_bool (digit0 c) + 2 * (of_bool (digit1 c) + 2 * (of_bool (digit2 c) + 2 * (of_bool (digit3 c)
      + 2 * (of_bool (digit4 c) + 2 * (of_bool (digit5 c) + 2 * (of_bool (digit6 c) + 2 * of_bool (digit7 c)))))))"
    by (cases c) (simp add: byte_val_def)
  show "byte_val c < 128" using p v by (simp add: printable_def)
  have "byte_val c \<noteq> 32"
  proof
    assume "byte_val c = 32"
    then have "(of_char c :: nat) = of_char (CHR 0x20)" by (simp add: byte_val_def)
    then have "c = CHR 0x20" by (simp only: of_char_eq_iff)
    with p show False by (simp add: printable_def)
  qed
  moreover have "32 \<le> byte_val c" using p v by (auto simp: printable_def)
  ultimately show "33 \<le> byte_val c" by simp
qed

lemma trim_start_code [code]: "trim_start s = (if s \<noteq> [] \<and> printable (hd s) then s else strip_all ws_encodings s)"
  by (cases s) (simp_all add: trim_start_solid printable_solid, simp_all add: trim_start_def)

lemma trim_end_code [code]:
  "trim_end s = (if s \<noteq> [] \<and> printable (last s) then s else rev (strip_all (map rev ws_encodings) (rev s)))"
  by (cases s rule: rev_cases) (simp_all add: trim_end_solid printable_solid, simp_all add: trim_end_def)

lemma trim_ends: "s \<noteq> [] \<Longrightarrow> solid (hd s) \<Longrightarrow> solid (last s) \<Longrightarrow> trim s = s"
proof (cases s rule: rev_cases)
  case (snoc t d)
  assume "solid (hd s)" "solid (last s)"
  with snoc show ?thesis
    using trim_solid[of "hd t" d "tl t"] trim_all_solid[of "[d]"] by (cases t) simp_all
qed simp

lemma digit_solid: "is_digit c \<Longrightarrow> solid c"
  by (rule solid_ascii) (simp_all add: is_digit_def)

lemma parse_i64_show: "n < 2 ^ 63 \<Longrightarrow> parse_i64 (show_nat n) = Some (int n)"
proof -
  assume n: "n < 2 ^ 63"
  obtain c s where cs: "show_nat n = c # s" by (meson list.exhaust show_nat_not_Nil)
  have "\<not> is_digit (CHR ''+'')" "\<not> is_digit (CHR ''-'')"
    by (simp_all add: is_digit_def byte_val_def)
  with digits_show_nat[of n] cs have "c \<noteq> CHR ''+''" "c \<noteq> CHR ''-''" by auto
  moreover have "parse_digits (c # s) = Some n" using parse_digits_show_nat[of n] by (simp only: cs)
  ultimately show ?thesis using n by (simp add: parse_i64_def cs)
qed

end
