(* ===== verification/Key_Scan.thy ===== *)
theory Key_Scan
  imports Rust_Str
begin

section \<open>The restricted key scanner of the content firewall\<close>

text \<open>
  The hook forwarder, the status line and the timing reader each carry a copy of one loop: find
  the quoted key, accept it only at an object-key position, skip to the value and read it. The
  loop is \<open>key_scan\<close>, with the way the value is read as its argument; a position \<^verbatim>\<open>i\<close> into the
  bytes is the list of the bytes from \<^verbatim>\<open>i\<close> on. The locale \<open>value_reader\<close> states what a reader
  promises and proves once that the loop returns nothing but the value of the key asked for.
\<close>

definition quoted :: "bytes \<Rightarrow> bytes" where
  "quoted key = CHR 0x22 # key @ [CHR 0x22]"

text \<open>\<^verbatim>\<open>prev_ok\<close>: the last non-space character before the key opens an object or ends a member.\<close>

definition prev_ok :: "bytes \<Rightarrow> bool" where
  "prev_ok before =
     (let t = trim_end before
      in if t = [] then True else last t = CHR ''{'' \<or> last t = CHR '','')"

definition skip_ws :: "bytes \<Rightarrow> bytes" where
  "skip_ws s = dropWhile is_ascii_whitespace s"

lemma str_find_advances:
  assumes "str_find n (drop frm blob) = Some r" "n \<noteq> []"
  shows "frm < frm + r + length n" "frm + r + length n \<le> length blob"
proof -
  have "r + length n \<le> length blob - frm" using str_find_Some[OF assms(1)] by simp
  moreover have "0 < length n" using assms(2) by simp
  ultimately show "frm < frm + r + length n" "frm + r + length n \<le> length blob" by linarith+
qed

lemma str_find_measure:
  assumes "str_find n (drop frm blob) = Some r" "n \<noteq> []"
  shows "length blob - (frm + r + length n) < length blob - frm"
  using str_find_advances[OF assms] by linarith

lemma quoted_not_Nil [simp]: "quoted key \<noteq> []"
  by (simp add: quoted_def)

function key_scan :: "(bytes \<Rightarrow> 'a option) \<Rightarrow> bytes \<Rightarrow> bytes \<Rightarrow> nat \<Rightarrow> 'a option" where
  "key_scan value_of key blob frm =
     (case str_find (quoted key) (drop frm blob) of
        None \<Rightarrow> None
      | Some rel \<Rightarrow>
          (let start = frm + rel;
               stop = start + length (quoted key)
           in if \<not> prev_ok (take start blob) then key_scan value_of key blob stop
              else (case skip_ws (drop stop blob) of
                      [] \<Rightarrow> key_scan value_of key blob stop
                    | c # rest \<Rightarrow>
                        if c \<noteq> CHR '':'' then key_scan value_of key blob stop
                        else value_of (skip_ws rest))))"
  by pat_completeness auto
termination
  by (relation "measure (\<lambda>(v, k, blob, frm). length blob - frm)")
    (auto dest: str_find_measure[OF _ quoted_not_Nil])

declare key_scan.simps [simp del]

subsection \<open>Nothing but the value of the key\<close>

definition all_ws :: "bytes \<Rightarrow> bool" where
  "all_ws w \<longleftrightarrow> list_all is_ascii_whitespace w"

lemma skip_ws_split: "\<exists>w. s = w @ skip_ws s \<and> all_ws w"
proof -
  have "s = takeWhile is_ascii_whitespace s @ skip_ws s" by (simp add: skip_ws_def)
  moreover have "all_ws (takeWhile is_ascii_whitespace s)"
    by (auto simp: all_ws_def list_all_iff dest: set_takeWhileD)
  ultimately show ?thesis by blast
qed

lemma skip_ws_all: "all_ws w \<Longrightarrow> skip_ws (w @ s) = skip_ws s"
  by (simp add: skip_ws_def all_ws_def list_all_iff dropWhile_append2)

text \<open>The key, at an object-key position, with the text that follows its colon.\<close>

definition key_site :: "bytes \<Rightarrow> bytes \<Rightarrow> bytes \<Rightarrow> bool" where
  "key_site key blob val \<longleftrightarrow> (\<exists>pre w1 w2.
     blob = pre @ quoted key @ w1 @ CHR '':'' # w2 @ val \<and> prev_ok pre \<and> all_ws w1 \<and> all_ws w2)"

lemma key_scan_site:
  "key_scan value_of key blob frm = Some v \<Longrightarrow> \<exists>val. key_site key blob val \<and> value_of val = Some v"
proof (induction value_of key blob frm rule: key_scan.induct)
  case (1 value_of key blob frm)
  from 1(4) obtain rel where rel: "str_find (quoted key) (drop frm blob) = Some rel"
    by (auto simp: key_scan.simps[of value_of key blob frm] split: option.splits)
  define start where "start = frm + rel"
  define stop where "stop = start + length (quoted key)"
  note step = 1(4)[unfolded key_scan.simps[of value_of key blob frm] rel Let_def option.case,
      folded start_def, folded stop_def]
  have at: "blob = take start blob @ quoted key @ drop stop blob"
  proof -
    have "take (length (quoted key)) (drop start blob) = quoted key"
      using str_find_Some[OF rel] by (simp add: start_def add.commute)
    then show ?thesis
      by (metis append_take_drop_id drop_drop add.commute stop_def)
  qed
  consider (again) "\<nexists>rest. prev_ok (take start blob) \<and> skip_ws (drop stop blob) = CHR '':'' # rest"
        "key_scan value_of key blob stop = Some v"
    | (hit) rest where "prev_ok (take start blob)" "skip_ws (drop stop blob) = CHR '':'' # rest"
        "value_of (skip_ws rest) = Some v"
    using step by (auto split: if_splits list.splits)
  then show ?case
  proof cases
    case again
    then show ?thesis
      using 1(1)[OF rel start_def stop_def] 1(2)[OF rel start_def stop_def] 1(3)[OF rel start_def stop_def]
      by (cases "prev_ok (take start blob)"; cases "skip_ws (drop stop blob)") auto
  next
    case hit
    obtain w1 where w1: "drop stop blob = w1 @ CHR '':'' # rest" "all_ws w1"
      using skip_ws_split[of "drop stop blob"] hit(2) by auto
    obtain w2 where w2: "rest = w2 @ skip_ws rest" "all_ws w2" using skip_ws_split by blast
    have "key_site key blob (skip_ws rest)"
      unfolding key_site_def using at w1 w2 hit(1) by metis
    with hit(3) show ?thesis by blast
  qed
qed

lemma skip_ws_suffix: "suffix (skip_ws s) s"
  using skip_ws_split[of s] by (auto simp: suffix_def)

lemma key_scan_cong:
  assumes "\<And>val. suffix val blob \<Longrightarrow> f val = g val"
  shows "key_scan f key blob frm = key_scan g key blob frm"
proof (induction "length blob - frm" arbitrary: frm rule: less_induct)
  case less
  show ?case
  proof (cases "str_find (quoted key) (drop frm blob)")
    case None
    then show ?thesis by (simp add: key_scan.simps[of _ key blob frm])
  next
    case (Some rel)
    define stop where "stop = frm + rel + length (quoted key)"
    have IH: "key_scan f key blob stop = key_scan g key blob stop"
      using less str_find_measure[OF Some quoted_not_Nil] by (simp add: stop_def)
    have "f (skip_ws rest) = g (skip_ws rest)" if "skip_ws (drop stop blob) = c # rest" for c rest
    proof (rule assms)
      have "suffix (skip_ws rest) rest" "suffix rest (c # rest)" "suffix (drop stop blob) blob"
        by (simp_all add: skip_ws_suffix suffix_drop suffix_ConsI)
      then show "suffix (skip_ws rest) blob"
        using that skip_ws_suffix[of "drop stop blob"] by (metis suffix_order.trans)
    qed
    then show ?thesis
      using IH Some
      by (simp add: key_scan.simps[of _ key blob frm] Let_def stop_def [symmetric] split: list.split)
  qed
qed

lemma prev_ok_snoc: "c = CHR ''{'' \<or> c = CHR '','' \<Longrightarrow> prev_ok (s @ [c])"
proof -
  assume c: "c = CHR ''{'' \<or> c = CHR '',''"
  then have "solid c" by (auto intro!: solid_ascii simp: byte_val_def)
  with c show ?thesis by (auto simp: prev_ok_def trim_end_solid)
qed

lemma all_ws_Nil [simp]: "all_ws []"
  by (simp add: all_ws_def)

lemma skip_ws_solid: "33 \<le> byte_val c \<Longrightarrow> skip_ws (c # s) = c # s"
  by (auto simp: skip_ws_def is_ascii_whitespace_def)

text \<open>The first occurrence of the quoted key decides, when it is at a key position.\<close>

lemma key_scan_first:
  assumes "str_find (quoted key) blob = Some (length pre)"
    and "blob = pre @ quoted key @ u @ CHR '':'' # w @ val" "prev_ok pre" "all_ws u" "all_ws w"
    and "skip_ws val = val"
  shows "key_scan value_of key blob 0 = value_of val"
proof -
  have "skip_ws (drop (length pre + length (quoted key)) blob) = CHR '':'' # w @ val"
    using assms(2,4) by (simp add: skip_ws_all) (simp add: skip_ws_def is_ascii_whitespace_def byte_val_def)
  moreover have "take (length pre) blob = pre" using assms(2) by simp
  moreover have "skip_ws (w @ val) = val" using assms(5,6) by (simp add: skip_ws_all)
  ultimately show ?thesis
    using assms(1,3) by (simp add: key_scan.simps[of value_of key blob 0] Let_def)
qed

subsection \<open>What a reader of values promises\<close>

text \<open>
  A reader takes the text after the colon and returns a value it read from a token at the front
  of it. \<open>reads t v\<close> says which tokens stand for which values.
\<close>

locale value_reader =
  fixes value_of :: "bytes \<Rightarrow> 'a option"
    and reads :: "bytes \<Rightarrow> 'a \<Rightarrow> bool"
  assumes value_token: "value_of val = Some v \<Longrightarrow> \<exists>t rest. val = t @ rest \<and> reads t v"
begin

lemma scan_token:
  assumes "key_scan value_of key blob frm = Some v"
  shows "\<exists>t rest. key_site key blob (t @ rest) \<and> reads t v"
  using key_scan_site[OF assms] value_token by metis

lemma scan_absent: "(\<nexists>val. key_site key blob val) \<Longrightarrow> key_scan value_of key blob frm = None"
  using key_scan_site[of value_of key blob frm] by (cases "key_scan value_of key blob frm") auto

end

end
