(* ===== verification/Wire.thy ===== *)
theory Wire
  imports Rust_Str
begin

section \<open>The daemon's socket datagrams (spnr-proto, socket.rs)\<close>

text \<open>
  The message type of the Unix socket between the hot-path binaries, the CLI and the daemon, and
  its tag-length-value codec. Lemmas: what a decode returns on every encoding (the codec's own
  truncation of an oversized string included), and that a decoded datagram is the encoding of
  the message and of nothing more.
\<close>

datatype socket_cmd = Ping | Pause | Resume

datatype socket_msg =
    Hook (event_name: string) (hook_session: string)
  | Heartbeat (hb_session: string)
  | Cmd socket_cmd

definition TAG_HOOK :: char where "TAG_HOOK = byte_of 1"
definition TAG_HEARTBEAT :: char where "TAG_HEARTBEAT = byte_of 2"
definition TAG_CMD :: char where "TAG_CMD = byte_of 3"
definition CMD_PING :: char where "CMD_PING = byte_of 1"
definition CMD_PAUSE :: char where "CMD_PAUSE = byte_of 2"
definition CMD_RESUME :: char where "CMD_RESUME = byte_of 3"

lemmas tag_defs = TAG_HOOK_def TAG_HEARTBEAT_def TAG_CMD_def CMD_PING_def CMD_PAUSE_def
  CMD_RESUME_def

lemma byte_of_eq_iff: "byte_of m = byte_of n \<longleftrightarrow> m mod 256 = n mod 256"
  by (metis byte_val_byte_of byte_of_byte_val)

lemma tags_distinct [simp]:
  "TAG_HOOK \<noteq> TAG_HEARTBEAT" "TAG_HEARTBEAT \<noteq> TAG_HOOK" "TAG_HOOK \<noteq> TAG_CMD"
  "TAG_CMD \<noteq> TAG_HOOK" "TAG_HEARTBEAT \<noteq> TAG_CMD" "TAG_CMD \<noteq> TAG_HEARTBEAT"
  "CMD_PING \<noteq> CMD_PAUSE" "CMD_PAUSE \<noteq> CMD_PING" "CMD_PING \<noteq> CMD_RESUME"
  "CMD_RESUME \<noteq> CMD_PING" "CMD_PAUSE \<noteq> CMD_RESUME" "CMD_RESUME \<noteq> CMD_PAUSE"
  by (simp_all add: tag_defs byte_of_eq_iff)

subsection \<open>Operations\<close>

text \<open>\<^verbatim>\<open>put_str\<close> appends to the output buffer; the length written is \<^verbatim>\<open>bytes.len().min(u16::MAX)\<close>.\<close>

definition put_str :: "bytes \<Rightarrow> string \<Rightarrow> bytes" where
  "put_str out s =
     (let len = min (length s) 65535
      in out @ be16 len @ take len s)"

text \<open>
  \<^verbatim>\<open>take_str\<close> reads at the cursor and returns the string with the advanced cursor; every
  failure (a short buffer, an overflow of the index, invalid UTF-8) is \<^const>\<open>None\<close>.
\<close>

definition take_str :: "bytes \<Rightarrow> nat \<Rightarrow> (string \<times> nat) option" where
  "take_str bs cursor =
     (case checked_add_usize cursor 2 of
        None \<Rightarrow> None
      | Some len_end \<Rightarrow>
          if len_end > length bs then None
          else
            (let len = un16 (bs ! cursor) (bs ! (cursor + 1))
             in (case checked_add_usize len_end len of
                   None \<Rightarrow> None
                 | Some str_end \<Rightarrow>
                     if str_end > length bs then None
                     else
                       (let s = take (str_end - len_end) (drop len_end bs)
                        in if utf8_ok s then Some (s, str_end) else None))))"

fun cmd_byte :: "socket_cmd \<Rightarrow> char" where
  "cmd_byte Ping = CMD_PING"
| "cmd_byte Pause = CMD_PAUSE"
| "cmd_byte Resume = CMD_RESUME"

fun encode :: "socket_msg \<Rightarrow> bytes" where
  "encode (Hook ev sid) = put_str (put_str [TAG_HOOK] ev) sid"
| "encode (Heartbeat sid) = put_str [TAG_HEARTBEAT] sid"
| "encode (Cmd c) = [TAG_CMD, cmd_byte c]"

text \<open>
  The match on the tag: the message and the cursor after it. \<^verbatim>\<open>decode\<close> then rejects the datagram
  unless the cursor is at its end.
\<close>

definition decode_body :: "char \<Rightarrow> bytes \<Rightarrow> (socket_msg \<times> nat) option" where
  "decode_body tag rest =
     (if tag = TAG_HOOK then
        (case take_str rest 0 of
           None \<Rightarrow> None
         | Some (ev, cur) \<Rightarrow>
             (case take_str rest cur of
                None \<Rightarrow> None
              | Some (sid, cur') \<Rightarrow> Some (Hook ev sid, cur')))
      else if tag = TAG_HEARTBEAT then
        (case take_str rest 0 of
           None \<Rightarrow> None
         | Some (sid, cur) \<Rightarrow> Some (Heartbeat sid, cur))
      else if tag = TAG_CMD then
        (case rest of
           [] \<Rightarrow> None
         | b # _ \<Rightarrow>
             if b = CMD_PING then Some (Cmd Ping, 1)
             else if b = CMD_PAUSE then Some (Cmd Pause, 1)
             else if b = CMD_RESUME then Some (Cmd Resume, 1)
             else None)
      else None)"

definition decode :: "bytes \<Rightarrow> socket_msg option" where
  "decode bs =
     (case bs of
        [] \<Rightarrow> None
      | tag # rest \<Rightarrow>
          (case decode_body tag rest of
             None \<Rightarrow> None
           | Some (msg, cursor) \<Rightarrow> if cursor \<noteq> length rest then None else Some msg))"

subsection \<open>What a string read returns\<close>

text \<open>The string that survives \<^const>\<open>put_str\<close>: its first 65535 bytes.\<close>

definition clamp_str :: "string \<Rightarrow> string" where
  "clamp_str s = take 65535 s"

lemma clamp_str_id [simp]: "length s \<le> 65535 \<Longrightarrow> clamp_str s = s"
  by (simp add: clamp_str_def)

lemma length_clamp_str [simp]: "length (clamp_str s) = min (length s) 65535"
  by (simp add: clamp_str_def)

lemma put_str_clamp [codec]:
  "put_str out s = out @ be16 (length (clamp_str s)) @ clamp_str s"
  by (simp add: put_str_def clamp_str_def Let_def take_all_iff min_def)

lemma take_str_at [codec]:
  assumes "length pre + length s + 2 < 2 ^ 64" "length s < 65536"
  shows "take_str (pre @ be16 (length s) @ s @ post) (length pre) =
           (if utf8_ok s then Some (s, length pre + 2 + length s) else None)"
proof -
  define bs where "bs = pre @ be16 (length s) @ s @ post"
  have nth: "bs ! length pre = byte_of (length s div 256)"
    "bs ! (length pre + 1) = byte_of (length s)"
    by (simp_all add: bs_def be16_def nth_append)
  have n: "un16 (bs ! length pre) (bs ! (length pre + 1)) = length s"
    unfolding nth using assms(2) by (rule un16_be16)
  have t: "take (length s) (drop (length pre + 2) bs) = s" and l: "length pre + 2 + length s \<le> length bs"
    by (simp_all add: bs_def)
  have c: "checked_add_usize (length pre) 2 = Some (length pre + 2)"
    "checked_add_usize (length pre + 2) (length s) = Some (length pre + 2 + length s)"
    using assms(1) by (simp_all only: checked_add_usize_small)
  show ?thesis
    using l t unfolding bs_def [symmetric] take_str_def n
    by (simp only: c n option.case Let_def) simp
qed

lemma take_str_SomeD:
  assumes "take_str bs cur = Some (s, cur')" "cur \<le> length bs"
  shows "utf8_ok s" "length s \<le> 65535" "cur' = cur + 2 + length s" "cur' \<le> length bs"
    and "take (cur' - cur) (drop cur bs) = be16 (length s) @ s"
proof -
  obtain len where len: "len = un16 (bs ! cur) (bs ! (cur + 1))"
    and le: "cur + 2 + len \<le> length bs"
    and s: "s = take len (drop (cur + 2) bs)" "utf8_ok s" "cur' = cur + 2 + len"
    using assms(1) by (auto simp: take_str_def Let_def split: option.splits if_splits)
  have l: "length s = len" using le s(1) by simp
  show "utf8_ok s" "length s \<le> 65535" "cur' = cur + 2 + length s" "cur' \<le> length bs"
    using s l le by (simp_all add: len)
  have "drop cur bs = bs ! cur # bs ! (cur + 1) # drop (cur + 2) bs"
    using le by (simp add: Cons_nth_drop_Suc)
  then have "take (cur' - cur) (drop cur bs) = [bs ! cur, bs ! (cur + 1)] @ s"
    using s by simp
  then show "take (cur' - cur) (drop cur bs) = be16 (length s) @ s"
    by (simp only: l len be16_un16)
qed

subsection \<open>Decoding an encoding\<close>

text \<open>A message as it arrives: each string cut to what the length prefix can express.\<close>

fun clamp_msg :: "socket_msg \<Rightarrow> socket_msg" where
  "clamp_msg (Hook ev sid) = Hook (clamp_str ev) (clamp_str sid)"
| "clamp_msg (Heartbeat sid) = Heartbeat (clamp_str sid)"
| "clamp_msg (Cmd c) = Cmd c"

fun msg_strings :: "socket_msg \<Rightarrow> string list" where
  "msg_strings (Hook ev sid) = [ev, sid]"
| "msg_strings (Heartbeat sid) = [sid]"
| "msg_strings (Cmd c) = []"

definition msg_wf :: "socket_msg \<Rightarrow> bool" where
  "msg_wf m \<longleftrightarrow> list_all (\<lambda>s. utf8_ok s \<and> length s \<le> 65535) (msg_strings m)"

lemma clamp_msg_wf: "msg_wf m \<Longrightarrow> clamp_msg m = m"
  by (cases m) (simp_all add: msg_wf_def)

lemma decode_hook [codec]:
  assumes "length e \<le> 65535" "length s \<le> 65535"
  shows "decode (TAG_HOOK # be16 (length e) @ e @ be16 (length s) @ s) =
           (if utf8_ok e \<and> utf8_ok s then Some (Hook e s) else None)"
proof -
  define rest where "rest = be16 (length e) @ e @ be16 (length s) @ s"
  have "take_str rest 0 = (if utf8_ok e then Some (e, 2 + length e) else None)"
    using take_str_at[of "[]" e "be16 (length s) @ s"] assms by (simp add: rest_def)
  moreover have "take_str rest (2 + length e) =
      (if utf8_ok s then Some (s, 2 + length e + 2 + length s) else None)"
    using take_str_at[of "be16 (length e) @ e" s "[]"] assms by (simp add: rest_def)
  moreover have "length rest = 2 + length e + 2 + length s" by (simp add: rest_def)
  ultimately show ?thesis
    unfolding rest_def [symmetric] decode_def by (simp add: decode_body_def)
qed

lemma decode_heartbeat [codec]:
  assumes "length s \<le> 65535"
  shows "decode (TAG_HEARTBEAT # be16 (length s) @ s) =
           (if utf8_ok s then Some (Heartbeat s) else None)"
  using take_str_at[of "[]" s "[]"] assms by (simp add: decode_def decode_body_def)

lemma decode_encode_clamp:
  "decode (encode m) = (if list_all utf8_ok (msg_strings (clamp_msg m)) then Some (clamp_msg m) else None)"
proof (cases m)
  case (Hook ev sid)
  have "encode m = TAG_HOOK # be16 (length (clamp_str ev)) @ clamp_str ev
      @ be16 (length (clamp_str sid)) @ clamp_str sid"
    unfolding Hook encode.simps put_str_clamp by simp
  with decode_hook[of "clamp_str ev" "clamp_str sid"] show ?thesis
    by (simp only: length_clamp_str) (simp add: Hook)
next
  case (Heartbeat sid)
  have "encode m = TAG_HEARTBEAT # be16 (length (clamp_str sid)) @ clamp_str sid"
    unfolding Heartbeat encode.simps put_str_clamp by simp
  with decode_heartbeat[of "clamp_str sid"] show ?thesis
    by (simp only: length_clamp_str) (simp add: Heartbeat)
next
  case (Cmd c)
  then show ?thesis by (cases c) (simp_all add: decode_def decode_body_def)
qed

subsection \<open>Encoding a decoding\<close>

lemma decode_body_SomeD:
  assumes "decode_body tag rest = Some (m, cur)" "cur = length rest"
  shows "encode m = tag # rest \<and> msg_wf m"
proof -
  have "m = Hook ev sid \<Longrightarrow> ?thesis" for ev sid
  proof -
    assume m: "m = Hook ev sid"
    then obtain c1 where tag: "tag = TAG_HOOK" and t1: "take_str rest 0 = Some (ev, c1)"
      and t2: "take_str rest c1 = Some (sid, cur)"
      using assms(1) by (auto simp: decode_body_def split: if_splits option.splits list.splits)
    note a = take_str_SomeD[OF t1] and b = take_str_SomeD[OF t2]
    have "rest = take c1 rest @ drop c1 rest" by simp
    also have "take c1 rest = be16 (length ev) @ ev" using a by simp
    also have "drop c1 rest = be16 (length sid) @ sid" using b a(4) assms(2) by simp
    finally have "rest = (be16 (length ev) @ ev) @ be16 (length sid) @ sid" .
    then show ?thesis using a b by (simp add: m tag put_str_clamp msg_wf_def)
  qed
  moreover have "m = Heartbeat sid \<Longrightarrow> ?thesis" for sid
  proof -
    assume m: "m = Heartbeat sid"
    then have tag: "tag = TAG_HEARTBEAT" and t: "take_str rest 0 = Some (sid, cur)"
      using assms(1) by (auto simp: decode_body_def split: if_splits option.splits list.splits)
    from take_str_SomeD[OF t] show ?thesis
      using assms(2) by (simp add: m tag put_str_clamp msg_wf_def)
  qed
  moreover have "m = Cmd c \<Longrightarrow> ?thesis" for c
    using assms by (cases rest)
      (auto simp: decode_body_def msg_wf_def split: if_splits option.splits)
  ultimately show ?thesis by (cases m) auto
qed

lemma decode_SomeD: "decode bs = Some m \<Longrightarrow> encode m = bs \<and> msg_wf m"
  by (auto simp: decode_def split: list.splits option.splits if_splits
      dest!: decode_body_SomeD)

lemma decode_encode: "msg_wf m \<Longrightarrow> decode (encode m) = Some m"
  by (simp add: decode_encode_clamp clamp_msg_wf) (simp add: msg_wf_def list_all_iff)

text \<open>
  C16: the codec is exact in both directions. A datagram decodes to a message just when it is the
  encoding of that message and the message's strings are UTF-8 and fit the length prefix: what was
  encoded is decoded again, no byte of a datagram goes unaccounted for, and no two datagrams decode
  to the same message.
\<close>

theorem decode_exact: "decode bs = Some m \<longleftrightarrow> encode m = bs \<and> msg_wf m"
  using decode_SomeD decode_encode by blast

text \<open>
  What the truncation of oversized strings does to any message at all: the receiver gets the
  message with each string cut to its first 65535 bytes, or nothing when a cut falls inside a
  UTF-8 sequence. It never gets a different message.
\<close>

lemma decode_encode_any:
  "decode (encode m) =
     (if list_all utf8_ok (msg_strings (clamp_msg m)) then Some (clamp_msg m) else None)"
  by (rule decode_encode_clamp)

end
