(* ===== verification/Skimmer.thy ===== *)
theory Skimmer
  imports Key_Scan Wire
begin

section \<open>The hot-path binaries (spnr-hook, spnr-status)\<close>

text \<open>
  What the hook forwarder and the status line take from the host's input and send to the daemon:
  the value readers of \<^verbatim>\<open>skim_string\<close> and \<^verbatim>\<open>skim_session\<close>, \<^verbatim>\<open>extract\<close> and both \<^verbatim>\<open>run\<close> functions up to
  the datagram. The readers are interpretations of the scanner's contract. Lemmas: the values come
  from the key asked for only; the two binaries name a session alike on plain ASCII input, and
  differ outside it.
\<close>

definition KEY_EVENT :: bytes where "KEY_EVENT = ''hook_event_name''"
definition KEY_SESSION :: bytes where "KEY_SESSION = ''session_id''"

abbreviation quote :: char where "quote \<equiv> CHR 0x22"
abbreviation backslash :: char where "backslash \<equiv> CHR 0x5C"

subsection \<open>spnr-hook\<close>

definition unescape_byte :: "char \<Rightarrow> bytes" where
  "unescape_byte c =
     (if c = CHR ''n'' then [byte_of 10] else if c = CHR ''t'' then [byte_of 9]
      else if c = CHR ''r'' then [byte_of 13] else push_byte_char c)"

text \<open>The inner loop: the bytes from \<^verbatim>\<open>j\<close> on, and \<^verbatim>\<open>out\<close>.\<close>

fun read_unescaped :: "bytes \<Rightarrow> bytes \<Rightarrow> bytes option" where
  "read_unescaped [] out = None"
| "read_unescaped [b] out =
     (if b = quote then Some out else read_unescaped [] (out @ push_byte_char b))"
| "read_unescaped (b # c # bs) out =
     (if b = backslash then read_unescaped bs (out @ unescape_byte c)
      else if b = quote then Some out
      else read_unescaped (c # bs) (out @ push_byte_char b))"

definition hook_value :: "bytes \<Rightarrow> bytes option" where
  "hook_value s = (case s of [] \<Rightarrow> None
     | q # s' \<Rightarrow> if q \<noteq> quote then None else read_unescaped s' [])"

definition skim_string :: "bytes \<Rightarrow> bytes \<Rightarrow> bytes option" where
  "skim_string blob key = key_scan hook_value key blob 0"

definition extract_pair :: "bytes \<Rightarrow> (bytes \<times> bytes) option" where
  "extract_pair blob =
     (case skim_string blob KEY_EVENT of
        None \<Rightarrow> None
      | Some ev \<Rightarrow>
          (case skim_string blob KEY_SESSION of
             None \<Rightarrow> None
           | Some sid \<Rightarrow>
               if ev = [] \<or> sid = [] then None else Some (ev, sid)))"

text \<open>\<^verbatim>\<open>run\<close>: the datagram sent for what was read from stdin (\<^verbatim>\<open>None\<close> is a read error), if any.\<close>

definition hook_run :: "bytes option \<Rightarrow> bytes option" where
  "hook_run stdin =
     (case stdin of
        None \<Rightarrow> None
      | Some buf \<Rightarrow>
          if \<not> utf8_ok buf then None
          else (case extract_pair buf of
                  None \<Rightarrow> None
                | Some (ev, sid) \<Rightarrow> Some (encode (Hook ev sid))))"

subsection \<open>spnr-status\<close>

fun read_raw :: "bytes \<Rightarrow> bytes \<Rightarrow> bytes option" where
  "read_raw [] acc = None"
| "read_raw [b] acc = (if b = backslash then None else if b = quote then Some acc else None)"
| "read_raw (b # c # bs) acc =
     (if b = backslash then read_raw bs (acc @ [b, c])
      else if b = quote then Some acc
      else read_raw (c # bs) (acc @ [b]))"

definition status_value :: "bytes \<Rightarrow> bytes option" where
  "status_value s = (case s of [] \<Rightarrow> None
     | q # s' \<Rightarrow> if q \<noteq> quote then None else read_raw s' [])"

definition skim_session :: "bytes \<Rightarrow> bytes option" where
  "skim_session blob = key_scan status_value KEY_SESSION blob 0"

definition osc8 :: "bytes \<Rightarrow> bytes \<Rightarrow> bytes" where
  "osc8 url txt = byte_of 27 # '']8;;'' @ url @ [byte_of 7] @ txt @ byte_of 27 # '']8;;'' @ [byte_of 7]"

text \<open>
  \<^verbatim>\<open>run\<close>: what is printed, from the cache if it is there and is UTF-8, and the heartbeat sent.
\<close>

definition status_run :: "bytes option \<Rightarrow> bytes option \<Rightarrow> bytes \<times> bytes option" where
  "status_run cache stdin =
     ((case cache of Some line \<Rightarrow> if utf8_ok line then line else [] | None \<Rightarrow> []),
      (case stdin of
         None \<Rightarrow> None
       | Some buf \<Rightarrow>
           if \<not> utf8_ok buf then None
           else (case skim_session buf of
                   None \<Rightarrow> None
                 | Some sid \<Rightarrow> Some (encode (Heartbeat sid)))))"

subsection \<open>What the readers return\<close>

text \<open>The unescaped form of a string body.\<close>

fun unescape :: "bytes \<Rightarrow> bytes" where
  "unescape [] = []"
| "unescape [b] = push_byte_char b"
| "unescape (b # c # bs) =
     (if b = backslash then unescape_byte c @ unescape bs else push_byte_char b @ unescape (c # bs))"

text \<open>
  The body of a JSON string: every quote in it is escaped and no escape is cut off, so the next quote
  ends the string.
\<close>

fun string_body :: "bytes \<Rightarrow> bool" where
  "string_body [] = True"
| "string_body [b] = (b \<noteq> quote \<and> b \<noteq> backslash)"
| "string_body (b # c # bs) =
     (if b = backslash then string_body bs else b \<noteq> quote \<and> string_body (c # bs))"

lemma string_body_quote [simp]: "\<not> string_body (quote # bs)"
  by (cases bs) simp_all

text \<open>A text has at most one such body in front of a quote.\<close>

lemma string_body_unique:
  "string_body raw \<Longrightarrow> string_body raw' \<Longrightarrow> raw @ quote # rest = raw' @ quote # rest' \<Longrightarrow> raw = raw'"
proof (induction raw arbitrary: raw' rule: string_body.induct)
  case 1
  then show ?case by (cases raw' rule: string_body.cases) (auto split: if_splits)
next
  case (2 b)
  then show ?case by (cases raw' rule: string_body.cases) (auto split: if_splits)
next
  case (3 b c bs)
  show ?case
  proof (cases raw' rule: string_body.cases)
    case (3 b' c' bs')
    with "3.prems" "3.IH" show ?thesis by (auto split: if_splits)
  qed (use "3.prems" in \<open>auto split: if_splits\<close>)
qed

text \<open>What is unescaped is valid UTF-8: each byte becomes a character.\<close>

lemma push_utf8: "utf8_ok (push_byte_char c @ r) = utf8_ok r"
proof (cases "byte_val c < 128")
  case False
  then have "2 \<le> byte_val c div 64 \<and> byte_val c div 64 < 4" using byte_val_less[of c] by (simp add: less_mult_imp_div_less)
  then have "(192 + byte_val c div 64) mod 256 = 192 + byte_val c div 64"
    "194 \<le> 192 + byte_val c div 64 \<and> 192 + byte_val c div 64 \<le> 223" by auto
  moreover have "(128 + byte_val c mod 64) mod 256 = 128 + byte_val c mod 64" "byte_val c mod 64 < 64" by simp_all
  ultimately show ?thesis using False by (simp add: push_byte_char_def byte_in_def utf8_cont_def)
qed (simp add: push_byte_char_def)

lemma unescape_utf8: "utf8_ok (unescape raw)"
proof -
  have e: "utf8_ok (unescape_byte c @ r) = utf8_ok r" for c r
    by (simp add: unescape_byte_def push_utf8)
  show ?thesis
    using push_utf8[of _ "[]"] by (induction raw rule: unescape.induct) (simp_all add: e push_utf8)
qed

lemma read_unescaped_SomeD:
  "read_unescaped s out = Some v \<Longrightarrow> \<exists>raw rest. s = raw @ quote # rest \<and> string_body raw \<and> v = out @ unescape raw"
proof (induction s out rule: read_unescaped.induct)
  case (3 b c bs out)
  show ?case
  proof (cases "b = backslash")
    case True
    with "3.prems" have "read_unescaped bs (out @ unescape_byte c) = Some v" by simp
    from "3.IH"(1)[OF True this] obtain raw rest where
      "bs = raw @ quote # rest" "string_body raw" "v = (out @ unescape_byte c) @ unescape raw" by blast
    with True show ?thesis by (intro exI[of _ "b # c # raw"] exI[of _ rest]) simp
  next
    case b: False
    show ?thesis
    proof (cases "b = quote")
      case True
      with "3.prems" show ?thesis by (intro exI[of _ "[]"] exI[of _ "c # bs"]) simp
    next
      case False
      with "3.prems" b have "read_unescaped (c # bs) (out @ push_byte_char b) = Some v" by simp
      from "3.IH"(2)[OF b False this] obtain raw rest where
        "c # bs = raw @ quote # rest" "string_body raw" "v = (out @ push_byte_char b) @ unescape raw" by blast
      with b False show ?thesis
        by (intro exI[of _ "b # raw"] exI[of _ rest]) (cases raw, simp_all)
    qed
  qed
next
  case (2 b out)
  then show ?case by (intro exI[of _ "[]"] exI[of _ "[]"]) (simp split: if_splits)
qed simp

lemma read_raw_SomeD:
  "read_raw s acc = Some v \<Longrightarrow> \<exists>raw rest. s = raw @ quote # rest \<and> string_body raw \<and> v = acc @ raw"
proof (induction s acc rule: read_raw.induct)
  case (3 b c bs acc)
  show ?case
  proof (cases "b = backslash")
    case True
    with "3.prems" have "read_raw bs (acc @ [b, c]) = Some v" by simp
    from "3.IH"(1)[OF True this] obtain raw rest where
      "bs = raw @ quote # rest" "string_body raw" "v = (acc @ [b, c]) @ raw" by blast
    with True show ?thesis by (intro exI[of _ "b # c # raw"] exI[of _ rest]) simp
  next
    case b: False
    show ?thesis
    proof (cases "b = quote")
      case True
      with "3.prems" show ?thesis by (intro exI[of _ "[]"] exI[of _ "c # bs"]) simp
    next
      case False
      with "3.prems" b have "read_raw (c # bs) (acc @ [b]) = Some v" by simp
      from "3.IH"(2)[OF b False this] obtain raw rest where
        "c # bs = raw @ quote # rest" "string_body raw" "v = (acc @ [b]) @ raw" by blast
      with b False show ?thesis by (intro exI[of _ "b # raw"] exI[of _ rest]) (cases raw, simp_all)
    qed
  qed
next
  case (2 b acc)
  then show ?case by (intro exI[of _ "[]"] exI[of _ "[]"]) (simp split: if_splits)
qed simp

definition string_token :: "(bytes \<Rightarrow> bytes) \<Rightarrow> bytes \<Rightarrow> bytes \<Rightarrow> bool" where
  "string_token f t v \<longleftrightarrow> (\<exists>raw. t = quote # raw @ [quote] \<and> string_body raw \<and> v = f raw)"

interpretation hook_reader: value_reader hook_value "string_token unescape"
proof
  fix val v assume "hook_value val = Some v"
  then obtain s where s: "val = quote # s" "read_unescaped s [] = Some v"
    by (auto simp: hook_value_def split: list.splits if_splits)
  from read_unescaped_SomeD[OF s(2)] obtain raw rest where
    "s = raw @ quote # rest" "string_body raw" "v = unescape raw" by auto
  then show "\<exists>t rest. val = t @ rest \<and> string_token unescape t v"
    unfolding s(1) string_token_def
    by (intro exI[of _ "quote # raw @ [quote]"] exI[of _ rest]) auto
qed

interpretation status_reader: value_reader status_value "string_token id"
proof
  fix val v assume "status_value val = Some v"
  then obtain s where s: "val = quote # s" "read_raw s [] = Some v"
    by (auto simp: status_value_def split: list.splits if_splits)
  from read_raw_SomeD[OF s(2)] obtain raw rest where
    "s = raw @ quote # rest" "string_body raw" "v = id raw" by auto
  then show "\<exists>t rest. val = t @ rest \<and> string_token id t v"
    unfolding s(1) string_token_def
    by (intro exI[of _ "quote # raw @ [quote]"] exI[of _ rest]) auto
qed

text \<open>Text on which the two readers cannot differ.\<close>

definition plain :: "bytes \<Rightarrow> bool" where
  "plain s \<longleftrightarrow> list_all (\<lambda>c. byte_val c < 128 \<and> c \<noteq> backslash) s"

lemma plain_suffix: "plain s \<Longrightarrow> suffix t s \<Longrightarrow> plain t"
  by (auto simp: plain_def suffix_def)

lemma plain_utf8: "plain s \<Longrightarrow> utf8_ok s"
  by (rule ascii_utf8_ok) (simp add: plain_def ascii_def list_all_iff)

lemma plain_Cons [simp]: "plain (c # s) \<longleftrightarrow> byte_val c < 128 \<and> c \<noteq> backslash \<and> plain s"
  by (simp add: plain_def)

lemma read_plain: "plain s \<Longrightarrow> read_unescaped s out = read_raw s out"
proof (induction s out rule: read_unescaped.induct)
  case (3 b c bs out)
  then have "b \<noteq> backslash" "push_byte_char b = [b]" by simp_all
  with 3 show ?case by simp
qed simp_all

lemma value_plain: "plain s \<Longrightarrow> hook_value s = status_value s"
  by (cases s) (simp_all add: hook_value_def status_value_def read_plain)

lemma skim_agree: "plain blob \<Longrightarrow> skim_string blob KEY_SESSION = skim_session blob"
  unfolding skim_string_def skim_session_def
  by (rule key_scan_cong) (blast intro: value_plain plain_suffix)

lemma skim_plain_length:
  "skim_session blob = Some v \<Longrightarrow> length v \<le> length blob"
  using status_reader.scan_token[of KEY_SESSION blob 0 v]
  by (auto simp: skim_session_def string_token_def key_site_def)

lemma skim_plain_value:
  assumes "skim_session blob = Some v" "plain blob" shows "plain v"
proof -
  obtain t rest where "key_site KEY_SESSION blob (t @ rest)" "string_token id t v"
    using status_reader.scan_token assms(1) unfolding skim_session_def by blast
  then show ?thesis using assms(2) by (auto simp: key_site_def string_token_def plain_def)
qed

lemma skim_utf8: "skim_string blob key = Some v \<Longrightarrow> utf8_ok v"
  using hook_reader.scan_token[of key blob 0 v] unescape_utf8 by (auto simp: skim_string_def string_token_def)

lemma hook_run_cases:
  "hook_run (Some blob) = Some d \<longleftrightarrow> utf8_ok blob \<and> (\<exists>ev sid.
     skim_string blob KEY_EVENT = Some ev \<and> skim_string blob KEY_SESSION = Some sid
     \<and> ev \<noteq> [] \<and> sid \<noteq> [] \<and> d = encode (Hook ev sid))"
  by (auto simp: hook_run_def extract_pair_def split: option.splits if_splits)

text \<open>
  C32: the forwarder's firewall. Whatever the host's payload is, a value it takes is the unescaped body
  of the one JSON string that follows the requested key at an object-key position: the string ends at
  its first quote that is not escaped, and nothing behind that quote, and nothing else of the input,
  is taken.
\<close>

theorem skim_reads_only_the_key:
  assumes "skim_string blob key = Some v"
  shows "\<exists>raw rest. key_site key blob (quote # raw @ quote # rest) \<and> string_body raw \<and> v = unescape raw"
  using hook_reader.scan_token[OF assms[unfolded skim_string_def]]
  unfolding string_token_def by (metis append_Cons append_Nil append_assoc)

definition demo_payload :: bytes where
  "demo_payload = ''{'' @ quoted ''session_id'' @ '': '' @ quoted ''s1'' @ '', ''
     @ quoted ''hook_event_name'' @ '':'' @ quoted ''Stop'' @ ''}''"

lemma skim_reads_only_the_key_witness:
  "\<exists>raw rest. key_site KEY_EVENT demo_payload (quote # raw @ quote # rest) \<and> string_body raw \<and> ''Stop'' = unescape raw"
proof (rule skim_reads_only_the_key)
  show "skim_string demo_payload KEY_EVENT = Some ''Stop''" by code_simp
qed

text \<open>
  On ASCII input without backslashes the forwarder and the status line name the session
  alike: the heartbeat of the status line decodes to the very session id the hook datagram
  carries, so the daemon counts them for one session.
\<close>

lemma hook_and_heartbeat_agree:
  assumes "plain payload" "length payload \<le> 65535" "hook_run (Some payload) = Some d"
  shows "\<exists>ev sid hb. skim_string payload KEY_EVENT = Some ev
    \<and> d = encode (Hook ev sid) \<and> snd (status_run cache (Some payload)) = Some hb
    \<and> decode hb = Some (Heartbeat sid)"
proof -
  obtain ev sid where e: "skim_string payload KEY_EVENT = Some ev" "d = encode (Hook ev sid)"
      and sid: "skim_session payload = Some sid"
    using assms(1,3) by (auto simp: hook_run_cases skim_agree)
  have "length sid \<le> 65535" "utf8_ok sid"
    using skim_plain_length[OF sid] skim_plain_value[OF sid assms(1)] assms(2) plain_utf8 by auto
  then have "decode (encode (Heartbeat sid)) = Some (Heartbeat sid)"
    by (simp add: decode_encode_clamp del: encode.simps)
  then show ?thesis
    using e sid plain_utf8[OF assms(1)] by (auto simp: status_run_def)
qed

lemma hook_and_heartbeat_agree_witness:
  "\<exists>ev sid hb. skim_string demo_payload KEY_EVENT = Some ev
    \<and> encode (Hook ''Stop'' ''s1'') = encode (Hook ev sid)
    \<and> snd (status_run None (Some demo_payload)) = Some hb \<and> decode hb = Some (Heartbeat sid)"
proof (rule hook_and_heartbeat_agree)
  show "plain demo_payload" by code_simp
  show "length demo_payload \<le> 65535" by (simp add: demo_payload_def quoted_def)
  have "skim_string demo_payload KEY_EVENT = Some ''Stop''"
    "skim_string demo_payload KEY_SESSION = Some ''s1''" by code_simp+
  moreover have "utf8_ok demo_payload" by (rule plain_utf8) code_simp
  ultimately show "hook_run (Some demo_payload) = Some (encode (Hook ''Stop'' ''s1''))"
    by (simp add: hook_run_cases del: encode.simps)
qed

definition accented_payload :: bytes where
  "accented_payload = ''{'' @ quoted ''session_id'' @ '':'' @ quoted [byte_of 195, byte_of 169] @ ''}''"

text \<open>
  Outside that input they differ. For a session id with a non-ASCII character the forwarder
  re-encodes each byte as a character of its own, so the daemon sees two different sessions.
\<close>

lemma session_ids_differ_outside_ascii:
  "skim_session accented_payload = Some [byte_of 195, byte_of 169]
   \<and> skim_string accented_payload KEY_SESSION
       = Some [byte_of 195, byte_of 131, byte_of 194, byte_of 169]"
proof
  show "skim_session accented_payload = Some [byte_of 195, byte_of 169]" by code_simp
  show "skim_string accented_payload KEY_SESSION
       = Some [byte_of 195, byte_of 131, byte_of 194, byte_of 169]" by code_simp
qed

definition nested_payload :: bytes where
  "nested_payload = ''{'' @ quoted ''tool_input'' @ '':{'' @ quoted ''session_id'' @ '':''
     @ quoted ''inner'' @ ''},'' @ quoted ''session_id'' @ '':'' @ quoted ''outer'' @ ''}''"

text \<open>
  The scanner does not know nesting. A \<^verbatim>\<open>session_id\<close> member of an object nested before the
  payload's own one is the one that is forwarded.
\<close>

lemma nested_session_id_wins:
  "skim_string nested_payload KEY_SESSION = Some ''inner''
   \<and> skim_session nested_payload = Some ''inner''"
proof
  show "skim_string nested_payload KEY_SESSION = Some ''inner''" by code_simp
  show "skim_session nested_payload = Some ''inner''" by code_simp
qed

end
