(* ===== verification/Timing_Meta.thy ===== *)
theory Timing_Meta
  imports Skimmer
begin

section \<open>The restricted timing reader (spnr-meta)\<close>

text \<open>
  \<^verbatim>\<open>read_timings\<close> and what it is made of: the lines of the log, the value of a key in a line, the
  two scalars taken from it. The reader of a value is one more interpretation of the scanner's
  contract. Lemmas: a record's label is always one of the closed list, its time an \<^verbatim>\<open>i64\<close>; a log
  line the host writes gives exactly its record.
\<close>

record timing =
  tm_ts :: int
  tm_event :: bytes

definition EVENT_LABELS :: "bytes list" where
  "EVENT_LABELS = [''user'', ''assistant'', ''system'', ''summary'', ''tool_use'', ''tool_result'']"

definition UNKNOWN :: bytes where "UNKNOWN = ''unknown''"

definition meta_value :: "bytes \<Rightarrow> bytes option" where
  "meta_value s =
     (case s of
        [] \<Rightarrow> None
      | c # s' \<Rightarrow>
          if c = quote then
            (case read_raw s' [] of None \<Rightarrow> None | Some body \<Rightarrow> Some (quote # body @ [quote]))
          else Some (trim (takeWhile (\<lambda>b. b \<noteq> CHR '','' \<and> b \<noteq> CHR ''}'') s)))"

definition value_for_key :: "bytes \<Rightarrow> bytes \<Rightarrow> bytes option" where
  "value_for_key line key = key_scan meta_value key line 0"

definition parse_unix_seconds :: "bytes \<Rightarrow> int option" where
  "parse_unix_seconds tok =
     (let t = trim_matches quote (trim tok);
          whole = (case split_once CHR ''.'' t of Some (a, _) \<Rightarrow> a | None \<Rightarrow> t)
      in parse_i64 whole)"

definition unquote :: "bytes \<Rightarrow> bytes" where
  "unquote tok = trim_matches quote (trim tok)"

text \<open>\<^verbatim>\<open>str::lines\<close>: split at line feeds, a carriage return before one dropped, no empty last line.\<close>

function str_lines :: "bytes \<Rightarrow> bytes list" where
  "str_lines s =
     (if s = [] then []
      else (case split_once (byte_of 10) s of
              None \<Rightarrow> [s]
            | Some (a, b) \<Rightarrow>
                (if ends_with [byte_of 13] a then butlast a else a) # str_lines b))"
  by pat_completeness auto
termination
  by (relation "measure length") (auto dest: split_once_SomeD)

declare str_lines.simps [simp del]

definition parse_line :: "bytes \<Rightarrow> timing option" where
  "parse_line raw =
     (let line = trim raw
      in if line = [] then None
         else (case value_for_key line ''timestamp'' of
                 None \<Rightarrow> None
               | Some ts_tok \<Rightarrow>
                   (case parse_unix_seconds ts_tok of
                      None \<Rightarrow> None
                    | Some ts \<Rightarrow>
                        (let label = (case value_for_key line ''type'' of
                               None \<Rightarrow> UNKNOWN
                             | Some tok \<Rightarrow>
                                 if unquote tok \<in> set EVENT_LABELS then unquote tok else UNKNOWN)
                         in Some \<lparr>tm_ts = ts, tm_event = label\<rparr>))))"

definition parse_timings :: "bytes \<Rightarrow> timing list" where
  "parse_timings data = List.map_filter parse_line (str_lines data)"

text \<open>\<^verbatim>\<open>read_to_string\<close> fails on a missing file and on one that is not UTF-8.\<close>

definition read_timings :: "bytes option \<Rightarrow> timing list" where
  "read_timings content =
     (case content of
        None \<Rightarrow> []
      | Some data \<Rightarrow> if utf8_ok data then parse_timings data else [])"

subsection \<open>What a value token is\<close>

definition meta_token :: "bytes \<Rightarrow> bytes \<Rightarrow> bool" where
  "meta_token t v \<longleftrightarrow>
     (\<exists>body. t = quote # body @ [quote] \<and> v = t)
     \<or> (CHR '','' \<notin> set t \<and> CHR ''}'' \<notin> set t \<and> v = trim t)"

interpretation meta_reader: value_reader meta_value meta_token
proof
  fix val v assume v: "meta_value val = Some v"
  then obtain c s where val: "val = c # s" by (cases val) (auto simp: meta_value_def)
  show "\<exists>t rest. val = t @ rest \<and> meta_token t v"
  proof (cases "c = quote")
    case True
    with v val obtain body where body: "read_raw s [] = Some body" "v = quote # body @ [quote]"
      by (auto simp: meta_value_def split: option.splits)
    from read_raw_SomeD[OF body(1)] obtain rest where "s = body @ quote # rest" by auto
    with True val body(2) show ?thesis
      by (intro exI[of _ v] exI[of _ rest]) (simp add: meta_token_def)
  next
    case False
    let ?P = "\<lambda>b. b \<noteq> CHR '','' \<and> b \<noteq> CHR ''}''"
    have "v = trim (takeWhile ?P val)" using v val False by (simp add: meta_value_def)
    moreover have "CHR '','' \<notin> set (takeWhile ?P val)" "CHR ''}'' \<notin> set (takeWhile ?P val)"
      by (auto dest: set_takeWhileD)
    ultimately have "meta_token (takeWhile ?P val) v" by (simp add: meta_token_def)
    then show ?thesis by (metis takeWhile_dropWhile_id)
  qed
qed

lemma parse_i64_range: "parse_i64 s = Some i \<Longrightarrow> - (2 ^ 63) \<le> i \<and> i < 2 ^ 63"
  by (auto simp: parse_i64_def split: list.splits if_splits option.splits)

lemma parse_line_closed:
  "parse_line raw = Some t \<Longrightarrow>
     tm_event t \<in> set (UNKNOWN # EVENT_LABELS) \<and> - (2 ^ 63) \<le> tm_ts t \<and> tm_ts t < 2 ^ 63"
  by (auto simp: parse_line_def Let_def parse_unix_seconds_def dest!: parse_i64_range
      split: if_splits option.splits)

subsection \<open>A line as the host writes it\<close>

definition log_line :: "bytes \<Rightarrow> nat \<Rightarrow> bytes" where
  "log_line lbl n = ''{'' @ quoted ''type'' @ '':'' @ quoted lbl @ '',''
     @ quoted ''timestamp'' @ '':'' @ show_nat n @ ''}''"

lemma meta_value_bare:
  "list_all is_digit s \<Longrightarrow> s \<noteq> [] \<Longrightarrow> meta_value (s @ CHR ''}'' # r) = Some s"
proof -
  assume a: "list_all is_digit s" and "s \<noteq> []"
  then obtain c s' where s: "s = c # s'" by (cases s) auto
  have nd: "\<not> is_digit quote" "\<not> is_digit (CHR '','')" "\<not> is_digit (CHR ''}'')"
    by (simp_all add: is_digit_def byte_val_def)
  have "takeWhile (\<lambda>b. b \<noteq> CHR '','' \<and> b \<noteq> CHR ''}'') (s @ CHR ''}'' # r) = s"
    using a nd by (subst takeWhile_append2) (auto simp: list_all_iff)
  moreover have "trim s = s" using a by (intro trim_all_solid) (auto simp: list_all_iff digit_solid)
  moreover have "c \<noteq> quote" using a nd s by auto
  ultimately show ?thesis by (simp add: meta_value_def s)
qed

lemma trim_matches_absent: "c \<notin> set s \<Longrightarrow> trim_matches c s = s"
proof -
  have d: "c \<notin> set t \<Longrightarrow> dropWhile (\<lambda>x. x = c) t = t" for t by (cases t) auto
  show "c \<notin> set s \<Longrightarrow> trim_matches c s = s"
    using d[of s] d[of "rev s"] by (simp add: trim_matches_def trim_end_matches_def)
qed

lemma parse_unix_seconds_show:
  "n < 2 ^ 63 \<Longrightarrow> parse_unix_seconds (show_nat n) = Some (int n)"
proof -
  assume n: "n < 2 ^ 63"
  have digits: "list_all is_digit (show_nat n)" by (rule digits_show_nat)
  have nd: "\<not> is_digit quote" "\<not> is_digit (CHR ''.'')" by (simp_all add: is_digit_def byte_val_def)
  have t: "trim (show_nat n) = show_nat n"
    using digits by (intro trim_all_solid) (auto simp: list_all_iff digit_solid)
  have "quote \<notin> set (show_nat n)" "CHR ''.'' \<notin> set (show_nat n)"
    using digits nd by (auto simp: list_all_iff)
  then have "trim_matches quote (show_nat n) = show_nat n" "split_once CHR ''.'' (show_nat n) = None"
    by (simp_all add: trim_matches_absent split_once_None)
  with t n show ?thesis by (simp add: parse_unix_seconds_def parse_i64_show)
qed

lemma log_line_ts:
  assumes "lbl \<in> set EVENT_LABELS"
  shows "value_for_key (log_line lbl n) ''timestamp'' = Some (show_nat n)"
proof -
  let ?pre = "''{'' @ quoted ''type'' @ '':'' @ quoted lbl @ '',''"
  let ?val = "show_nat n @ ''}''"
  obtain c s where cs: "show_nat n = c # s" by (meson list.exhaust show_nat_not_Nil)
  have "is_digit c" using digits_show_nat[of n] cs by simp
  have "key_scan meta_value ''timestamp'' (log_line lbl n) 0 = meta_value ?val"
  proof (rule key_scan_first[where u = "[]" and w = "[]"])
    show "str_find (quoted ''timestamp'') (log_line lbl n) = Some (length ?pre)"
      using assms by (auto simp: EVENT_LABELS_def log_line_def quoted_def)
    show "prev_ok ?pre" using prev_ok_snoc[of "CHR '',''" "''{'' @ quoted ''type'' @ '':'' @ quoted lbl"] by simp
    show "skip_ws ?val = ?val"
      unfolding cs using \<open>is_digit c\<close> by (simp add: skip_ws_solid is_digit_def)
  qed (simp_all add: log_line_def)
  then show ?thesis
    using meta_value_bare[OF digits_show_nat[of n] show_nat_not_Nil, of "[]"]
    by (simp add: value_for_key_def)
qed

lemma log_line_type:
  assumes "lbl \<in> set EVENT_LABELS"
  shows "value_for_key (log_line lbl n) ''type'' = Some (quoted lbl)"
proof -
  let ?val = "quoted lbl @ '','' @ quoted ''timestamp'' @ '':'' @ show_nat n @ ''}''"
  have "key_scan meta_value ''type'' (log_line lbl n) 0 = meta_value ?val"
  proof (rule key_scan_first[where u = "[]" and w = "[]"])
    show "str_find (quoted ''type'') (log_line lbl n) = Some (length ''{'')"
      by (simp add: log_line_def quoted_def)
    show "prev_ok ''{''" using prev_ok_snoc[of "CHR ''{''" "[]"] by simp
    show "skip_ws ?val = ?val" by (simp add: quoted_def skip_ws_solid byte_val_def)
  qed (simp_all add: log_line_def)
  also have "\<dots> = Some (quoted lbl)"
    using assms by (auto simp: EVENT_LABELS_def meta_value_def quoted_def)
  finally show ?thesis by (simp add: value_for_key_def)
qed

lemma label_solid: "lbl \<in> set EVENT_LABELS \<Longrightarrow> list_all solid (quoted lbl) \<and> quote \<notin> set lbl"
  by (auto simp: EVENT_LABELS_def quoted_def byte_val_def intro!: solid_ascii)

lemma unquote_quoted:
  assumes "lbl \<in> set EVENT_LABELS" shows "unquote (quoted lbl) = lbl"
proof -
  have "trim (quoted lbl) = quoted lbl" using label_solid[OF assms] by (simp add: trim_all_solid)
  moreover have "dropWhile (\<lambda>x. x = quote) (quoted lbl) = lbl @ [quote]"
    using assms by (auto simp: quoted_def EVENT_LABELS_def)
  moreover have "trim_end_matches quote (lbl @ [quote]) = lbl"
    using assms by (auto simp: trim_end_matches_def EVENT_LABELS_def)
  ultimately show ?thesis by (simp add: unquote_def trim_matches_def)
qed

lemma parse_log_line:
  assumes "lbl \<in> set EVENT_LABELS" "n < 2 ^ 63"
  shows "parse_line (log_line lbl n) = Some \<lparr>tm_ts = int n, tm_event = lbl\<rparr>"
proof -
  have "solid (CHR ''{'')" "solid (CHR ''}'')" by (rule solid_ascii; simp add: byte_val_def)+
  from trim_solid[OF this, of "quoted ''type'' @ '':'' @ quoted lbl @ '','' @ quoted ''timestamp'' @ '':'' @ show_nat n"]
  have "trim (log_line lbl n) = log_line lbl n" by (simp add: log_line_def)
  moreover have "log_line lbl n \<noteq> []" by (simp add: log_line_def)
  ultimately show ?thesis
    using assms by (simp add: parse_line_def log_line_ts log_line_type parse_unix_seconds_show
        unquote_quoted Let_def)
qed

text \<open>A log of such lines.\<close>

definition log_text :: "timing list \<Rightarrow> bytes" where
  "log_text ts = concat (map (\<lambda>t. log_line (tm_event t) (nat (tm_ts t)) @ [byte_of 10]) ts)"

definition timing_ok :: "timing \<Rightarrow> bool" where
  "timing_ok t \<longleftrightarrow> tm_event t \<in> set EVENT_LABELS \<and> 0 \<le> tm_ts t \<and> tm_ts t < 2 ^ 63"

lemma str_lines_Cons:
  assumes "byte_of 10 \<notin> set a" "\<not> ends_with [byte_of 13] a"
  shows "str_lines (a @ byte_of 10 # b) = a # str_lines b"
  using assms split_once_append[of "byte_of 10" a b] by (subst str_lines.simps) simp

lemma log_line_one_line:
  assumes "lbl \<in> set EVENT_LABELS"
  shows "byte_of 10 \<notin> set (log_line lbl n)" "\<not> ends_with [byte_of 13] (log_line lbl n)"
proof -
  have "list_all (\<lambda>c. 32 \<le> byte_val c) (show_nat n)"
    using digits_show_nat[of n] by (auto simp: list_all_iff is_digit_def)
  then have all: "32 \<le> byte_val c" if "c \<in> set (log_line lbl n)" for c
    using assms that by (auto simp: log_line_def quoted_def EVENT_LABELS_def list_all_iff byte_val_def)
  from all[of "byte_of 10"] show "byte_of 10 \<notin> set (log_line lbl n)" by auto
  from all[of "byte_of 13"] show "\<not> ends_with [byte_of 13] (log_line lbl n)"
    by (auto simp: ends_with_iff)
qed

lemma parse_log_text:
  "list_all timing_ok ts \<Longrightarrow> parse_timings (log_text ts) = ts"
proof (induction ts)
  case Nil
  then show ?case by (simp add: parse_timings_def log_text_def str_lines.simps map_filter_simps)
next
  case (Cons t ts)
  then have ok: "tm_event t \<in> set EVENT_LABELS" "0 \<le> tm_ts t" "nat (tm_ts t) < 2 ^ 63"
    by (simp_all add: timing_ok_def nat_less_iff)
  have "log_text (t # ts) = log_line (tm_event t) (nat (tm_ts t)) @ byte_of 10 # log_text ts"
    by (simp add: log_text_def)
  then show ?case
    using Cons ok log_line_one_line[OF ok(1)] parse_log_line[OF ok(1,3)]
    by (simp add: parse_timings_def str_lines_Cons map_filter_simps)
qed

text \<open>
  The timing reader's firewall. Whatever the log holds, the records recovered from it carry
  a label of the closed list (or the unknown one) and a 64-bit number, and no other text of it.
\<close>

lemma timings_closed:
  "tm_event ` set (parse_timings data) \<subseteq> set (UNKNOWN # EVENT_LABELS)
   \<and> tm_ts ` set (parse_timings data) \<subseteq> {- (2 ^ 63) ..< 2 ^ 63}"
  using parse_line_closed unfolding parse_timings_def List.map_filter_def by force

text \<open>
  A log of lines as the host writes them, one label and one time each, is read back exactly,
  record by record and in order.
\<close>

lemma timings_roundtrip:
  assumes "list_all timing_ok ts"
  shows "parse_timings (log_text ts) = ts"
  using assms by (rule parse_log_text)

lemma timings_roundtrip_witness:
  "parse_timings (log_text [\<lparr>tm_ts = 1781234567, tm_event = ''user''\<rparr>,
       \<lparr>tm_ts = 1781234570, tm_event = ''tool_use''\<rparr>])
   = [\<lparr>tm_ts = 1781234567, tm_event = ''user''\<rparr>, \<lparr>tm_ts = 1781234570, tm_event = ''tool_use''\<rparr>]"
  by (rule timings_roundtrip) (simp add: timing_ok_def EVENT_LABELS_def)

end
