(* ===== verification/Frame_Queue.thy ===== *)
theory Frame_Queue
  imports Rust_Str
begin

section \<open>The event queue on disk (spnrd, queue.rs)\<close>

text \<open>
  The append-only file of length-prefixed records, with the points at which an append can fail:
  a file is \<^typ>\<open>bytes option\<close> (\<^const>\<open>None\<close> when it does not exist) and the operating system's
  behaviour in one append is a \<^verbatim>\<open>disk_fault\<close>. The CLI's own reader (spnr-cli, read_queue) is
  modelled beside the daemon's. The interface \<^verbatim>\<open>record_log\<close> is what the daemon and the CLI rely on.
\<close>

type_synonym disk_file = "bytes option"

subsection \<open>Append\<close>

text \<open>
  What one append meets: nothing wrong; the open fails; the write stops after \<open>k\<close> bytes (a full
  disk, a killed process); the sync fails after a complete write.
\<close>

datatype disk_fault = NoFault | OpenFails | WriteStops nat | SyncFails

datatype io_error = OpenError | TooLarge | WriteError | SyncError

definition frame :: "bytes \<Rightarrow> bytes" where
  "frame r = be32 (length r) @ r"

definition append_bytes :: "disk_file \<Rightarrow> bytes \<Rightarrow> disk_file" where
  "append_bytes f b = Some ((case f of None \<Rightarrow> [] | Some c \<Rightarrow> c) @ b)"

text \<open>
  \<^verbatim>\<open>queue::append\<close>: open (creating the file), check that the length fits a \<^verbatim>\<open>u32\<close>, write the
  frame, sync. The result and the file afterwards.
\<close>

definition append_rec :: "disk_fault \<Rightarrow> disk_file \<Rightarrow> bytes \<Rightarrow> (io_error + unit) \<times> disk_file" where
  "append_rec fault f r =
     (if fault = OpenFails then (Inl OpenError, f)
      else if length r > 4294967295 then (Inl TooLarge, append_bytes f [])
      else
        (case fault of
           WriteStops k \<Rightarrow> (Inl WriteError, append_bytes f (take k (frame r)))
         | SyncFails \<Rightarrow> (Inl SyncError, append_bytes f (frame r))
         | _ \<Rightarrow> (Inr (), append_bytes f (frame r))))"

subsection \<open>Read\<close>

text \<open>
  The loop of \<^verbatim>\<open>queue::read_all\<close> over the index \<open>i\<close>: stop when fewer than four bytes are left, or
  when the length prefix claims more than is present.
\<close>

function read_from :: "bytes \<Rightarrow> nat \<Rightarrow> bytes list" where
  "read_from bs i =
     (if i + 4 \<le> length bs then
        (let len = un32 (bs ! i) (bs ! (i + 1)) (bs ! (i + 2)) (bs ! (i + 3));
             start = i + 4
         in (case checked_add_usize start len of
               None \<Rightarrow> []
             | Some stop \<Rightarrow>
                 if stop > length bs then []
                 else take (stop - start) (drop start bs) # read_from bs stop))
      else [])"
  by pat_completeness auto
termination
  by (relation "measure (\<lambda>(bs, i). length bs - i)") auto

declare read_from.simps [simp del]

definition read_all :: "disk_file \<Rightarrow> bytes list" where
  "read_all f = (case f of None \<Rightarrow> [] | Some bs \<Rightarrow> read_from bs 0)"

text \<open>The reader inlined in the CLI: the same framing, its own loop with an accumulator.\<close>

function read_queue_loop :: "bytes \<Rightarrow> nat \<Rightarrow> bytes list \<Rightarrow> bytes list" where
  "read_queue_loop bs i out =
     (if i + 4 \<le> length bs then
        (let len = un32 (bs ! i) (bs ! (i + 1)) (bs ! (i + 2)) (bs ! (i + 3));
             start = i + 4
         in (case checked_add_usize start len of
               None \<Rightarrow> out
             | Some stop \<Rightarrow>
                 if stop > length bs then out
                 else read_queue_loop bs stop (out @ [take (stop - start) (drop start bs)])))
      else out)"
  by pat_completeness auto
termination
  by (relation "measure (\<lambda>(bs, i, out). length bs - i)") auto

declare read_queue_loop.simps [simp del]

definition read_queue :: "disk_file \<Rightarrow> bytes list" where
  "read_queue f = (case f of None \<Rightarrow> [] | Some bs \<Rightarrow> read_queue_loop bs 0 [])"

lemma read_queue_loop_eq: "read_queue_loop bs i out = out @ read_from bs i"
proof (induction bs i out rule: read_queue_loop.induct)
  case (1 bs i out)
  show ?case
    by (subst read_queue_loop.simps, subst read_from.simps)
      (use 1 in \<open>auto simp: Let_def split: option.splits\<close>)
qed

lemma read_queue_eq_read_all: "read_queue f = read_all f"
  by (simp add: read_queue_def read_all_def read_queue_loop_eq split: option.splits)

subsection \<open>Reading frames\<close>

lemma length_frame [simp]: "length (frame r) = 4 + length r"
  by (simp add: frame_def)

text \<open>The header at an index, and the record behind it.\<close>

lemma read_from_frame [codec]:
  assumes "length r < 4294967296" "length pre + 4 + length r < 2 ^ 64"
  shows "read_from (pre @ frame r @ post) (length pre) =
           r # read_from (pre @ frame r @ post) (length pre + 4 + length r)"
proof -
  define bs where "bs = pre @ frame r @ post"
  have h: "bs ! length pre = byte_of (length r div 16777216)"
    "bs ! (length pre + 1) = byte_of (length r div 65536)"
    "bs ! (length pre + 2) = byte_of (length r div 256)"
    "bs ! (length pre + 3) = byte_of (length r)"
    by (simp_all add: bs_def frame_def be32_def nth_append)
  have n: "un32 (bs ! length pre) (bs ! (length pre + 1)) (bs ! (length pre + 2)) (bs ! (length pre + 3))
      = length r"
    unfolding h using assms(1) by (rule un32_be32)
  have c: "checked_add_usize (length pre + 4) (length r) = Some (length pre + 4 + length r)"
    using assms(2) by (simp only: checked_add_usize_small)
  have t: "take (length r) (drop (length pre + 4) bs) = r" and l: "length pre + 4 + length r \<le> length bs"
    by (simp_all add: bs_def frame_def)
  show ?thesis
    unfolding bs_def [symmetric]
    using l by (subst read_from.simps) (simp only: n c Let_def option.case, simp add: t)
qed

text \<open>A tail that holds no complete frame yields nothing.\<close>

definition torn :: "bytes \<Rightarrow> bool" where
  "torn t \<longleftrightarrow> length t < 4
     \<or> length t < 4 + un32 (t ! 0) (t ! 1) (t ! 2) (t ! 3)"

lemma read_from_torn [codec]:
  assumes "torn t"
  shows "read_from (pre @ t) (length pre) = []"
proof (cases "length t < 4")
  case True
  then show ?thesis by (subst read_from.simps) simp
next
  case False
  have "(pre @ t) ! (length pre + k) = t ! k" for k
    by (simp add: nth_append)
  from this[of 0] this[of 1] this[of 2] this[of 3] False assms show ?thesis
    by (subst read_from.simps)
      (auto simp: torn_def Let_def simp del: One_nat_def split: option.splits)
qed

lemma torn_take_frame:
  assumes "k < length (frame r)" "length r < 4294967296"
  shows "torn (take k (frame r))"
proof (cases "k < 4")
  case True
  then show ?thesis by (simp add: torn_def)
next
  case False
  then have "take k (frame r) = be32 (length r) @ take (k - 4) r"
    by (simp add: frame_def)
  with assms False un32_be32[OF assms(2)] show ?thesis
    by (simp add: torn_def be32_def)
qed

lemma torn_Nil [simp]: "torn []"
  by (simp add: torn_def)

definition records_ok :: "bytes list \<Rightarrow> bool" where
  "records_ok rs \<longleftrightarrow> (\<forall>r \<in> set rs. length r < 4294967296) \<and> length (concat (map frame rs)) < 2 ^ 64"

lemma read_from_frames:
  assumes "\<forall>r \<in> set rs. length r < 4294967296"
    and "length pre + length (concat (map frame rs)) < 2 ^ 64" "torn t"
  shows "read_from (pre @ concat (map frame rs) @ t) (length pre) = rs"
  using assms
proof (induction rs arbitrary: pre)
  case Nil
  then show ?case by (simp add: read_from_torn)
next
  case (Cons r rs)
  have "read_from (pre @ frame r @ concat (map frame rs) @ t) (length pre)
      = r # read_from (pre @ frame r @ concat (map frame rs) @ t) (length pre + 4 + length r)"
    using Cons.prems by (intro read_from_frame) auto
  moreover have "read_from ((pre @ frame r) @ concat (map frame rs) @ t) (length (pre @ frame r)) = rs"
    using Cons.prems by (intro Cons.IH) auto
  ultimately show ?case by (simp add: add.assoc)
qed

lemma read_all_frames:
  "records_ok rs \<Longrightarrow> torn t \<Longrightarrow> read_all (Some (concat (map frame rs) @ t)) = rs"
  using read_from_frames[of rs "[]" t] by (simp add: read_all_def records_ok_def)

subsection \<open>The log interface\<close>

text \<open>
  What a client of the queue relies on: an append that reports success adds its record at the
  end of what a read returns. \<open>room f r\<close> says that the log can still take the record.
\<close>

locale record_log =
  fixes append :: "disk_fault \<Rightarrow> 'f \<Rightarrow> bytes \<Rightarrow> (io_error + unit) \<times> 'f"
    and read :: "'f \<Rightarrow> bytes list"
    and clean :: "'f \<Rightarrow> bool"
    and room :: "'f \<Rightarrow> bytes \<Rightarrow> bool"
    and empty :: "'f"
  assumes clean_empty: "clean empty"
    and read_empty: "read empty = []"
    and append_ok: "clean f \<Longrightarrow> room f r \<Longrightarrow>
          \<exists>f'. append NoFault f r = (Inr (), f') \<and> clean f' \<and> read f' = read f @ [r]"
    and append_fault: "clean f \<Longrightarrow> room f r \<Longrightarrow> fault \<noteq> NoFault \<Longrightarrow>
          \<exists>e f'. append fault f r = (Inl e, f') \<and> (read f' = read f \<or> read f' = read f @ [r])"
begin

lemma append_result_ok:
  "clean f \<Longrightarrow> room f r \<Longrightarrow> fst (append NoFault f r) = Inr ()"
  using append_ok by fastforce

lemma read_append:
  "clean f \<Longrightarrow> room f r \<Longrightarrow> read (snd (append NoFault f r)) = read f @ [r]"
  using append_ok by fastforce

lemma clean_append:
  "clean f \<Longrightarrow> room f r \<Longrightarrow> clean (snd (append NoFault f r))"
  using append_ok by fastforce

lemma earlier_records_survive:
  assumes "clean f" "room f r"
  shows "prefix (read f) (read (snd (append fault f r)))"
proof (cases "fault = NoFault")
  case True
  with assms show ?thesis by (simp add: read_append)
next
  case False
  with append_fault[OF assms False] show ?thesis by auto
qed

end

text \<open>
  A clean queue file holds complete frames only. The reader's results on one are the records.
\<close>

definition queue_clean :: "disk_file \<Rightarrow> bool" where
  "queue_clean f \<longleftrightarrow> f = None \<or> (\<exists>rs. f = Some (concat (map frame rs)) \<and> records_ok rs)"

definition queue_room :: "disk_file \<Rightarrow> bytes \<Rightarrow> bool" where
  "queue_room f r \<longleftrightarrow> length r < 4294967296
     \<and> (case f of None \<Rightarrow> 0 | Some c \<Rightarrow> length c) + 4 + length r < 2 ^ 64"

lemma queue_clean_obtain:
  assumes "queue_clean f"
  obtains rs where "records_ok rs" "read_all f = rs"
    "(case f of None \<Rightarrow> [] | Some c \<Rightarrow> c) = concat (map frame rs)"
proof (cases f)
  case None
  with that[of "[]"] show ?thesis by (simp add: records_ok_def read_all_def)
next
  case (Some c)
  with assms obtain rs where "c = concat (map frame rs)" "records_ok rs"
    by (auto simp: queue_clean_def)
  with that[of rs] read_all_frames[of rs "[]"] Some show ?thesis by simp
qed

lemma records_ok_snoc:
  assumes "records_ok rs" "queue_room f r"
    and "(case f of None \<Rightarrow> [] | Some c \<Rightarrow> c) = concat (map frame rs)"
  shows "records_ok (rs @ [r])"
proof -
  have "length (concat (map frame rs)) = (case f of None \<Rightarrow> 0 | Some c \<Rightarrow> length c)"
    by (simp flip: assms(3) split: option.splits)
  with assms(1,2) show ?thesis by (auto simp: records_ok_def queue_room_def)
qed

lemma append_rec_cases:
  assumes "queue_clean f" "queue_room f r"
  obtains rs where "records_ok rs" "records_ok (rs @ [r])" "read_all f = rs"
    "append_rec NoFault f r = (Inr (), Some (concat (map frame (rs @ [r]))))"
    "append_rec SyncFails f r = (Inl SyncError, Some (concat (map frame (rs @ [r]))))"
    "append_rec OpenFails f r = (Inl OpenError, f)"
    "\<And>k. append_rec (WriteStops k) f r = (Inl WriteError, Some (concat (map frame rs) @ take k (frame r)))"
proof -
  obtain rs where rs: "records_ok rs" "read_all f = rs"
    "(case f of None \<Rightarrow> [] | Some c \<Rightarrow> c) = concat (map frame rs)"
    using queue_clean_obtain[OF assms(1)] by blast
  from records_ok_snoc[OF rs(1) assms(2) rs(3)] rs assms(2) that[of rs] show ?thesis
    by (simp add: append_rec_def append_bytes_def queue_room_def)
qed

interpretation queue: record_log append_rec read_all queue_clean queue_room None
proof unfold_locales
  show "queue_clean None" by (simp add: queue_clean_def)
  show "read_all None = []" by (simp add: read_all_def)
  fix f r assume *: "queue_clean f" "queue_room f r"
  obtain rs where rs: "records_ok rs" "records_ok (rs @ [r])" "read_all f = rs"
    and a: "append_rec NoFault f r = (Inr (), Some (concat (map frame (rs @ [r]))))"
      "append_rec SyncFails f r = (Inl SyncError, Some (concat (map frame (rs @ [r]))))"
      "append_rec OpenFails f r = (Inl OpenError, f)"
      "\<And>k. append_rec (WriteStops k) f r = (Inl WriteError, Some (concat (map frame rs) @ take k (frame r)))"
    using append_rec_cases[OF *] by blast
  have read: "read_all (Some (concat (map frame (rs @ [r])))) = rs @ [r]"
    using read_all_frames[OF rs(2) torn_Nil] by simp
  show "\<exists>f'. append_rec NoFault f r = (Inr (), f') \<and> queue_clean f' \<and> read_all f' = read_all f @ [r]"
  proof (intro exI conjI)
    show "append_rec NoFault f r = (Inr (), Some (concat (map frame (rs @ [r]))))" by (rule a(1))
    show "queue_clean (Some (concat (map frame (rs @ [r]))))"
      unfolding queue_clean_def using rs(2) by blast
    show "read_all (Some (concat (map frame (rs @ [r])))) = read_all f @ [r]"
      using read rs(3) by simp
  qed
  fix fault :: disk_fault assume "fault \<noteq> NoFault"
  have stop: "read_all (Some (concat (map frame rs) @ take k (frame r))) \<in> {rs, rs @ [r]}" for k
  proof (cases "k < length (frame r)")
    case True
    then have "torn (take k (frame r))"
      using *(2) by (intro torn_take_frame) (auto simp: queue_room_def)
    with rs(1) show ?thesis by (simp add: read_all_frames)
  next
    case False
    with read show ?thesis by simp
  qed
  show "\<exists>e f'. append_rec fault f r = (Inl e, f')
      \<and> (read_all f' = read_all f \<or> read_all f' = read_all f @ [r])"
    using \<open>fault \<noteq> NoFault\<close> a rs read stop by (cases fault) auto
qed

subsection \<open>Properties\<close>

text \<open>A history of successful appends, and a history in which each append may fail.\<close>

definition append_many :: "disk_file \<Rightarrow> bytes list \<Rightarrow> disk_file" where
  "append_many f rs = fold (\<lambda>r g. snd (append_rec NoFault g r)) rs f"

lemma append_many_frames:
  "records_ok (qs @ rs) \<Longrightarrow>
   append_many (Some (concat (map frame qs))) rs = Some (concat (map frame (qs @ rs)))"
proof (induction rs arbitrary: qs)
  case Nil
  then show ?case by (simp add: append_many_def)
next
  case (Cons r rs)
  have "append_rec NoFault (Some (concat (map frame qs))) r = (Inr (), Some (concat (map frame (qs @ [r]))))"
    using Cons.prems by (auto simp: append_rec_def append_bytes_def records_ok_def)
  with Cons.IH[of "qs @ [r]"] Cons.prems show ?case
    by (simp add: append_many_def)
qed

lemma append_many_None:
  assumes "records_ok rs" "rs \<noteq> []"
  shows "append_many None rs = Some (concat (map frame rs))"
proof -
  obtain r rs' where rs: "rs = r # rs'" using assms(2) by (cases rs) auto
  have "append_rec NoFault None r = append_rec NoFault (Some (concat (map frame []))) r"
    by (simp add: append_rec_def append_bytes_def)
  then have "append_many None rs = append_many (Some (concat (map frame []))) rs"
    by (simp add: append_many_def rs)
  with append_many_frames[of "[]" rs] assms(1) show ?thesis by simp
qed

lemma read_all_append_many: "records_ok rs \<Longrightarrow> read_all (append_many None rs) = rs"
proof (cases "rs = []")
  case True
  then show ?thesis by (simp add: append_many_def read_all_def)
next
  case False
  moreover assume "records_ok rs"
  ultimately show ?thesis using read_all_frames[of rs "[]"] by (simp add: append_many_None)
qed

text \<open>The bytes before position \<open>n\<close> of a sequence of frames: complete frames, then a torn one.\<close>

lemma take_frames_split:
  assumes "records_ok rs"
  obtains k t where "k \<le> length rs" "take n (concat (map frame rs)) = concat (map frame (take k rs)) @ t"
    "torn t"
    "\<And>j. j \<le> length rs \<Longrightarrow> length (concat (map frame (take j rs))) \<le> n \<Longrightarrow> j \<le> k"
  using assms
proof (induction rs arbitrary: n thesis)
  case Nil
  then show ?case by simp
next
  case (Cons r rs)
  have ok: "records_ok rs" and r: "length r < 4294967296"
    using Cons.prems(2) by (auto simp: records_ok_def)
  show ?case
  proof (cases "n < length (frame r)")
    case True
    have "j = 0" if "j \<le> Suc (length rs)" "length (concat (map frame (take j (r # rs)))) \<le> n" for j
      using that True by (cases j) auto
    with Cons.prems(1)[of 0 "take n (frame r)"] torn_take_frame[OF True r] True show ?thesis by simp
  next
    case False
    obtain k t where k: "k \<le> length rs"
      "take (n - length (frame r)) (concat (map frame rs)) = concat (map frame (take k rs)) @ t" "torn t"
      and max: "\<And>j. j \<le> length rs \<Longrightarrow>
        length (concat (map frame (take j rs))) \<le> n - length (frame r) \<Longrightarrow> j \<le> k"
      using Cons.IH[OF _ ok] by blast
    have "j \<le> Suc k" if "j \<le> Suc (length rs)" "length (concat (map frame (take j (r # rs)))) \<le> n" for j
    proof (cases j)
      case (Suc i)
      with that max[of i] show ?thesis by simp
    qed simp
    with Cons.prems(1)[of "Suc k" t] k False show ?thesis by simp
  qed
qed

text \<open>
  Reading a queue file that was written by successful appends returns the records in the
  order of the appends, for any records that fit their length prefix.
\<close>

lemma queue_roundtrip:
  assumes "records_ok rs"
  shows "read_all (append_many None rs) = rs"
  using assms by (rule read_all_append_many)

lemma queue_roundtrip_witness:
  "records_ok [''first'', ''second'', []]
   \<and> read_all (append_many None [''first'', ''second'', []]) = [''first'', ''second'', []]"
proof -
  have ok: "records_ok [''first'', ''second'', []]" by (simp add: records_ok_def)
  show ?thesis using ok queue_roundtrip[OF ok] by blast
qed

text \<open>
  C23: a crash that leaves only the first \<open>n\<close> bytes of the file costs no complete record. The
  reader returns a prefix of the records, and every record whose frame lies within the bytes
  that survived is in it.
\<close>

theorem queue_crash_prefix:
  assumes "records_ok rs"
  shows "\<exists>k \<le> length rs. read_all (Some (take n (concat (map frame rs)))) = take k rs
           \<and> (\<forall>j \<le> length rs. length (concat (map frame (take j rs))) \<le> n \<longrightarrow> j \<le> k)"
proof -
  obtain k t where k: "k \<le> length rs"
    "take n (concat (map frame rs)) = concat (map frame (take k rs)) @ t" "torn t"
    "\<And>j. j \<le> length rs \<Longrightarrow> length (concat (map frame (take j rs))) \<le> n \<Longrightarrow> j \<le> k"
    using take_frames_split[OF assms] by blast
  have "prefix (concat (map frame (take k rs))) (concat (map frame rs))"
    by (rule prefix_concat_take)
  then have "length (concat (map frame (take k rs))) < 2 ^ 64"
    using assms by (auto simp: records_ok_def dest!: prefix_length_le)
  then have "records_ok (take k rs)"
    using assms by (auto simp: records_ok_def dest: in_set_takeD)
  then show ?thesis using k read_all_frames[of "take k rs" t] by auto
qed

lemma queue_crash_prefix_witness:
  "records_ok [''ab'', ''cd'']
   \<and> (\<exists>k \<le> 2. read_all (Some (take 9 (concat (map frame [''ab'', ''cd''])))) = take k [''ab'', ''cd'']
        \<and> (\<forall>j \<le> 2. length (concat (map frame (take j [''ab'', ''cd'']))) \<le> 9 \<longrightarrow> j \<le> k))"
proof -
  have ok: "records_ok [''ab'', ''cd'']" by (simp add: records_ok_def)
  show ?thesis using ok queue_crash_prefix[OF ok, of 9] by (simp add: numeral_2_eq_2)
qed

text \<open>
  An append that stops part way leaves a torn frame in the file, and a later append that
  reports success behind it is lost to every reader as long as the torn frame's announced
  length is not filled up.
\<close>

lemma queue_torn_append_hides_later:
  assumes "queue_clean f" "queue_room f r" "4 \<le> k" "4 + length r2 + k < 4 + length r"
  shows "\<exists>g h. append_rec (WriteStops k) f r = (Inl WriteError, g)
           \<and> append_rec NoFault g r2 = (Inr (), h) \<and> read_all h = read_all f"
proof -
  obtain rs where rs: "records_ok rs" "read_all f = rs"
    and a: "append_rec (WriteStops k) f r = (Inl WriteError, Some (concat (map frame rs) @ take k (frame r)))"
    using append_rec_cases[OF assms(1,2)] by blast
  define t where "t = take k (frame r) @ frame r2"
  have "length r < 4294967296" using assms(2) by (simp add: queue_room_def)
  moreover have "take k (frame r) = be32 (length r) @ take (k - 4) r"
    using assms(3) by (simp add: frame_def)
  ultimately have "torn t"
    using assms(3,4) un32_be32[of "length r"] by (simp add: torn_def t_def be32_def)
  then have "read_all (Some (concat (map frame rs) @ t)) = rs"
    using rs(1) by (rule read_all_frames[rotated])
  moreover have "append_rec NoFault (Some (concat (map frame rs) @ take k (frame r))) r2
      = (Inr (), Some (concat (map frame rs) @ t))"
    using assms(4) \<open>length r < 4294967296\<close> by (simp add: append_rec_def append_bytes_def t_def)
  ultimately show ?thesis using a rs(2) by blast
qed

lemma queue_torn_append_hides_later_witness:
  "\<exists>g h. append_rec (WriteStops 5) None ''partial'' = (Inl WriteError, g)
      \<and> append_rec NoFault g ''x'' = (Inr (), h) \<and> read_all h = read_all None"
proof (rule queue_torn_append_hides_later)
  show "queue_clean None" by (simp add: queue_clean_def)
  show "queue_room None ''partial''" by (simp add: queue_room_def)
  show "(4::nat) \<le> 5" "4 + length ''x'' + 5 < 4 + length ''partial''" by simp_all
qed

text \<open>
  The reader the CLI carries for \<^verbatim>\<open>spnr audit\<close> returns what the daemon's reader returns, on
  every file, well formed or not.
\<close>

lemma audit_reader_agrees: "read_queue f = read_all f"
  by (rule read_queue_eq_read_all)

end
