(* ===== verification/Reader_Loops.thy ===== *)
theory Reader_Loops
  imports Timing_Meta Frame_Queue "HOL-Library.While_Combinator"
begin

section \<open>The readers as the loops they are written as\<close>

text \<open>
  The readers of the queue file and of the host's input once more, at the level of the source: a
  \<^verbatim>\<open>while\<close> over an index with \<^verbatim>\<open>break\<close>, \<^verbatim>\<open>continue\<close> and \<^verbatim>\<open>return\<close>, as \<open>while_option\<close>, whose result is
  \<open>None\<close> when the loop does not end. Lemmas: every loop ends on every input, and returns what the
  list functions of the other theories return, so what is proved of those holds of the loops.
\<close>

subsection \<open>The queue file\<close>

text \<open>The state is \<^verbatim>\<open>i\<close>, \<^verbatim>\<open>out\<close> and whether a \<^verbatim>\<open>break\<close> was taken.\<close>

type_synonym queue_state = "nat \<times> bytes list \<times> bool"

definition queue_more :: "bytes \<Rightarrow> queue_state \<Rightarrow> bool" where
  "queue_more bs st = (case st of (i, out, broke) \<Rightarrow> \<not> broke \<and> i + 4 \<le> length bs)"

definition queue_body :: "bytes \<Rightarrow> queue_state \<Rightarrow> queue_state" where
  "queue_body bs st =
     (case st of (i, out, broke) \<Rightarrow>
        (let len = un32 (bs ! i) (bs ! (i + 1)) (bs ! (i + 2)) (bs ! (i + 3));
             start = i + 4
         in (case checked_add_usize start len of
               None \<Rightarrow> (i, out, True)
             | Some stop \<Rightarrow>
                 if stop > length bs then (i, out, True)
                 else (stop, out @ [take (stop - start) (drop start bs)], False))))"

definition queue_while :: "bytes \<Rightarrow> bytes list option" where
  "queue_while bs = map_option (\<lambda>st. fst (snd st)) (while_option (queue_more bs) (queue_body bs) (0, [], False))"

lemma queue_stopped: "while_option (queue_more bs) (queue_body bs) (i, out, True) = Some (i, out, True)"
  by (subst while_option_unfold) (simp add: queue_more_def)

lemma queue_while_loop:
  "\<exists>i' b. while_option (queue_more bs) (queue_body bs) (i, out, False) = Some (i', read_queue_loop bs i out, b)"
proof (induction bs i out rule: read_queue_loop.induct)
  case (1 bs i out)
  show ?case
  proof (cases "i + 4 \<le> length bs")
    case False
    then show ?thesis
      by (subst while_option_unfold, subst read_queue_loop.simps) (auto simp: queue_more_def)
  next
    case True
    have m: "queue_more bs (i, out, False)" using True by (simp add: queue_more_def)
    define stop where "stop = checked_add_usize (i + 4) (un32 (bs ! i) (bs ! (i + 1)) (bs ! (i + 2)) (bs ! (i + 3)))"
    show ?thesis
    proof (cases "\<exists>e. stop = Some e \<and> e \<le> length bs")
      case True
      then obtain e where e: "stop = Some e" "e \<le> length bs" by blast
      let ?out = "out @ [take (e - (i + 4)) (drop (i + 4) bs)]"
      have "queue_body bs (i, out, False) = (e, ?out, False)"
        using e by (simp add: queue_body_def stop_def[symmetric] Let_def del: One_nat_def add_2_eq_Suc')
      moreover have "read_queue_loop bs i out = read_queue_loop bs e ?out"
        using e \<open>i + 4 \<le> length bs\<close>
        by (subst read_queue_loop.simps) (simp add: stop_def[symmetric] Let_def del: One_nat_def add_2_eq_Suc')
      ultimately show ?thesis
        using m 1[OF \<open>i + 4 \<le> length bs\<close> refl refl] e
        by (subst while_option_unfold) (simp add: stop_def[symmetric] Let_def del: One_nat_def add_2_eq_Suc')
    next
      case False
      have "queue_body bs (i, out, False) = (i, out, True)"
        using False by (auto simp: queue_body_def stop_def[symmetric] Let_def simp del: One_nat_def add_2_eq_Suc' split: option.split)
      moreover have "read_queue_loop bs i out = out"
        using False \<open>i + 4 \<le> length bs\<close>
        by (subst read_queue_loop.simps) (auto simp: stop_def[symmetric] Let_def simp del: One_nat_def add_2_eq_Suc' split: option.split)
      ultimately show ?thesis using m queue_stopped by (subst while_option_unfold) auto
    qed
  qed
qed

lemma queue_while_eq: "queue_while bs = Some (read_queue_loop bs 0 [])"
  using queue_while_loop[of bs 0 "[]"] by (auto simp: queue_while_def)

subsection \<open>White space\<close>

definition ws_while :: "bytes \<Rightarrow> nat \<Rightarrow> nat option" where
  "ws_while bs = while_option (\<lambda>i. i < length bs \<and> is_ascii_whitespace (bs ! i)) Suc"

lemma ws_while_unfold:
  "ws_while bs i = (if i < length bs \<and> is_ascii_whitespace (bs ! i) then ws_while bs (Suc i) else Some i)"
  unfolding ws_while_def by (subst while_option_unfold) simp

lemma ws_while_skips: "i \<le> length bs \<Longrightarrow> \<exists>k. ws_while bs i = Some k \<and> k \<le> length bs \<and> drop k bs = skip_ws (drop i bs)"
proof (induction "length bs - i" arbitrary: i)
  case 0
  then show ?case by (intro exI[of _ i]) (simp add: ws_while_unfold[of bs i] skip_ws_def)
next
  case (Suc n)
  then have d: "drop i bs = bs ! i # drop (Suc i) bs" by (simp add: Cons_nth_drop_Suc)
  show ?case
  proof (cases "is_ascii_whitespace (bs ! i)")
    case True
    then show ?thesis using Suc(1)[of "Suc i"] Suc(2,3) by (simp add: ws_while_unfold[of bs i] d skip_ws_def)
  next
    case False
    then show ?thesis using Suc(3) by (intro exI[of _ i]) (simp add: ws_while_unfold[of bs i] d skip_ws_def)
  qed
qed

subsection \<open>The values\<close>

text \<open>The inner loop of \<^verbatim>\<open>skim_string\<close>: \<^verbatim>\<open>j\<close>, \<^verbatim>\<open>out\<close> and what a \<^verbatim>\<open>return\<close> gave.\<close>

definition unescape_body :: "bytes \<Rightarrow> nat \<times> bytes \<times> bytes option \<Rightarrow> nat \<times> bytes \<times> bytes option" where
  "unescape_body bs st =
     (case st of (j, out, ret) \<Rightarrow>
        if bs ! j = backslash \<and> j + 1 < length bs then (j + 2, out @ unescape_byte (bs ! (j + 1)), None)
        else if bs ! j = quote then (j, out, Some out)
        else (j + 1, out @ push_byte_char (bs ! j), None))"

definition unescape_while :: "bytes \<Rightarrow> nat \<times> bytes \<times> bytes option \<Rightarrow> (nat \<times> bytes \<times> bytes option) option" where
  "unescape_while bs = while_option (\<lambda>(j, out, ret). ret = None \<and> j < length bs) (unescape_body bs)"

definition hook_at :: "bytes \<Rightarrow> nat \<Rightarrow> bytes option option" where
  "hook_at bs i =
     (if i \<ge> length bs \<or> bs ! i \<noteq> quote then Some None
      else map_option (\<lambda>(j, out, ret). ret) (unescape_while bs (i + 1, [], None)))"

text \<open>The inner loop of \<^verbatim>\<open>skim_session\<close> and of \<^verbatim>\<open>value_for_key\<close>: \<^verbatim>\<open>j\<close> and whether it stands at the quote.\<close>

definition quote_body :: "bytes \<Rightarrow> nat \<times> bool \<Rightarrow> nat \<times> bool" where
  "quote_body bs st =
     (case st of (j, found) \<Rightarrow>
        if bs ! j = backslash then (j + 2, False)
        else if bs ! j = quote then (j, True)
        else (j + 1, False))"

definition quote_while :: "bytes \<Rightarrow> nat \<times> bool \<Rightarrow> (nat \<times> bool) option" where
  "quote_while bs = while_option (\<lambda>(j, found). \<not> found \<and> j < length bs) (quote_body bs)"

definition byte_range :: "bytes \<Rightarrow> nat \<Rightarrow> nat \<Rightarrow> bytes" where
  "byte_range bs i j = take (j - i) (drop i bs)"

definition status_at :: "bytes \<Rightarrow> nat \<Rightarrow> bytes option option" where
  "status_at bs i =
     (if i \<ge> length bs \<or> bs ! i \<noteq> quote then Some None
      else map_option (\<lambda>(j, found). if found then Some (byte_range bs (i + 1) j) else None)
             (quote_while bs (i + 1, False)))"

definition bare_while :: "bytes \<Rightarrow> nat \<Rightarrow> nat option" where
  "bare_while bs = while_option (\<lambda>j. j < length bs \<and> bs ! j \<noteq> CHR '','' \<and> bs ! j \<noteq> CHR ''}'') Suc"

definition meta_at :: "bytes \<Rightarrow> nat \<Rightarrow> bytes option option" where
  "meta_at bs i =
     (if i \<ge> length bs then Some None
      else if bs ! i = quote then
        map_option (\<lambda>(j, found). if found then Some (byte_range bs i (j + 1)) else None) (quote_while bs (i + 1, False))
      else map_option (\<lambda>j. Some (trim (byte_range bs i j))) (bare_while bs i))"

subsection \<open>The search\<close>

text \<open>The outer loop, with the reading of the value as its argument.\<close>

partial_function (option) scan_loop :: "(bytes \<Rightarrow> nat \<Rightarrow> 'a option option) \<Rightarrow> bytes \<Rightarrow> bytes \<Rightarrow> nat \<Rightarrow> 'a option option" where
  "scan_loop value_at key bs frm =
     (case str_find (quoted key) (drop frm bs) of
        None \<Rightarrow> Some None
      | Some rel \<Rightarrow>
          (let start = frm + rel;
               stop = start + length (quoted key)
           in if \<not> prev_ok (take start bs) then scan_loop value_at key bs stop
              else Option.bind (ws_while bs stop) (\<lambda>i.
                if i \<ge> length bs \<or> bs ! i \<noteq> CHR '':'' then scan_loop value_at key bs stop
                else Option.bind (ws_while bs (i + 1)) (value_at bs))))"

text \<open>A reader at an index that ends there as the list reader does on the rest.\<close>

definition reads_as :: "(bytes \<Rightarrow> nat \<Rightarrow> 'a option option) \<Rightarrow> (bytes \<Rightarrow> 'a option) \<Rightarrow> bool" where
  "reads_as value_at value_of \<longleftrightarrow> (\<forall>bs i. i \<le> length bs \<longrightarrow> value_at bs i = Some (value_of (drop i bs)))"

lemma scan_loop_ends:
  assumes "reads_as value_at value_of"
  shows "scan_loop value_at key bs frm = Some (key_scan value_of key bs frm)"
  using assms
proof (induction value_of key bs frm rule: key_scan.induct)
  case (1 value_of key bs frm)
  show ?case
  proof (cases "str_find (quoted key) (drop frm bs)")
    case None
    then show ?thesis by (subst scan_loop.simps, subst key_scan.simps) simp
  next
    case (Some rel)
    define start where "start = frm + rel"
    define stop where "stop = start + length (quoted key)"
    have le: "stop \<le> length bs" using str_find_advances(2)[OF Some quoted_not_Nil] by (simp add: start_def stop_def)
    obtain i where i: "ws_while bs stop = Some i" "i \<le> length bs" "drop i bs = skip_ws (drop stop bs)"
      using ws_while_skips[OF le] by blast
    note IH = 1(1)[OF Some start_def stop_def] 1(2)[OF Some start_def stop_def] 1(3)[OF Some start_def stop_def]
    show ?thesis
    proof (cases "prev_ok (take start bs)")
      case False
      then show ?thesis
        using IH(1)[OF False 1(4)] Some
        by (subst scan_loop.simps, subst key_scan.simps) (simp add: Let_def start_def stop_def)
    next
      case True
      show ?thesis
      proof (cases "drop i bs")
        case Nil
        then show ?thesis
          using IH(2) 1(4) True i Some
          by (subst scan_loop.simps, subst key_scan.simps) (simp add: Let_def flip: start_def stop_def)
      next
        case (Cons c rest)
        then have at: "i < length bs" "bs ! i = c" "drop (Suc i) bs = rest"
          by (metis drop_all leI list.distinct(1), metis nth_via_drop, metis drop_Suc list.sel(3) tl_drop)
        then obtain k where k: "ws_while bs (Suc i) = Some k" "k \<le> length bs" "drop k bs = skip_ws rest"
          using ws_while_skips[of "Suc i" bs] by auto
        have sk: "skip_ws (drop stop bs) = c # rest" using i(3) Cons by simp
        from k have v: "value_at bs k = Some (value_of (skip_ws rest))" using 1(4) by (simp add: reads_as_def)
        show ?thesis
          using IH(3) 1(4) True i(1) Some sk at k v
          by (subst scan_loop.simps, subst key_scan.simps)
            (simp add: Let_def flip: start_def stop_def)
      qed
    qed
  qed
qed

lemma unescape_while_unfold:
  "unescape_while bs (j, out, ret) =
     (if ret = None \<and> j < length bs then unescape_while bs (unescape_body bs (j, out, ret)) else Some (j, out, ret))"
  unfolding unescape_while_def by (subst while_option_unfold) simp

lemma unescape_done: "unescape_while bs (j, out, Some r) = Some (j, out, Some r)"
  by (simp add: unescape_while_unfold)

lemma drop_two:
  "drop j bs = b # c # t \<Longrightarrow>
     j + 1 < length bs \<and> bs ! j = b \<and> bs ! (j + 1) = c \<and> drop (j + 1) bs = c # t \<and> drop (j + 2) bs = t"
proof -
  assume a: "drop j bs = b # c # t"
  have l: "length bs - j = Suc (Suc (length t))" using arg_cong[OF a, of length] by simp
  have d: "drop (j + 1) bs = c # t" using a by (metis Suc_eq_plus1 drop_Suc list.sel(3) tl_drop)
  moreover have "drop (j + 2) bs = t" using d by (metis add_2_eq_Suc' Suc_eq_plus1 drop_Suc list.sel(3) tl_drop)
  moreover have "bs ! j = b" "bs ! (j + 1) = c" using nth_via_drop[OF a] nth_via_drop[OF d] by simp_all
  ultimately show ?thesis using l by linarith
qed

lemma drop_one: "drop j bs = [b] \<Longrightarrow> j + 1 = length bs \<and> bs ! j = b \<and> drop (j + 1) bs = []"
proof -
  assume a: "drop j bs = [b]"
  then have "length bs - j = 1" by (metis length_drop length_Cons list.size(3) One_nat_def)
  with nth_via_drop[OF a] show ?thesis by simp
qed

lemma unescape_while_reads:
  "\<exists>j' out'. unescape_while bs (j, out, None) = Some (j', out', read_unescaped (drop j bs) out)"
proof (induction "drop j bs" out arbitrary: j rule: read_unescaped.induct)
  case (1 out)
  have "length bs \<le> j" using 1[symmetric] by simp
  then show ?case by (simp add: unescape_while_unfold[of bs j])
next
  case (2 b out)
  note d = drop_one[OF 2(2)[symmetric]]
  have s: "unescape_while bs (j, out, None) = unescape_while bs (unescape_body bs (j, out, None))"
    using d by (subst unescape_while_unfold) simp
  show ?case
  proof (cases "b = quote")
    case True
    with d s show ?thesis by (simp add: unescape_body_def unescape_done flip: 2(2))
  next
    case False
    with d s show ?thesis
      using 2(1)[OF False, of "j + 1"] by (simp add: unescape_body_def flip: 2(2))
  qed
next
  case (3 b c t out)
  note d = drop_two[OF 3(3)[symmetric]]
  have s: "unescape_while bs (j, out, None) = unescape_while bs (unescape_body bs (j, out, None))"
    using d by (subst unescape_while_unfold) simp
  show ?case
  proof (cases "b = backslash")
    case True
    with d s show ?thesis using 3(1)[OF True, of "j + 2"] by (simp add: unescape_body_def flip: 3(3))
  next
    case bs: False
    show ?thesis
    proof (cases "b = quote")
      case True
      with d s show ?thesis by (simp add: unescape_body_def unescape_done flip: 3(3))
    next
      case False
      with bs d s show ?thesis using 3(2)[OF bs False, of "j + 1"] by (simp add: unescape_body_def flip: 3(3))
    qed
  qed
qed

lemma at_end: "i < length bs \<Longrightarrow> drop i bs = bs ! i # drop (i + 1) bs"
  by (simp add: Cons_nth_drop_Suc)

lemma hook_reads: "reads_as hook_at hook_value"
proof -
  have "hook_at bs i = Some (hook_value (drop i bs))" for bs i
  proof (cases "i < length bs")
    case True
    then show ?thesis
      using unescape_while_reads[of bs "i + 1" "[]"] at_end[OF True] by (auto simp: hook_at_def hook_value_def)
  next
    case False
    then show ?thesis by (simp add: hook_at_def hook_value_def)
  qed
  then show ?thesis by (simp add: reads_as_def)
qed

lemma quote_while_unfold:
  "quote_while bs (j, found) = (if \<not> found \<and> j < length bs then quote_while bs (quote_body bs (j, found)) else Some (j, found))"
  unfolding quote_while_def by (subst while_option_unfold) simp

lemma quote_while_done [simp]: "quote_while bs (j, True) = Some (j, True)"
  by (simp add: quote_while_unfold)

lemma quote_while_end: "length bs \<le> j \<Longrightarrow> quote_while bs (j, False) = Some (j, False)"
  by (simp add: quote_while_unfold)

lemma byte_range_snoc: "i \<le> j \<Longrightarrow> j < length bs \<Longrightarrow> byte_range bs i (j + 1) = byte_range bs i j @ [bs ! j]"
  by (simp add: byte_range_def Suc_diff_le take_Suc_conv_app_nth)

text \<open>The byte_range up to the quote is what the list reader has gathered.\<close>

lemma quote_while_reads:
  "i \<le> j \<Longrightarrow> j \<le> length bs \<Longrightarrow> acc = byte_range bs i j \<Longrightarrow>
     \<exists>j' found. quote_while bs (j, False) = Some (j', found)
       \<and> (if found then i \<le> j' \<and> j' < length bs \<and> bs ! j' = quote \<and> read_raw (drop j bs) acc = Some (byte_range bs i j')
          else read_raw (drop j bs) acc = None)"
proof (induction "drop j bs" acc arbitrary: j rule: read_raw.induct)
  case (1 acc)
  have "length bs \<le> j" using 1(1)[symmetric] by simp
  then show ?case by (auto simp: quote_while_end)
next
  case (2 b acc)
  note d = drop_one[OF 2(1)[symmetric]]
  have s: "quote_while bs (j, False) = quote_while bs (quote_body bs (j, False))"
    using d by (subst quote_while_unfold) simp
  show ?case
  proof (cases "b = quote")
    case True
    then show ?thesis using d s 2 by (auto simp: quote_body_def simp flip: 2(1))
  next
    case False
    then show ?thesis
      using d s quote_while_end[of bs "j + 1"] quote_while_end[of bs "j + 2"]
      by (auto simp: quote_body_def simp flip: 2(1))
  qed
next
  case (3 b c t acc)
  note d = drop_two[OF 3(3)[symmetric]]
  have s: "quote_while bs (j, False) = quote_while bs (quote_body bs (j, False))"
    using d by (subst quote_while_unfold) simp
  have one: "byte_range bs i (j + 1) = acc @ [b]" using 3(4,6) d byte_range_snoc[of i j bs] by simp
  have two: "byte_range bs i (j + 2) = acc @ [b, c]" using one 3(4) d byte_range_snoc[of i "j + 1" bs] by simp
  have l: "j + 2 \<le> length bs" using d by linarith
  show ?case
  proof (cases "b = backslash")
    case True
    have q: "quote_while bs (j, False) = quote_while bs (j + 2, False)" using d True by (simp add: s quote_body_def)
    have rr: "read_raw (drop j bs) acc = read_raw (drop (j + 2) bs) (acc @ [b, c])"
      using d True by (simp flip: 3(3))
    show ?thesis
      unfolding q rr by (rule 3(1)[OF True _ _ l two[symmetric]]) (use d 3(4) in simp_all)
  next
    case bs: False
    show ?thesis
    proof (cases "b = quote")
      case True
      then show ?thesis using bs d s 3(4,6) by (auto simp: quote_body_def simp flip: 3(3))
    next
      case False
      have q: "quote_while bs (j, False) = quote_while bs (j + 1, False)" using d bs False by (simp add: s quote_body_def)
      have rr: "read_raw (drop j bs) acc = read_raw (drop (j + 1) bs) (acc @ [b])"
        using d bs False by (simp flip: 3(3))
      show ?thesis
        unfolding q rr by (rule 3(2)[OF bs False _ _ _ one[symmetric]]) (use d 3(4) l in simp_all)
    qed
  qed
qed

lemma status_reads: "reads_as status_at status_value"
proof -
  have "status_at bs i = Some (status_value (drop i bs))" for bs i
  proof (cases "i < length bs")
    case True
    obtain j found where r: "quote_while bs (i + 1, False) = Some (j, found)"
      "if found then i + 1 \<le> j \<and> j < length bs \<and> bs ! j = quote
         \<and> read_raw (drop (i + 1) bs) [] = Some (byte_range bs (i + 1) j)
       else read_raw (drop (i + 1) bs) [] = None"
      using quote_while_reads[of "i + 1" "i + 1" bs "[]"] True by (auto simp: byte_range_def)
    then show ?thesis
      unfolding status_value_def at_end[OF True] using True by (auto simp: status_at_def split: if_splits)
  next
    case False
    then show ?thesis by (simp add: status_at_def status_value_def)
  qed
  then show ?thesis by (simp add: reads_as_def)
qed

lemma bare_while_unfold:
  "bare_while bs j = (if j < length bs \<and> bs ! j \<noteq> CHR '','' \<and> bs ! j \<noteq> CHR ''}'' then bare_while bs (Suc j) else Some j)"
  unfolding bare_while_def by (subst while_option_unfold) simp

lemma bare_while_reads:
  "j \<le> length bs \<Longrightarrow> \<exists>k. bare_while bs j = Some k \<and> j \<le> k
     \<and> byte_range bs j k = takeWhile (\<lambda>b. b \<noteq> CHR '','' \<and> b \<noteq> CHR ''}'') (drop j bs)"
proof (induction "length bs - j" arbitrary: j)
  case 0
  then show ?case by (intro exI[of _ j]) (simp add: bare_while_unfold[of bs j] byte_range_def)
next
  case (Suc n)
  then have d: "drop j bs = bs ! j # drop (Suc j) bs" by (simp add: Cons_nth_drop_Suc)
  show ?case
  proof (cases "bs ! j \<noteq> CHR '','' \<and> bs ! j \<noteq> CHR ''}''")
    case True
    have le: "n = length bs - Suc j" "Suc j \<le> length bs" using Suc(2,3) by simp_all
    from Suc(1)[OF le] obtain k where k: "bare_while bs (Suc j) = Some k" "Suc j \<le> k"
      "byte_range bs (Suc j) k = takeWhile (\<lambda>b. b \<noteq> CHR '','' \<and> b \<noteq> CHR ''}'') (drop (Suc j) bs)" by blast
    have "byte_range bs j k = bs ! j # byte_range bs (Suc j) k"
      using k(2) by (simp add: byte_range_def d take_Cons' Suc_diff_Suc)
    with True k Suc(2) show ?thesis by (intro exI[of _ k]) (simp add: bare_while_unfold[of bs j] d)
  next
    case False
    then show ?thesis
      using Suc(2) by (intro exI[of _ j]) (auto simp: bare_while_unfold[of bs j] d byte_range_def)
  qed
qed

lemma meta_reads: "reads_as meta_at meta_value"
proof -
  have "meta_at bs i = Some (meta_value (drop i bs))" for bs i
  proof (cases "i < length bs")
    case True
    show ?thesis
    proof (cases "bs ! i = quote")
      case q: True
      obtain j found where r: "quote_while bs (i + 1, False) = Some (j, found)"
        "if found then i + 1 \<le> j \<and> j < length bs \<and> bs ! j = quote
           \<and> read_raw (drop (i + 1) bs) [] = Some (byte_range bs (i + 1) j)
         else read_raw (drop (i + 1) bs) [] = None"
        using quote_while_reads[of "i + 1" "i + 1" bs "[]"] True by (auto simp: byte_range_def)
      have "byte_range bs i (j + 1) = quote # byte_range bs (i + 1) j @ [quote]" if found
      proof -
        have "byte_range bs i (j + 1) = bs ! i # byte_range bs (i + 1) (j + 1)"
          using r(2) that True at_end[OF True] by (simp add: byte_range_def take_Cons' Suc_diff_Suc)
        with q r(2) that byte_range_snoc[of "i + 1" j bs] show ?thesis by simp
      qed
      with r q True show ?thesis
        unfolding meta_value_def at_end[OF True] by (auto simp: meta_at_def split: if_splits)
    next
      case False
      then show ?thesis
        using bare_while_reads[of i bs] True
        by (auto simp: meta_at_def meta_value_def at_end[OF True])
    qed
  next
    case False
    then show ?thesis by (simp add: meta_at_def meta_value_def)
  qed
  then show ?thesis by (simp add: reads_as_def)
qed

subsection \<open>The property\<close>

text \<open>
  C20: every reader of outside data returns, on every input, torn, empty or hostile: the loop over the
  queue file, with what both the daemon's and \<^verbatim>\<open>spnr audit\<close>'s reader give, and the three scanners of
  the host's input (hook, status line, timing log), with the value the list functions compute; so no
  file and no blob makes a binary on the hot path hang.
\<close>

theorem readers_terminate:
  "queue_while file = Some (read_all (Some file))
   \<and> queue_while file = Some (read_queue (Some file))
   \<and> scan_loop hook_at key blob 0 = Some (skim_string blob key)
   \<and> scan_loop status_at KEY_SESSION blob 0 = Some (skim_session blob)
   \<and> scan_loop meta_at key line 0 = Some (value_for_key line key)"
proof (intro conjI)
  show "queue_while file = Some (read_all (Some file))" "queue_while file = Some (read_queue (Some file))"
    by (simp_all add: queue_while_eq read_queue_eq_read_all[symmetric] read_queue_def)
qed (simp_all add: scan_loop_ends[OF hook_reads] scan_loop_ends[OF status_reads] scan_loop_ends[OF meta_reads]
      skim_string_def skim_session_def value_for_key_def)

end
