(* ===== verification/Json_Value.thy ===== *)
theory Json_Value
  imports Rust_Str "HOL-Library.Multiset"
begin

section \<open>JSON values (serde_json with preserve_order)\<close>

text \<open>
  The value tree \<^verbatim>\<open>serde_json::Value\<close> the settings code and the wire types are written
  against. An object is an association list in key order with distinct keys (\<^verbatim>\<open>json_wf\<close>), since the
  workspace builds serde_json with preserve_order: an insert replaces in place or appends, and
  \<^verbatim>\<open>Map::remove\<close> is documented to be \<^verbatim>\<open>swap_remove\<close>, which moves the last entry into the gap. An
  interpretation shows that both still satisfy the map contract of the prelude.
\<close>

text \<open>A number is an unsigned, a negative or an IEEE double (its 64 bits).\<close>

datatype json_number = PosInt u64 | NegInt i64 | Float "64 word"

datatype json =
    JNull
  | JBool bool
  | JNumber json_number
  | JString string
  | JArray "json list"
  | JObject "(string \<times> json) list"

type_synonym json_map = "(string, json) hmap"

fun as_str :: "json \<Rightarrow> string option" where
  "as_str (JString s) = Some s"
| "as_str _ = None"

fun as_array :: "json \<Rightarrow> json list option" where
  "as_array (JArray a) = Some a"
| "as_array _ = None"

text \<open>\<^verbatim>\<open>Value::get\<close> with a string index: the member of an object, \<^verbatim>\<open>None\<close> on anything else.\<close>

fun json_get :: "json \<Rightarrow> string \<Rightarrow> json option" where
  "json_get (JObject m) k = hm_get m k"
| "json_get _ _ = None"

text \<open>Indexing a value: \<^verbatim>\<open>Null\<close> where there is no such member.\<close>

definition json_index :: "json \<Rightarrow> string \<Rightarrow> json" where
  "json_index j k = (case json_get j k of Some v \<Rightarrow> v | None \<Rightarrow> JNull)"

definition json_uint :: "nat \<Rightarrow> json" where
  "json_uint n = JNumber (PosInt (word_of_nat n))"

subsection \<open>Removing a key\<close>

fun key_index :: "'k \<Rightarrow> ('k \<times> 'v) list \<Rightarrow> nat option" where
  "key_index k [] = None"
| "key_index k (x # xs) = (if fst x = k then Some 0 else map_option Suc (key_index k xs))"

definition swap_remove :: "nat \<Rightarrow> 'a list \<Rightarrow> 'a list" where
  "swap_remove i xs = (if i + 1 = length xs then butlast xs else (butlast xs)[i := last xs])"

definition map_remove :: "'k \<Rightarrow> ('k, 'v) hmap \<Rightarrow> ('k, 'v) hmap" where
  "map_remove k m = (case key_index k m of None \<Rightarrow> m | Some i \<Rightarrow> swap_remove i m)"

lemma key_index_Some:
  "key_index k m = Some i \<Longrightarrow> i < length m \<and> fst (m ! i) = k"
  by (induction m arbitrary: i) (auto split: if_splits)

lemma key_index_None [simp]: "key_index k m = None \<longleftrightarrow> k \<notin> fst ` set m"
  by (induction m) auto

lemma swap_remove_mset:
  assumes "i < length xs"
  shows "mset (swap_remove i xs) = mset xs - {# xs ! i #}"
proof (cases "i + 1 = length xs")
  case True
  then obtain ys l where "xs = ys @ [l]" and "i = length ys"
    by (cases xs rule: rev_cases) auto
  then show ?thesis by (simp add: swap_remove_def)
next
  case False
  with assms obtain ys l where xs: "xs = ys @ [l]" and i: "i < length ys"
    by (cases xs rule: rev_cases) auto
  have "swap_remove i xs = ys[i := l]" using i by (simp add: xs swap_remove_def)
  moreover have "mset xs - {# xs ! i #} = add_mset l (mset ys) - {# ys ! i #}"
    using i by (simp add: xs nth_append)
  moreover have "add_mset l (mset ys) - {# ys ! i #} = add_mset l (mset ys - {# ys ! i #})"
    using i diff_union_single_conv[of "ys ! i" "mset ys" "{# l #}"] by simp
  ultimately show ?thesis using i by (simp only: mset_update)
qed

lemma map_remove_mset:
  assumes "hm_wf m" "hm_get m k = Some v"
  shows "mset m = add_mset (k, v) (mset (map_remove k m))"
proof -
  have kv: "(k, v) \<in> set m" using assms(2) by (simp add: hm_get_def map_of_SomeD)
  then obtain i where i: "key_index k m = Some i" by force
  from key_index_Some[OF i] assms have "m ! i = (k, v)"
    by (metis eq_key_imp_eq_value hm_wf_def kv nth_mem prod.collapse)
  with key_index_Some[OF i] kv show ?thesis
    by (simp add: map_remove_def i swap_remove_mset)
qed

lemma map_remove_absent: "hm_get m k = None \<Longrightarrow> map_remove k m = m"
proof -
  assume "hm_get m k = None"
  then have "key_index k m = None" by (simp add: hm_get_def map_of_eq_None_iff)
  then show ?thesis by (simp only: map_remove_def option.case)
qed

lemma map_remove_permutes:
  assumes "hm_wf m" "hm_get m k = Some v"
  shows "hm_wf ((k, v) # map_remove k m)" "map_of ((k, v) # map_remove k m) = map_of m"
proof -
  have mm: "mset m = mset ((k, v) # map_remove k m)"
    using map_remove_mset[OF assms] by simp
  then have "mset (map fst m) = mset (map fst ((k, v) # map_remove k m))"
    by (simp only: mset_map)
  from mset_eq_imp_distinct_iff[OF this] assms(1)
  show wf: "hm_wf ((k, v) # map_remove k m)" by (simp add: hm_wf_def)
  show "map_of ((k, v) # map_remove k m) = map_of m"
    using wf assms(1) mset_eq_setD[OF mm]
    by (intro map_of_inject_set[THEN iffD2]) (simp_all add: hm_wf_def)
qed

lemma hm_wf_map_remove [wf_intros]:
  assumes "hm_wf m" shows "hm_wf (map_remove k m)"
proof (cases "hm_get m k")
  case None
  with assms show ?thesis by (simp add: map_remove_absent)
next
  case (Some v)
  from map_remove_permutes(1)[OF assms Some] show ?thesis by (simp add: hm_wf_def)
qed

lemma hm_get_map_remove [maps]:
  assumes "hm_wf m" shows "hm_get (map_remove k m) = (hm_get m)(k := None)"
proof (cases "hm_get m k")
  case None
  then show ?thesis by (simp add: map_remove_absent fun_upd_idem)
next
  case (Some v)
  have "k \<notin> fst ` set (map_remove k m)"
    using map_remove_permutes(1)[OF assms Some] by (simp add: hm_wf_def)
  then have "map_of (map_remove k m) k = None" by (simp add: map_of_eq_None_iff)
  then show ?thesis
    using map_remove_permutes(2)[OF assms Some]
    by (auto simp: hm_get_def fun_eq_iff split: if_splits)
qed

interpretation jm: map_adt hm_get hm_insert map_remove hm_wf
  by unfold_locales (simp_all add: maps wf_intros)

subsection \<open>Well-formed values\<close>

text \<open>
  Every object in the tree has distinct keys, strings are UTF-8, and a \<open>NegInt\<close> is negative:
  what a parser of \<^verbatim>\<open>serde_json\<close> yields.
\<close>

fun json_wf :: "json \<Rightarrow> bool" where
  "json_wf (JNumber (NegInt w)) = (sint w < 0)"
| "json_wf (JString s) = utf8_ok s"
| "json_wf (JArray xs) = list_all json_wf xs"
| "json_wf (JObject m) = (hm_wf m \<and> list_all (\<lambda>kv. utf8_ok (fst kv) \<and> json_wf (snd kv)) m)"
| "json_wf _ = True"

end
