(* ===== verification/Sap_Event.thy ===== *)
theory Sap_Event
  imports Json_Value
begin

section \<open>SAP/1 events, canonical bytes, the hash chain and the device key (spnr-proto)\<close>

text \<open>
  The event structure of event.rs with its serde attributes, \<^verbatim>\<open>canonical_bytes\<close>, \<^verbatim>\<open>chain_next\<close> and
  the operations of \<^verbatim>\<open>DeviceKey\<close>. Ed25519, BLAKE3, JCS, hex and base32 are crates outside the
  repository: they are the fields of a \<open>crypto\<close> record every definition takes as an argument, and
  what is relied on of them is stated in the named predicates \<open>ed25519_ok\<close>, \<open>hex_ok\<close> and \<open>jcs_ok\<close>.
  \<open>demo_crypto\<close> is an instance of all of them.
\<close>

definition GENESIS_PREV :: string where
  "GENESIS_PREV = ''b3:0000000000000000000000000000000000000000000000000000000000000000''"

datatype event_type = Imp | ClickHint | SessionStart | SessionEnd | HeartbeatSummary | Gap

text \<open>The serde names of the closed enum.\<close>

fun event_type_name :: "event_type \<Rightarrow> string" where
  "event_type_name Imp = ''imp''"
| "event_type_name ClickHint = ''click_hint''"
| "event_type_name SessionStart = ''session_start''"
| "event_type_name SessionEnd = ''session_end''"
| "event_type_name HeartbeatSummary = ''heartbeat_summary''"
| "event_type_name Gap = ''gap''"

record event =
  ev_v :: "8 word"
  ev_id :: string
  ev_ctr :: u64
  ev_prev :: string
  ev_t :: i64
  ev_ty :: event_type
  ev_session :: string
  ev_creative :: "string option"
  ev_n :: "u32 option"

text \<open>The derived \<^verbatim>\<open>Serialize\<close>: declaration order, \<^verbatim>\<open>type\<close> renamed, absent options omitted.\<close>

definition json_i64 :: "i64 \<Rightarrow> json" where
  "json_i64 w = JNumber (if sint w < 0 then NegInt w else PosInt w)"

definition event_json :: "event \<Rightarrow> json" where
  "event_json e = JObject
     ([(''v'', JNumber (PosInt (ucast (ev_v e)))),
       (''id'', JString (ev_id e)),
       (''ctr'', JNumber (PosInt (ev_ctr e))),
       (''prev'', JString (ev_prev e)),
       (''t'', json_i64 (ev_t e)),
       (''type'', JString (event_type_name (ev_ty e))),
       (''session'', JString (ev_session e))]
      @ (case ev_creative e of None \<Rightarrow> [] | Some c \<Rightarrow> [(''creative'', JString c)])
      @ (case ev_n e of None \<Rightarrow> [] | Some n \<Rightarrow> [(''n'', JNumber (PosInt (ucast n)))]))"

subsection \<open>The outside functions\<close>

record crypto =
  key_of_seed :: "bytes \<Rightarrow> bytes"
  sign_bytes :: "bytes \<Rightarrow> bytes \<Rightarrow> bytes"
  verify_bytes :: "bytes \<Rightarrow> bytes \<Rightarrow> bytes \<Rightarrow> bool"
  key_valid :: "bytes \<Rightarrow> bool"
  blake3 :: "bytes \<Rightarrow> bytes"
  hex_encode :: "bytes \<Rightarrow> string"
  hex_decode :: "string \<Rightarrow> bytes option"
  base32 :: "bytes \<Rightarrow> string"
  jcs :: "json \<Rightarrow> bytes option"

definition canonical_bytes :: "crypto \<Rightarrow> event \<Rightarrow> bytes" where
  "canonical_bytes C e = (case jcs C (event_json e) of Some b \<Rightarrow> b | None \<Rightarrow> [])"

definition chain_next :: "crypto \<Rightarrow> bytes \<Rightarrow> string" where
  "chain_next C prev_canonical = ''b3:'' @ hex_encode C (blake3 C prev_canonical)"

subsection \<open>The device key\<close>

record device_key = signing :: bytes

definition key_generate :: "bytes \<Rightarrow> device_key" where
  "key_generate csprng = \<lparr>signing = take 32 csprng\<rparr>"

definition from_seed :: "bytes \<Rightarrow> device_key" where
  "from_seed seed = \<lparr>signing = seed\<rparr>"

definition to_seed :: "device_key \<Rightarrow> bytes" where
  "to_seed k = signing k"

definition verifying_key :: "crypto \<Rightarrow> device_key \<Rightarrow> bytes" where
  "verifying_key C k = key_of_seed C (signing k)"

definition key_sign :: "crypto \<Rightarrow> device_key \<Rightarrow> event \<Rightarrow> bytes" where
  "key_sign C k e = sign_bytes C (signing k) (canonical_bytes C e)"

text \<open>\<^verbatim>\<open>Signature::from_slice\<close> fails exactly when the slice is not 64 bytes long.\<close>

definition key_verify :: "crypto \<Rightarrow> event \<Rightarrow> bytes \<Rightarrow> bytes \<Rightarrow> bool" where
  "key_verify C e sig vk =
     (if length sig \<noteq> 64 then False else verify_bytes C vk (canonical_bytes C e) sig)"

text \<open>\<^verbatim>\<open>to_lowercase\<close> on the base32 alphabet, which is ASCII.\<close>

definition lower_char :: "char \<Rightarrow> char" where
  "lower_char c = (if 65 \<le> byte_val c \<and> byte_val c \<le> 90 then byte_of (byte_val c + 32) else c)"

definition device_id :: "crypto \<Rightarrow> device_key \<Rightarrow> string" where
  "device_id C k = map lower_char (base32 C (take 10 (verifying_key C k)))"

subsection \<open>What is relied on\<close>

definition ed25519_ok :: "crypto \<Rightarrow> bool" where
  "ed25519_ok C \<longleftrightarrow>
     (\<forall>seed. length (key_of_seed C seed) = 32 \<and> key_valid C (key_of_seed C seed))
   \<and> (\<forall>seed m. length (sign_bytes C seed m) = 64
              \<and> verify_bytes C (key_of_seed C seed) m (sign_bytes C seed m))"

definition hex_ok :: "crypto \<Rightarrow> bool" where
  "hex_ok C \<longleftrightarrow> (\<forall>b. hex_decode C (hex_encode C b) = Some b)"

text \<open>
  Events whose strings are UTF-8 (as every \<^verbatim>\<open>String\<close> is) and whose numbers are integers of JCS: RFC
  8785 writes a number as a double, and up to 2^53 each integer is one of its own.
\<close>

definition event_safe :: "event \<Rightarrow> bool" where
  "event_safe e \<longleftrightarrow> utf8_ok (ev_id e) \<and> utf8_ok (ev_prev e) \<and> utf8_ok (ev_session e)
     \<and> pred_option utf8_ok (ev_creative e) \<and> unat (ev_ctr e) \<le> 2 ^ 53 \<and> \<bar>sint (ev_t e)\<bar> \<le> 2 ^ 53"

text \<open>JCS represents every such event, and distinct ones by distinct bytes.\<close>

definition jcs_ok :: "crypto \<Rightarrow> bool" where
  "jcs_ok C \<longleftrightarrow> (\<forall>e. event_safe e \<longrightarrow> jcs C (event_json e) \<noteq> None)
     \<and> (\<forall>e e'. event_safe e \<longrightarrow> event_safe e' \<longrightarrow> jcs C (event_json e) = jcs C (event_json e') \<longrightarrow>
          event_json e = event_json e')"

lemmas crypto_ok_defs = ed25519_ok_def hex_ok_def jcs_ok_def

subsection \<open>Serialisation keeps every field\<close>

lemma event_type_name_inject [simp]: "event_type_name x = event_type_name y \<longleftrightarrow> x = y"
  by (cases x; cases y) simp_all

lemma json_i64_inject [simp]: "json_i64 x = json_i64 y \<longleftrightarrow> x = y"
  by (auto simp: json_i64_def split: if_splits)

lemma ucast_u8_inject [simp]: "(ucast (a :: 8 word) :: u64) = ucast b \<longleftrightarrow> a = b"
proof -
  have "ucast (ucast c :: u64) = c" for c :: "8 word"
    by (rule ucast_up_ucast_id) (simp add: is_up)
  then show ?thesis by metis
qed

lemma ucast_u32_inject [simp]: "(ucast (a :: u32) :: u64) = ucast b \<longleftrightarrow> a = b"
proof -
  have "ucast (ucast c :: u64) = c" for c :: u32
    by (rule ucast_up_ucast_id) (simp add: is_up)
  then show ?thesis by metis
qed

lemma event_json_inject [simp]: "event_json e = event_json e' \<longleftrightarrow> e = e'"
proof
  assume "event_json e = event_json e'"
  then show "e = e'"
    by (cases e; cases e') (auto simp: event_json_def split: option.splits)
qed simp

lemma canonical_bytes_inject:
  assumes "jcs_ok C" "event_safe e" "event_safe e'"
  shows "canonical_bytes C e = canonical_bytes C e' \<longleftrightarrow> e = e'"
proof
  assume "canonical_bytes C e = canonical_bytes C e'"
  moreover obtain b b' where "jcs C (event_json e) = Some b" "jcs C (event_json e') = Some b'"
    using assms by (meson jcs_ok_def not_None_eq)
  ultimately have "jcs C (event_json e) = jcs C (event_json e')"
    by (simp add: canonical_bytes_def)
  then have "event_json e = event_json e'" using assms by (simp add: jcs_ok_def)
  then show "e = e'" by simp
qed simp

lemma key_sign_verifies:
  "ed25519_ok C \<Longrightarrow> key_verify C e (key_sign C k e) (verifying_key C k)"
  by (simp add: ed25519_ok_def key_verify_def key_sign_def verifying_key_def)

lemma hex_encode_inject: "hex_ok C \<Longrightarrow> hex_encode C a = hex_encode C b \<longleftrightarrow> a = b"
  by (metis hex_ok_def option.inject)

lemma chain_next_eq:
  "hex_ok C \<Longrightarrow> chain_next C a = chain_next C b \<longleftrightarrow> blake3 C a = blake3 C b"
  by (simp add: chain_next_def hex_encode_inject)

subsection \<open>Linked sequences of events\<close>

text \<open>
  The shape both ends of the protocol maintain: each event carries the digest of the one before
  it and the next counter.
\<close>

fun linked :: "crypto \<Rightarrow> string \<Rightarrow> u64 \<Rightarrow> event list \<Rightarrow> bool" where
  "linked C p c [] = True"
| "linked C p c (e # es) =
     (ev_prev e = p \<and> ev_ctr e = c \<and> linked C (chain_next C (canonical_bytes C e)) (c + 1) es)"

fun chain_end :: "crypto \<Rightarrow> string \<Rightarrow> event list \<Rightarrow> string" where
  "chain_end C p [] = p"
| "chain_end C p (e # es) = chain_end C (chain_next C (canonical_bytes C e)) es"

lemma linked_append:
  "linked C p c (es @ fs) \<longleftrightarrow>
     linked C p c es \<and> linked C (chain_end C p es) (c + of_nat (length es)) fs"
  by (induction es arbitrary: p c) (simp_all add: add.assoc)

lemma chain_end_append: "chain_end C p (es @ fs) = chain_end C (chain_end C p es) fs"
  by (induction es arbitrary: p) simp_all

lemma linked_snoc:
  "linked C p c (es @ [e]) \<longleftrightarrow>
     linked C p c es \<and> ev_prev e = chain_end C p es \<and> ev_ctr e = c + of_nat (length es)"
  by (simp add: linked_append)

lemma chain_end_snoc: "chain_end C p (es @ [e]) = chain_next C (canonical_bytes C e)"
  by (simp add: chain_end_append)

lemma linked_ctr:
  "linked C p c es \<Longrightarrow> i < length es \<Longrightarrow> ev_ctr (es ! i) = c + of_nat i"
  by (induction es arbitrary: p c i) (auto simp: nth_Cons' add.assoc of_nat_diff)

subsection \<open>An instance of the outside functions\<close>

text \<open>
  Toy primitives with the stated laws, on which the witnesses evaluate: a signature is the padded
  key and message, a digest the first 32 bytes, and JCS a prefix code of the members of an object.
\<close>

definition pad :: "nat \<Rightarrow> bytes \<Rightarrow> bytes" where
  "pad k b = take k (b @ replicate k CHR ''0'')"

fun code_str :: "string \<Rightarrow> bytes" where
  "code_str [] = ''.''"
| "code_str (c # cs) = CHR ''c'' # c # code_str cs"

fun code_scalar :: "json \<Rightarrow> bytes" where
  "code_scalar (JString s) = CHR ''s'' # code_str s"
| "code_scalar (JNumber (PosInt w)) = CHR ''p'' # code_str (show_nat (unat w))"
| "code_scalar (JNumber (NegInt w)) = CHR ''n'' # code_str (show_nat (unat w))"
| "code_scalar _ = ''z''"

fun code_members :: "(string \<times> json) list \<Rightarrow> bytes" where
  "code_members [] = ''.''"
| "code_members ((k, v) # m) = CHR ''m'' # code_str k @ code_scalar v @ code_members m"

fun demo_jcs :: "json \<Rightarrow> bytes option" where
  "demo_jcs (JObject m) = Some (code_members m)"
| "demo_jcs _ = None"

fun demo_hex :: "bytes \<Rightarrow> string" where
  "demo_hex [] = []"
| "demo_hex (c # cs) = ''0123456789abcdef'' ! (byte_val c div 16)
     # ''0123456789abcdef'' ! (byte_val c mod 16) # demo_hex cs"

fun hex_digit :: "char \<Rightarrow> nat option" where
  "hex_digit c = key_index c (map (\<lambda>x. (x, ())) ''0123456789abcdef'')"

fun demo_unhex :: "string \<Rightarrow> bytes option" where
  "demo_unhex [] = Some []"
| "demo_unhex (a # b # cs) = (case (hex_digit a, hex_digit b, demo_unhex cs) of
     (Some x, Some y, Some r) \<Rightarrow> Some (byte_of (x * 16 + y) # r) | _ \<Rightarrow> None)"
| "demo_unhex _ = None"

definition demo_crypto :: crypto where
  "demo_crypto = \<lparr>key_of_seed = pad 32, sign_bytes = (\<lambda>seed m. pad 64 (pad 32 seed @ m)),
     verify_bytes = (\<lambda>vk m sig. sig = pad 64 (vk @ m)), key_valid = (\<lambda>k. length k = 32),
     blake3 = pad 32, hex_encode = demo_hex, hex_decode = demo_unhex, base32 = take 16,
     jcs = demo_jcs\<rparr>"

lemma length_pad [simp]: "length (pad k b) = k"
  by (simp add: pad_def)

lemma code_str_prefix_free: "code_str s @ r = code_str t @ r' \<longleftrightarrow> s = t \<and> r = r'"
proof (induction s arbitrary: t)
  case Nil
  then show ?case by (cases t) auto
next
  case (Cons c cs)
  then show ?case by (cases t) auto
qed

definition scalar :: "json \<Rightarrow> bool" where
  "scalar j = (case j of JString _ \<Rightarrow> True | JNumber (PosInt _) \<Rightarrow> True | JNumber (NegInt _) \<Rightarrow> True
     | _ \<Rightarrow> False)"

lemma code_scalar_prefix_free:
  assumes "scalar v" "scalar w"
  shows "code_scalar v @ r = code_scalar w @ r' \<longleftrightarrow> v = w \<and> r = r'"
proof -
  have c: "(\<exists>s. x = JString s) \<or> (\<exists>a. x = JNumber (PosInt a)) \<or> (\<exists>a. x = JNumber (NegInt a))"
    if "scalar x" for x
    using that by (cases x) (auto simp: scalar_def split: json_number.splits)
  from c[OF assms(1)] c[OF assms(2)] show ?thesis
    by (elim disjE exE) (simp_all add: code_str_prefix_free word_unat_eq_iff del: show_nat.simps)
qed

lemma code_members_inject:
  "list_all (\<lambda>kv. scalar (snd kv)) m \<Longrightarrow> list_all (\<lambda>kv. scalar (snd kv)) m' \<Longrightarrow>
     code_members m = code_members m' \<Longrightarrow> m = m'"
proof (induction m arbitrary: m' rule: code_members.induct)
  case 1
  then show ?case by (cases m' rule: code_members.cases) auto
next
  case (2 k v m)
  show ?case
  proof (cases m' rule: code_members.cases)
    case 1
    with "2.prems" show ?thesis by simp
  next
    case (2 k' v' n)
    have sc: "scalar v" "scalar v'" using "2.prems" \<open>m' = (k', v') # n\<close> by simp_all
    have "code_str k @ code_scalar v @ code_members m = code_str k' @ code_scalar v' @ code_members n"
      using "2.prems"(3) \<open>m' = (k', v') # n\<close> by (simp del: code_scalar.simps)
    then have "k = k' \<and> v = v' \<and> code_members m = code_members n"
      by (simp only: code_str_prefix_free code_scalar_prefix_free[OF sc])
    then show ?thesis using "2.IH"[of n] "2.prems" \<open>m' = (k', v') # n\<close> by simp
  qed
qed

lemma event_members_scalar:
  "\<exists>m. event_json e = JObject m \<and> list_all (\<lambda>kv. scalar (snd kv)) m"
  by (auto simp: event_json_def json_i64_def scalar_def split: option.splits)

lemma hex_digit_nth: "n < 16 \<Longrightarrow> hex_digit (''0123456789abcdef'' ! n) = Some n"
proof -
  assume "n < 16"
  then have "n \<in> set [0..<16]" by simp
  moreover have "list_all (\<lambda>n. hex_digit (''0123456789abcdef'' ! n) = Some n) [0..<16]" by code_simp
  ultimately show ?thesis by (simp add: list_all_iff del: hex_digit.simps)
qed

lemma demo_unhex_hex: "demo_unhex (demo_hex b) = Some b"
proof (induction b)
  case (Cons c cs)
  have lt: "byte_val c div 16 < 16" "byte_val c mod 16 < 16"
    using byte_val_less[of c] by (simp_all add: less_mult_imp_div_less)
  from Cons hex_digit_nth[OF lt(1)] hex_digit_nth[OF lt(2)]
  show ?case by (simp del: hex_digit.simps)
qed simp

lemma demo_crypto_ok [simp]:
  "ed25519_ok demo_crypto" "hex_ok demo_crypto" "jcs_ok demo_crypto"
proof -
  show "ed25519_ok demo_crypto" by (simp add: ed25519_ok_def demo_crypto_def)
  show "hex_ok demo_crypto" by (simp add: hex_ok_def demo_crypto_def demo_unhex_hex)
  have "event_json e = event_json e'" if "demo_jcs (event_json e) = demo_jcs (event_json e')" for e e'
    using that event_members_scalar[of e] event_members_scalar[of e'] code_members_inject by fastforce
  moreover have "demo_jcs (event_json e) \<noteq> None" for e
    using event_members_scalar[of e] by auto
  ultimately show "jcs_ok demo_crypto" by (simp add: jcs_ok_def demo_crypto_def)
qed

subsection \<open>Histories are bound by their chain head\<close>

text \<open>Two events with different canonical bytes and the same digest.\<close>

definition collides :: "crypto \<Rightarrow> event \<Rightarrow> event \<Rightarrow> bool" where
  "collides C x y \<longleftrightarrow> canonical_bytes C x \<noteq> canonical_bytes C y
     \<and> blake3 C (canonical_bytes C x) = blake3 C (canonical_bytes C y)"

text \<open>An event whose digest is the value a history starts from.\<close>

definition hits_start :: "crypto \<Rightarrow> string \<Rightarrow> event \<Rightarrow> bool" where
  "hits_start C p x \<longleftrightarrow> chain_next C (canonical_bytes C x) = p"

lemma chain_binds:
  assumes "hex_ok C" "jcs_ok C"
  shows "list_all event_safe es \<Longrightarrow> list_all event_safe es' \<Longrightarrow> linked C p c es \<Longrightarrow> linked C p c es' \<Longrightarrow>
     chain_end C p es = chain_end C p es' \<Longrightarrow> \<forall>x \<in> set es \<union> set es'. \<not> hits_start C p x \<Longrightarrow>
     \<forall>x \<in> set es. \<forall>y \<in> set es'. \<not> collides C x y \<Longrightarrow> es = es'"
proof (induction es arbitrary: es' rule: rev_induct)
  case Nil
  then show ?case by (cases es' rule: rev_cases) (auto simp: chain_end_snoc hits_start_def)
next
  case (snoc e es)
  show ?case
  proof (cases es' rule: rev_cases)
    case Nil
    with snoc.prems(5,6) show ?thesis by (auto simp: chain_end_snoc hits_start_def)
  next
    case (snoc fs f)
    note es' = snoc
    have "blake3 C (canonical_bytes C e) = blake3 C (canonical_bytes C f)"
      using snoc.prems(5) by (simp add: es' chain_end_snoc chain_next_eq[OF assms(1)])
    moreover have "\<not> collides C e f" using snoc.prems(7) by (simp add: es')
    ultimately have ef: "e = f"
      using canonical_bytes_inject[OF assms(2), of e f] snoc.prems(1,2) by (simp add: collides_def es')
    have "es = fs"
      by (rule snoc.IH) (use snoc.prems ef in \<open>auto simp: es' linked_snoc\<close>)
    with ef show ?thesis by (simp add: es')
  qed
qed

text \<open>
  The wire object of an event is closed: its keys are distinct and among the nine of the
  protocol, the optional ones are present exactly when set, and no two events share an object.
\<close>

lemma event_wire_closed:
  "(\<exists>m. event_json e = JObject m \<and> hm_wf m
     \<and> fst ` set m \<subseteq> {''v'', ''id'', ''ctr'', ''prev'', ''t'', ''type'', ''session'', ''creative'', ''n''}
     \<and> (''creative'' \<in> fst ` set m \<longleftrightarrow> ev_creative e \<noteq> None)
     \<and> (''n'' \<in> fst ` set m \<longleftrightarrow> ev_n e \<noteq> None))
   \<and> (event_json e = event_json e' \<longleftrightarrow> e = e')"
  by (auto simp: event_json_def hm_wf_def split: option.splits)

text \<open>
  What a device signs, the server's check accepts under that device's key, given Ed25519's
  correctness.
\<close>

lemma sign_then_verify:
  assumes "ed25519_ok C"
  shows "key_verify C e (key_sign C k e) (verifying_key C k)"
  using assms by (rule key_sign_verifies)

definition demo_event :: event where
  "demo_event = \<lparr>ev_v = 1, ev_id = ''01J'', ev_ctr = 0, ev_prev = GENESIS_PREV, ev_t = 30,
     ev_ty = Imp, ev_session = ''s:abc'', ev_creative = Some ''cr'', ev_n = Some 6\<rparr>"

lemma sign_then_verify_witness:
  "key_verify demo_crypto demo_event (key_sign demo_crypto (from_seed ''k'') demo_event)
     (verifying_key demo_crypto (from_seed ''k''))"
  by (rule sign_then_verify) simp

text \<open>
  C22: the chain head binds the history. Two linked histories from the same start, of any lengths,
  with numbers up to 2^53, that end in the same head are the same events; or BLAKE3 collides on an
  event of the one and an event of the other, or an event hashes to the value they start from.
\<close>

theorem chain_binds_history:
  assumes "hex_ok C" "jcs_ok C" "list_all event_safe es" "list_all event_safe es'"
    and "linked C p c es" "linked C p c es'" "chain_end C p es = chain_end C p es'"
  shows "es = es' \<or> (\<exists>x \<in> set es. \<exists>y \<in> set es'. collides C x y) \<or> (\<exists>x \<in> set es \<union> set es'. hits_start C p x)"
  using chain_binds[OF assms] by blast

text \<open>
  The digest of \<^const>\<open>demo_crypto\<close> is the first 32 bytes: two events that differ only in what they
  count have the same head, and the theorem finds the collision.
\<close>

lemma chain_binds_history_witness:
  "collides demo_crypto demo_event (demo_event\<lparr>ev_n := Some 7\<rparr>)"
proof -
  let ?e = "demo_event\<lparr>ev_n := Some 7\<rparr>"
  have d: "blake3 demo_crypto (canonical_bytes demo_crypto demo_event) = blake3 demo_crypto (canonical_bytes demo_crypto ?e)"
    "\<not> hits_start demo_crypto GENESIS_PREV demo_event" "\<not> hits_start demo_crypto GENESIS_PREV ?e"
    by code_simp+
  have s: "list_all event_safe [demo_event]" "list_all event_safe [?e]"
    by (simp_all add: event_safe_def demo_event_def GENESIS_PREV_def ascii_utf8_ok byte_val_def)
  have "chain_end demo_crypto GENESIS_PREV [demo_event] = chain_end demo_crypto GENESIS_PREV [?e]"
    using d(1) by (simp add: chain_next_def)
  from chain_binds_history[OF demo_crypto_ok(2,3) s _ _ this, of 0] d(2,3) show ?thesis
    by (simp add: demo_event_def)
qed

end
