(* ===== verification/Store.thy ===== *)
theory Store
  imports Sap_Event "HOL-Library.List_Lexorder" "HOL-Library.Char_ord"
begin

section \<open>The durable store (spnr-server, db.rs)\<close>

text \<open>
  The SQLite tables as association lists and rows in insertion order, one definition per SQL
  statement of db.rs, and \<^verbatim>\<open>load\<close>, which rebuilds the in-memory view from them. A connection carries
  the faults to come: each statement consumes one, and a fault makes it fail without effect, as a
  disk error does. The write-through helpers log a failure and go on. Lemmas: what the helpers do
  to a healthy connection, table by table, and that loading inverts the write-through.
\<close>

subsection \<open>The records of main.rs that are stored\<close>

record device_rec =
  dv_pubkey :: bytes
  dv_account_id :: string
  dv_chain_head :: string
  dv_ctr_head :: "u64 option"

record ledger_entry =
  debit :: string
  credit :: string
  amount_micros :: i64
  kind :: string
  reference :: string

record redemption =
  rdm_id :: string
  rdm_amount :: i64
  rdm_rail :: string

record creative =
  cr_id :: string
  cr_text :: string
  cr_url :: string
  cr_short_code :: string
  cr_advertiser :: string
  cr_campaign_name :: string

record account =
  ac_id :: string
  ac_email :: string
  ac_password_phc :: string

record device_meta_row =
  dm_device_id :: string
  dm_ip :: "string option"
  dm_os :: "string option"
  dm_arch :: "string option"
  dm_hostname :: "string option"
  dm_version :: "string option"
  dm_email :: "string option"
  dm_first_seen :: i64
  dm_last_seen :: i64

record loaded_creative =
  lc_creative :: creative
  lc_active :: bool

subsection \<open>The connection\<close>

text \<open>The schema of \<^verbatim>\<open>init_schema\<close>: a table with a text primary key is keyed by it.\<close>

record conn =
  t_devices :: "(string, string \<times> string \<times> string \<times> i64 option) hmap"
  t_ledger :: "ledger_entry list"
  t_redemptions :: "(string, i64 \<times> string) hmap"
  t_seen :: "(string, unit) hmap"
  t_balances :: "(string, i64) hmap"
  t_impressions :: "(string, i64) hmap"
  t_kv :: "(string, i64) hmap"
  t_accounts :: "account list"
  t_sessions :: "(string, string \<times> i64) hmap"
  t_creatives :: "(string, creative \<times> bool \<times> i64) hmap"
  t_device_meta :: "(string, device_meta_row) hmap"
  faults :: "bool list"

definition empty_conn :: conn where
  "empty_conn = \<lparr>t_devices = [], t_ledger = [], t_redemptions = [], t_seen = [], t_balances = [],
     t_impressions = [], t_kv = [], t_accounts = [], t_sessions = [], t_creatives = [],
     t_device_meta = [], faults = []\<rparr>"

datatype sql_error = ConstraintViolation | OtherError

text \<open>A statement either fails (a fault, a constraint) or takes its effect.\<close>

definition execute :: "(conn \<Rightarrow> sql_error + conn) \<Rightarrow> conn \<Rightarrow> (sql_error + unit) \<times> conn" where
  "execute stmt c =
     (case faults c of
        True # fs \<Rightarrow> (Inl OtherError, c\<lparr>faults := fs\<rparr>)
      | fs \<Rightarrow>
          (let c1 = c\<lparr>faults := tl fs\<rparr>
           in (case stmt c1 of Inl e \<Rightarrow> (Inl e, c1) | Inr c2 \<Rightarrow> (Inr (), c2))))"

definition query :: "(conn \<Rightarrow> 'a) \<Rightarrow> conn \<Rightarrow> (sql_error + 'a) \<times> conn" where
  "query q c =
     (case faults c of
        True # fs \<Rightarrow> (Inl OtherError, c\<lparr>faults := fs\<rparr>)
      | fs \<Rightarrow> (let c1 = c\<lparr>faults := tl fs\<rparr> in (Inr (q c1), c1)))"

text \<open>\<^verbatim>\<open>log_err\<close>: the error is printed and dropped.\<close>

definition log_err :: "(sql_error + unit) \<times> conn \<Rightarrow> conn" where
  "log_err r = snd r"

subsection \<open>Accounts and sessions\<close>

definition insert_account :: "string \<Rightarrow> string \<Rightarrow> string \<Rightarrow> conn \<Rightarrow> (sql_error + unit) \<times> conn" where
  "insert_account account_id email phc = execute (\<lambda>c.
     if list_ex (\<lambda>a. ac_id a = account_id \<or> ac_email a = email) (t_accounts c)
     then Inl ConstraintViolation
     else Inr (c\<lparr>t_accounts := t_accounts c @
            [\<lparr>ac_id = account_id, ac_email = email, ac_password_phc = phc\<rparr>]\<rparr>))"

definition find_account_by_email :: "string \<Rightarrow> conn \<Rightarrow> (sql_error + account option) \<times> conn" where
  "find_account_by_email email = query (\<lambda>c. find (\<lambda>a. ac_email a = email) (t_accounts c))"

definition find_account_by_id :: "string \<Rightarrow> conn \<Rightarrow> (sql_error + account option) \<times> conn" where
  "find_account_by_id account_id = query (\<lambda>c. find (\<lambda>a. ac_id a = account_id) (t_accounts c))"

definition insert_session :: "string \<Rightarrow> string \<Rightarrow> i64 \<Rightarrow> conn \<Rightarrow> (sql_error + unit) \<times> conn" where
  "insert_session token account_id created = execute (\<lambda>c.
     case hm_get (t_sessions c) token of
       Some _ \<Rightarrow> Inl ConstraintViolation
     | None \<Rightarrow> Inr (c\<lparr>t_sessions := hm_insert token (account_id, created) (t_sessions c)\<rparr>))"

definition find_session :: "string \<Rightarrow> conn \<Rightarrow> (sql_error + string option) \<times> conn" where
  "find_session token = query (\<lambda>c. map_option fst (hm_get (t_sessions c) token))"

definition delete_session :: "string \<Rightarrow> conn \<Rightarrow> (sql_error + unit) \<times> conn" where
  "delete_session token = execute (\<lambda>c. Inr (c\<lparr>t_sessions := hm_remove token (t_sessions c)\<rparr>))"

subsection \<open>Write-through\<close>

definition kv_get :: "string \<Rightarrow> conn \<Rightarrow> (sql_error + i64) \<times> conn" where
  "kv_get key = query (\<lambda>c. hm_get_or 0 (t_kv c) key)"

definition kv_set :: "string \<Rightarrow> i64 \<Rightarrow> conn \<Rightarrow> conn" where
  "kv_set key value_of c = log_err (execute (\<lambda>c. Inr (c\<lparr>t_kv := hm_insert key value_of (t_kv c)\<rparr>)) c)"

definition upsert_device :: "crypto \<Rightarrow> string \<Rightarrow> device_rec \<Rightarrow> conn \<Rightarrow> conn" where
  "upsert_device C device dev c = log_err (execute (\<lambda>c. Inr (c\<lparr>t_devices :=
      hm_insert device (hex_encode C (dv_pubkey dev), dv_account_id dev, dv_chain_head dev,
        dv_ctr_head dev) (t_devices c)\<rparr>)) c)"

definition update_device_head :: "string \<Rightarrow> string \<Rightarrow> u64 option \<Rightarrow> conn \<Rightarrow> conn" where
  "update_device_head device head ctr c = log_err (execute (\<lambda>c. Inr (c\<lparr>t_devices :=
      hm_modify device (\<lambda>(hex, acct, _, _). (hex, acct, head, ctr)) (t_devices c)\<rparr>)) c)"

definition ensure_balance :: "string \<Rightarrow> conn \<Rightarrow> conn" where
  "ensure_balance acct c =
     log_err (execute (\<lambda>c. Inr (c\<lparr>t_balances := hm_or_insert acct 0 (t_balances c)\<rparr>)) c)"

definition ensure_impressions :: "string \<Rightarrow> conn \<Rightarrow> conn" where
  "ensure_impressions acct c =
     log_err (execute (\<lambda>c. Inr (c\<lparr>t_impressions := hm_or_insert acct 0 (t_impressions c)\<rparr>)) c)"

definition set_balance :: "string \<Rightarrow> i64 \<Rightarrow> conn \<Rightarrow> conn" where
  "set_balance acct micros c =
     log_err (execute (\<lambda>c. Inr (c\<lparr>t_balances := hm_insert acct micros (t_balances c)\<rparr>)) c)"

definition set_impressions :: "string \<Rightarrow> u64 \<Rightarrow> conn \<Rightarrow> conn" where
  "set_impressions acct n c =
     log_err (execute (\<lambda>c. Inr (c\<lparr>t_impressions := hm_insert acct n (t_impressions c)\<rparr>)) c)"

definition insert_ledger :: "ledger_entry \<Rightarrow> conn \<Rightarrow> conn" where
  "insert_ledger e c = log_err (execute (\<lambda>c. Inr (c\<lparr>t_ledger := t_ledger c @ [e]\<rparr>)) c)"

definition insert_seen_event :: "string \<Rightarrow> conn \<Rightarrow> conn" where
  "insert_seen_event event_id c =
     log_err (execute (\<lambda>c. Inr (c\<lparr>t_seen := hm_or_insert event_id () (t_seen c)\<rparr>)) c)"

definition insert_redemption :: "redemption \<Rightarrow> conn \<Rightarrow> conn" where
  "insert_redemption r c = log_err (execute (\<lambda>c.
     case hm_get (t_redemptions c) (rdm_id r) of
       Some _ \<Rightarrow> Inl ConstraintViolation
     | None \<Rightarrow> Inr (c\<lparr>t_redemptions := hm_insert (rdm_id r) (rdm_amount r, rdm_rail r) (t_redemptions c)\<rparr>)) c)"

subsection \<open>Creatives and device telemetry\<close>

text \<open>On a conflict every column but the id and \<^verbatim>\<open>created_unix\<close> is overwritten.\<close>

definition insert_creative :: "creative \<Rightarrow> bool \<Rightarrow> i64 \<Rightarrow> conn \<Rightarrow> conn" where
  "insert_creative cr active created c = log_err (execute (\<lambda>c. Inr (c\<lparr>t_creatives :=
     (case hm_get (t_creatives c) (cr_id cr) of
        None \<Rightarrow> hm_insert (cr_id cr) (cr, active, created) (t_creatives c)
      | Some (_, _, created0) \<Rightarrow> hm_insert (cr_id cr) (cr, active, created0) (t_creatives c))\<rparr>)) c)"

text \<open>The number of rows updated: one when the creative is there and active; none on an error.\<close>

definition delete_creative :: "string \<Rightarrow> conn \<Rightarrow> nat \<times> conn" where
  "delete_creative cid c =
     (let hit = (case hm_get (t_creatives c) cid of Some (_, active, _) \<Rightarrow> active | None \<Rightarrow> False)
      in (case execute (\<lambda>c. Inr (c\<lparr>t_creatives :=
              (if hit then hm_modify cid (\<lambda>(cr, _, created). (cr, False, created)) (t_creatives c)
               else t_creatives c)\<rparr>)) c of
            (Inl _, c') \<Rightarrow> (0, c')
          | (Inr _, c') \<Rightarrow> (if hit then 1 else 0, c')))"

text \<open>\<^verbatim>\<open>ORDER BY created_unix, id\<close>: a stable sort by the second key, then by the first.\<close>

definition load_creatives :: "conn \<Rightarrow> (sql_error + loaded_creative list) \<times> conn" where
  "load_creatives = query (\<lambda>c.
     map (\<lambda>(_, cr, active, _). \<lparr>lc_creative = cr, lc_active = active\<rparr>)
       (sort_key (\<lambda>(_, _, _, created). sint created) (sort_key fst (t_creatives c))))"

definition coalesce :: "'a option \<Rightarrow> 'a option \<Rightarrow> 'a option" where
  "coalesce a b = (case a of Some x \<Rightarrow> Some x | None \<Rightarrow> b)"

definition upsert_device_meta :: "device_meta_row \<Rightarrow> conn \<Rightarrow> conn" where
  "upsert_device_meta row c = log_err (execute (\<lambda>c. Inr (c\<lparr>t_device_meta :=
     (case hm_get (t_device_meta c) (dm_device_id row) of
        None \<Rightarrow> hm_insert (dm_device_id row) row (t_device_meta c)
      | Some old \<Rightarrow> hm_insert (dm_device_id row)
          (row\<lparr>dm_ip := coalesce (dm_ip row) (dm_ip old),
               dm_os := coalesce (dm_os row) (dm_os old),
               dm_arch := coalesce (dm_arch row) (dm_arch old),
               dm_hostname := coalesce (dm_hostname row) (dm_hostname old),
               dm_version := coalesce (dm_version row) (dm_version old),
               dm_email := coalesce (dm_email row) (dm_email old),
               dm_first_seen := dm_first_seen old\<rparr>) (t_device_meta c))\<rparr>)) c)"

definition list_device_meta :: "conn \<Rightarrow> (sql_error + device_meta_row list) \<times> conn" where
  "list_device_meta = query (\<lambda>c.
     sort_key (\<lambda>r. - sint (dm_last_seen r)) (sort_key dm_device_id (map snd (t_device_meta c))))"

subsection \<open>Rebuilding the view\<close>

record loaded =
  ld_devices :: "(string, device_rec) hmap"
  ld_seen :: "string set"
  ld_ledger :: "ledger_entry list"
  ld_balances :: "(string, i64) hmap"
  ld_impressions :: "(string, u64) hmap"
  ld_clicks :: u64
  ld_accepted :: u64
  ld_rejected :: u64
  ld_redemptions :: "redemption list"
  ld_next :: u64

definition decode_pubkey :: "crypto \<Rightarrow> string \<Rightarrow> bytes option" where
  "decode_pubkey C hex =
     (case hex_decode C hex of
        None \<Rightarrow> None
      | Some b \<Rightarrow> if length b = 32 \<and> key_valid C b then Some b else None)"

definition bind_r :: "('e + 'a) \<times> 'c \<Rightarrow> ('a \<Rightarrow> 'c \<Rightarrow> ('e + 'b) \<times> 'c) \<Rightarrow> ('e + 'b) \<times> 'c" where
  "bind_r r k = (case r of (Inl e, c) \<Rightarrow> (Inl e, c) | (Inr x, c) \<Rightarrow> k x c)"

definition load_device :: "crypto \<Rightarrow> string \<times> string \<times> string \<times> string \<times> i64 option \<Rightarrow>
    (string, device_rec) hmap \<Rightarrow> (string, device_rec) hmap" where
  "load_device C row devs =
     (case row of (device, hex, acct, head, ctr) \<Rightarrow>
        (case decode_pubkey C hex of
           None \<Rightarrow> devs
         | Some pubkey \<Rightarrow> hm_insert device
             \<lparr>dv_pubkey = pubkey, dv_account_id = acct, dv_chain_head = head, dv_ctr_head = ctr\<rparr> devs))"

definition rdm_number :: "redemption \<Rightarrow> u64 option" where
  "rdm_number r = (case strip_prefix ''rdm_'' (rdm_id r) of None \<Rightarrow> None | Some s \<Rightarrow> parse_u64 s)"

definition load_redemptions :: "(string, i64 \<times> string) hmap \<Rightarrow> redemption list \<times> u64" where
  "load_redemptions rows =
     (let rs = map (\<lambda>(rid, amount, rail). \<lparr>rdm_id = rid, rdm_amount = amount, rdm_rail = rail\<rparr>) rows
      in (sort_key (\<lambda>r. case rdm_number r of Some n \<Rightarrow> n | None \<Rightarrow> - 1) rs,
          fold (\<lambda>r m. case rdm_number r of Some n \<Rightarrow> max m n | None \<Rightarrow> m) rs 0))"

definition load :: "crypto \<Rightarrow> conn \<Rightarrow> (sql_error + loaded) \<times> conn" where
  "load C c =
     bind_r (query t_devices c) (\<lambda>devs c.
     bind_r (query t_seen c) (\<lambda>seen c.
     bind_r (query t_ledger c) (\<lambda>ledger c.
     bind_r (query t_balances c) (\<lambda>bals c.
     bind_r (query t_impressions c) (\<lambda>imps c.
     bind_r (query t_redemptions c) (\<lambda>rdms c.
     bind_r (kv_get ''clicks'' c) (\<lambda>clicks c.
     bind_r (kv_get ''accepted'' c) (\<lambda>accepted c.
     bind_r (kv_get ''rejected'' c) (\<lambda>rejected c.
       (Inr \<lparr>ld_devices = fold (load_device C) devs [],
             ld_seen = set (map fst seen),
             ld_ledger = ledger,
             ld_balances = fold (\<lambda>(k, v). hm_insert k v) bals [],
             ld_impressions = fold (\<lambda>(k, v). hm_insert k v) imps [],
             ld_clicks = clicks, ld_accepted = accepted, ld_rejected = rejected,
             ld_redemptions = fst (load_redemptions rdms),
             ld_next = snd (load_redemptions rdms) + 1\<rparr>, c))))))))))"

subsection \<open>A healthy connection\<close>

definition healthy :: "conn \<Rightarrow> bool" where
  "healthy c \<longleftrightarrow> faults c = []"

lemma execute_healthy [simp]:
  "healthy c \<Longrightarrow> execute stmt c = (case stmt c of Inl e \<Rightarrow> (Inl e, c) | Inr c2 \<Rightarrow> (Inr (), c2))"
  by (cases c) (auto simp: healthy_def execute_def Let_def split: sum.split)

lemma query_healthy [simp]: "healthy c \<Longrightarrow> query q c = (Inr (q c), c)"
  by (cases c) (simp add: healthy_def query_def Let_def)

named_theorems tables
  \<comment> \<open>the effect of a write-through helper on a healthy connection\<close>

lemma write_through [tables]:
  assumes "healthy c"
  shows "kv_set k n c = c\<lparr>t_kv := hm_insert k n (t_kv c)\<rparr>"
    and "upsert_device C d r c = c\<lparr>t_devices := hm_insert d (hex_encode C (dv_pubkey r),
           dv_account_id r, dv_chain_head r, dv_ctr_head r) (t_devices c)\<rparr>"
    and "update_device_head d h ctr c =
           c\<lparr>t_devices := hm_modify d (\<lambda>(hex, acct, _, _). (hex, acct, h, ctr)) (t_devices c)\<rparr>"
    and "ensure_balance a c = c\<lparr>t_balances := hm_or_insert a 0 (t_balances c)\<rparr>"
    and "ensure_impressions a c = c\<lparr>t_impressions := hm_or_insert a 0 (t_impressions c)\<rparr>"
    and "set_balance a x c = c\<lparr>t_balances := hm_insert a x (t_balances c)\<rparr>"
    and "set_impressions a y c = c\<lparr>t_impressions := hm_insert a y (t_impressions c)\<rparr>"
    and "insert_ledger e c = c\<lparr>t_ledger := t_ledger c @ [e]\<rparr>"
    and "insert_seen_event i c = c\<lparr>t_seen := hm_or_insert i () (t_seen c)\<rparr>"
  using assms
  by (simp_all add: log_err_def kv_set_def upsert_device_def update_device_head_def
      ensure_balance_def ensure_impressions_def set_balance_def set_impressions_def
      insert_ledger_def insert_seen_event_def)

lemma insert_redemption_healthy [tables]:
  "healthy c \<Longrightarrow> hm_get (t_redemptions c) (rdm_id r) = None \<Longrightarrow> insert_redemption r c
     = c\<lparr>t_redemptions := hm_insert (rdm_id r) (rdm_amount r, rdm_rail r) (t_redemptions c)\<rparr>"
  by (simp add: log_err_def insert_redemption_def)

lemma healthy_update [simp]:
  "healthy (c\<lparr>t_kv := a1\<rparr>) = healthy c" "healthy (c\<lparr>t_devices := a2\<rparr>) = healthy c"
  "healthy (c\<lparr>t_balances := a3\<rparr>) = healthy c" "healthy (c\<lparr>t_impressions := a4\<rparr>) = healthy c"
  "healthy (c\<lparr>t_ledger := a5\<rparr>) = healthy c" "healthy (c\<lparr>t_seen := a6\<rparr>) = healthy c"
  "healthy (c\<lparr>t_redemptions := a7\<rparr>) = healthy c" "healthy (c\<lparr>t_creatives := a8\<rparr>) = healthy c"
  "healthy (c\<lparr>t_device_meta := a9\<rparr>) = healthy c" "healthy (c\<lparr>t_sessions := a10\<rparr>) = healthy c"
  "healthy (c\<lparr>t_accounts := a11\<rparr>) = healthy c"
  by (simp_all add: healthy_def)

lemma fold_hm_insert:
  "hm_wf (acc @ m) \<Longrightarrow> fold (\<lambda>(k, v). hm_insert k v) m acc = acc @ m"
proof (induction m arbitrary: acc)
  case Nil
  then show ?case by simp
next
  case (Cons x m)
  obtain k v where x: "x = (k, v)" by (cases x)
  have "hm_get acc k = None"
    using Cons.prems by (auto simp: x hm_get_def hm_wf_def map_of_eq_None_iff)
  then have "hm_insert k v acc = acc @ [x]" by (simp add: hm_insert_fresh x)
  with Cons show ?case by (simp add: x)
qed

lemma load_healthy:
  assumes "healthy c"
  shows "load C c = (Inr \<lparr>ld_devices = fold (load_device C) (t_devices c) [],
             ld_seen = fst ` set (t_seen c), ld_ledger = t_ledger c,
             ld_balances = fold (\<lambda>(k, v). hm_insert k v) (t_balances c) [],
             ld_impressions = fold (\<lambda>(k, v). hm_insert k v) (t_impressions c) [],
             ld_clicks = hm_get_or 0 (t_kv c) ''clicks'',
             ld_accepted = hm_get_or 0 (t_kv c) ''accepted'',
             ld_rejected = hm_get_or 0 (t_kv c) ''rejected'',
             ld_redemptions = fst (load_redemptions (t_redemptions c)),
             ld_next = snd (load_redemptions (t_redemptions c)) + 1\<rparr>, c)"
  using assms by (simp add: load_def bind_r_def kv_get_def)

lemma decode_pubkey_encode:
  "hex_ok C \<Longrightarrow> length k = 32 \<Longrightarrow> key_valid C k \<Longrightarrow> decode_pubkey C (hex_encode C k) = Some k"
  by (simp add: decode_pubkey_def hex_ok_def)

lemma decode_pubkey_SomeD: "decode_pubkey C h = Some k \<Longrightarrow> length k = 32 \<and> key_valid C k"
  by (auto simp: decode_pubkey_def split: option.splits if_splits)

end
