(* ===== verification/Server.thy ===== *)
theory Server
  imports Store "HOL-Library.Signed_Division"
begin

section \<open>The ledger server (spnr-server, main.rs)\<close>

text \<open>
  The state behind the mutex and the handlers that read and change it: register, serve, ingest
  with \<^verbatim>\<open>accept_event\<close>, click, balance, redeem and stats. A handler is a function of the state that
  returns its response and the new state; the lock makes the handlers atomic. A \<^verbatim>\<open>u64\<close> or \<^verbatim>\<open>i64\<close> is a
  64-bit word, so every sum wraps as the release build does. What the code takes from outside (the
  clock, the peer's address, the iteration order of a \<^verbatim>\<open>HashMap\<close>) is an argument.
\<close>

definition PRICE_PER_IMP_MICROS :: i64 where "PRICE_PER_IMP_MICROS = 10000"
definition DEV_SHARE_NUM :: i64 where "DEV_SHARE_NUM = 1"
definition DEV_SHARE_DEN :: i64 where "DEV_SHARE_DEN = 2"

text \<open>Signed division truncates.\<close>

definition i64_div :: "i64 \<Rightarrow> i64 \<Rightarrow> i64" where
  "i64_div a b = word_of_int (sint a sdiv sint b)"

definition show_i64 :: "i64 \<Rightarrow> string" where
  "show_i64 w = (if sint w < 0 then CHR ''-'' # show_nat (nat (- sint w)) else show_nat (nat (sint w)))"

record app_state =
  creative_id :: string
  creative_text :: string
  creative_url :: string
  short_code :: string
  campaign_name :: string
  advertiser :: string
  creatives :: "creative list"
  devices :: "(string, device_rec) hmap"
  seen_event_ids :: "string set"
  ledger :: "ledger_entry list"
  balances :: "(string, i64) hmap"
  impressions :: "(string, u64) hmap"
  clicks :: u64
  accepted :: u64
  rejected :: u64
  redemptions :: "redemption list"
  next_redemption_id :: u64
  db :: "conn option"
  admin_token :: "string option"

subsection \<open>Opening\<close>

definition em_dash :: string where "em_dash = map byte_of [226, 128, 148]"
definition arrow :: string where "arrow = map byte_of [226, 134, 151]"

definition house_creatives :: "creative list" where
  "house_creatives =
     [\<lparr>cr_id = ''cr_house_1'',
       cr_text = ''CloakPipe '' @ em_dash @ '' ship privacy-safe LLM apps '' @ arrow,
       cr_url = ''https://example.com/cloakpipe'', cr_short_code = ''AbC9'',
       cr_advertiser = ''acct:house'', cr_campaign_name = ''House Ad '' @ em_dash @ '' CloakPipe''\<rparr>,
      \<lparr>cr_id = ''cr_house_2'',
       cr_text = ''ctxgraph '' @ em_dash @ '' see what your agent sees '' @ arrow,
       cr_url = ''https://example.com/ctxgraph'', cr_short_code = ''Kp7T'',
       cr_advertiser = ''acct:house'', cr_campaign_name = ''House Ad '' @ em_dash @ '' ctxgraph''\<rparr>,
      \<lparr>cr_id = ''cr_house_3'',
       cr_text = ''spnr '' @ em_dash @ '' get paid for your agent'' @ [CHR 0x27] @ ''s wait time '' @ arrow,
       cr_url = ''https://example.com/spnr'', cr_short_code = ''Zx2Q'',
       cr_advertiser = ''acct:house'', cr_campaign_name = ''House Ad '' @ em_dash @ '' spnr''\<rparr>]"

definition seeded :: app_state where
  "seeded = \<lparr>creative_id = ''cr_house_1'',
     creative_text = ''CloakPipe '' @ em_dash @ '' ship privacy-safe LLM apps '' @ arrow,
     creative_url = ''https://example.com/cloakpipe'', short_code = ''AbC9'',
     campaign_name = ''House Ad '' @ em_dash @ '' CloakPipe'', advertiser = ''acct:house'',
     creatives = house_creatives, devices = [], seen_event_ids = {}, ledger = [],
     balances = [], impressions = [], clicks = 0, accepted = 0, rejected = 0,
     redemptions = [], next_redemption_id = 1, db = None, admin_token = None\<rparr>"

definition restored :: "loaded \<Rightarrow> app_state" where
  "restored l = seeded\<lparr>devices := ld_devices l, seen_event_ids := ld_seen l, ledger := ld_ledger l,
     balances := ld_balances l, impressions := ld_impressions l, clicks := ld_clicks l,
     accepted := ld_accepted l, rejected := ld_rejected l, redemptions := ld_redemptions l,
     next_redemption_id := ld_next l\<rparr>"

text \<open>
  \<^verbatim>\<open>AppState::open\<close> on the connection \<^verbatim>\<open>db::open\<close> returned, the clock and the value of the
  environment variable.
\<close>

definition open_state :: "crypto \<Rightarrow> i64 \<Rightarrow> string option \<Rightarrow> conn \<Rightarrow> (sql_error + app_state) \<times> conn" where
  "open_state C now env c =
     bind_r (load C c) (\<lambda>l c.
     bind_r (load_creatives c) (\<lambda>stored c.
       (let s = restored l;
            c' = (if stored = [] then fold (\<lambda>cr. insert_creative cr True now) (creatives s) c else c);
            s' = (if stored = [] then s
                  else s\<lparr>creatives := map lc_creative (filter lc_active stored)\<rparr>);
            token = (case env of Some t \<Rightarrow> if t = [] then None else Some t | None \<Rightarrow> None)
        in (Inr (s'\<lparr>admin_token := token, db := Some c'\<rparr>), c'))))"

text \<open>\<^verbatim>\<open>if let Some(conn) = &s.db\<close>\<close>

definition with_db :: "(conn \<Rightarrow> conn) \<Rightarrow> app_state \<Rightarrow> app_state" where
  "with_db f s = (case db s of None \<Rightarrow> s | Some c \<Rightarrow> s\<lparr>db := Some (f c)\<rparr>)"

subsection \<open>Register\<close>

record register_req =
  rq_device_id :: string
  rq_pubkey :: string
  rq_os :: "string option"
  rq_arch :: "string option"
  rq_hostname :: "string option"
  rq_version :: "string option"
  rq_email :: "string option"

record register_resp =
  rr_ok :: bool
  rr_account_id :: string

text \<open>
  Header fields, names in lower case, in order; \<^verbatim>\<open>get\<close> returns the first one and \<^verbatim>\<open>to_str\<close> fails
  on a byte outside visible ASCII and tab.
\<close>

type_synonym headers = "(string \<times> bytes) list"

definition header_str :: "headers \<Rightarrow> string \<Rightarrow> string option" where
  "header_str hs name =
     (case map_of hs name of
        None \<Rightarrow> None
      | Some v \<Rightarrow> if list_all (\<lambda>c. byte_val c = 9 \<or> (32 \<le> byte_val c \<and> byte_val c < 127)) v
                  then Some v else None)"

definition client_ip :: "headers \<Rightarrow> string \<Rightarrow> string" where
  "client_ip hs peer =
     (case header_str hs ''x-forwarded-for'' of
        Some xff \<Rightarrow>
          (let first = trim (takeWhile (\<lambda>c. c \<noteq> CHR '','') xff)
           in if first \<noteq> [] then first else peer)
      | None \<Rightarrow> peer)"

definition opt_str :: "string option \<Rightarrow> string option" where
  "opt_str x = (case x of None \<Rightarrow> None | Some s \<Rightarrow> if trim s \<noteq> [] then Some (trim s) else None)"

text \<open>main.rs has its own copy of the function of db.rs.\<close>

definition decode_pubkey_main :: "crypto \<Rightarrow> string \<Rightarrow> bytes option" where
  "decode_pubkey_main C hex =
     (case hex_decode C hex of
        None \<Rightarrow> None
      | Some b \<Rightarrow> if length b = 32 \<and> key_valid C b then Some b else None)"

lemma decode_pubkey_main [simp]: "decode_pubkey_main = decode_pubkey"
  by (simp add: fun_eq_iff decode_pubkey_main_def decode_pubkey_def)

definition account_of :: "string \<Rightarrow> string" where
  "account_of device = ''acct:'' @ device"

definition register :: "crypto \<Rightarrow> string \<Rightarrow> headers \<Rightarrow> register_req \<Rightarrow> i64 \<Rightarrow> app_state \<Rightarrow>
    (nat \<times> register_resp) \<times> app_state" where
  "register C peer hs req now s =
     (let account_id = account_of (rq_device_id req);
          ip = client_ip hs peer
      in (case decode_pubkey_main C (rq_pubkey req) of
            None \<Rightarrow> ((400, \<lparr>rr_ok = False, rr_account_id = account_id\<rparr>), s)
          | Some pubkey \<Rightarrow>
              (let rec = \<lparr>dv_pubkey = pubkey, dv_account_id = account_id,
                          dv_chain_head = GENESIS_PREV, dv_ctr_head = None\<rparr>;
                   s1 = s\<lparr>devices := hm_insert (rq_device_id req) rec (devices s),
                          balances := hm_or_insert account_id 0 (balances s),
                          impressions := hm_or_insert account_id 0 (impressions s)\<rparr>;
                   meta = \<lparr>dm_device_id = rq_device_id req, dm_ip = Some ip,
                           dm_os = opt_str (rq_os req), dm_arch = opt_str (rq_arch req),
                           dm_hostname = opt_str (rq_hostname req),
                           dm_version = opt_str (rq_version req),
                           dm_email = opt_str (rq_email req),
                           dm_first_seen = now, dm_last_seen = now\<rparr>;
                   s2 = with_db (upsert_device_meta meta \<circ> ensure_impressions account_id
                          \<circ> ensure_balance account_id
                          \<circ> upsert_device C (rq_device_id req) rec) s1
               in ((200, \<lparr>rr_ok = True, rr_account_id = account_id\<rparr>), s2))))"

subsection \<open>Serve\<close>

record serve_creative =
  sc_id :: string
  sc_text :: string
  sc_short_code :: string
  sc_url :: string

definition to_serve :: "creative \<Rightarrow> serve_creative" where
  "to_serve c = \<lparr>sc_id = cr_id c, sc_text = cr_text c, sc_short_code = cr_short_code c, sc_url = cr_url c\<rparr>"

definition serve :: "app_state \<Rightarrow> serve_creative \<times> serve_creative list" where
  "serve s =
     (let pool = map to_serve (creatives s)
      in (case pool of
            c # _ \<Rightarrow> c
          | [] \<Rightarrow> \<lparr>sc_id = creative_id s, sc_text = creative_text s,
                    sc_short_code = short_code s, sc_url = creative_url s\<rparr>, pool))"

subsection \<open>Ingest\<close>

record signed_event =
  se_e :: event
  se_s :: string

definition imp_entries :: "app_state \<Rightarrow> string \<Rightarrow> i64 \<Rightarrow> i64 \<Rightarrow> string \<Rightarrow> ledger_entry list" where
  "imp_entries s acct dev_earn house_keep ref =
     [\<lparr>debit = advertiser s, credit = acct, amount_micros = dev_earn, kind = ''imp_earn'',
       reference = ref\<rparr>,
      \<lparr>debit = advertiser s, credit = ''acct:house'', amount_micros = house_keep,
       kind = ''ad_spend_house'', reference = ref\<rparr>]"

text \<open>The block of \<^verbatim>\<open>accept_event\<close> for an impression: the new ledger rows, the account, the state.\<close>

definition accrue :: "string \<Rightarrow> event \<Rightarrow> app_state \<Rightarrow> ledger_entry list \<times> string option \<times> app_state" where
  "accrue acct e s =
     (if ev_ty e = Imp then
        (let n = (case ev_n e of Some k \<Rightarrow> (ucast k :: i64) | None \<Rightarrow> 0)
         in if 0 < sint n then
              (let spend = PRICE_PER_IMP_MICROS * n;
                   dev_earn = i64_div (spend * DEV_SHARE_NUM) DEV_SHARE_DEN;
                   house_keep = spend - dev_earn;
                   new_ledger = imp_entries s acct dev_earn house_keep (ev_id e)
               in (new_ledger, Some acct,
                   s\<lparr>ledger := ledger s @ new_ledger,
                     balances := hm_insert acct (hm_get_or 0 (balances s) acct + dev_earn) (balances s),
                     impressions := hm_insert acct (hm_get_or 0 (impressions s) acct + n) (impressions s)\<rparr>))
            else ([], None, s))
      else ([], None, s))"

definition accept_event :: "crypto \<Rightarrow> string \<Rightarrow> signed_event \<Rightarrow> app_state \<Rightarrow> (string + unit) \<times> app_state" where
  "accept_event C device se s =
     (case hm_get (devices s) device of
        None \<Rightarrow> (Inl ''unknown device'', s)
      | Some dev \<Rightarrow>
          (case hex_decode C (se_s se) of
             None \<Rightarrow> (Inl ''sig not hex'', s)
           | Some sig \<Rightarrow>
               if \<not> key_verify C (se_e se) sig (dv_pubkey dev) then (Inl ''bad signature'', s)
               else if ev_prev (se_e se) \<noteq> dv_chain_head dev then (Inl ''chain fork/gap'', s)
               else if ev_ctr (se_e se) \<noteq> (case dv_ctr_head dev of Some c \<Rightarrow> c + 1 | None \<Rightarrow> 0)
                 then (Inl ''ctr not monotonic'', s)
               else if ev_id (se_e se) \<in> seen_event_ids s then (Inl ''duplicate event id'', s)
               else
                 (let new_head = chain_next C (canonical_bytes C (se_e se));
                      new_ctr = Some (ev_ctr (se_e se));
                      s1 = s\<lparr>devices := hm_modify device
                               (\<lambda>d. d\<lparr>dv_chain_head := new_head, dv_ctr_head := new_ctr\<rparr>) (devices s),
                             seen_event_ids := insert (ev_id (se_e se)) (seen_event_ids s)\<rparr>
                  in (case accrue (dv_account_id dev) (se_e se) s1 of
                        (new_ledger, earned, s2) \<Rightarrow>
                          (Inr (),
                           with_db
                             ((case earned of
                                 None \<Rightarrow> id
                               | Some acct \<Rightarrow>
                                   set_impressions acct (hm_get_or 0 (impressions s2) acct)
                                   \<circ> set_balance acct (hm_get_or 0 (balances s2) acct))
                              \<circ> fold insert_ledger new_ledger
                              \<circ> insert_seen_event (ev_id (se_e se))
                              \<circ> update_device_head device new_head new_ctr) s2)))))"

record ingest_resp =
  ir_accepted :: u64
  ir_rejected :: u64
  ir_reasons :: "string list"

text \<open>One turn of the loop of \<^verbatim>\<open>ingest\<close>.\<close>

definition ingest_one :: "crypto \<Rightarrow> string \<Rightarrow> signed_event \<Rightarrow> ingest_resp \<times> app_state \<Rightarrow>
    ingest_resp \<times> app_state" where
  "ingest_one C device se rs =
     (case rs of (r, s) \<Rightarrow>
        (case accept_event C device se s of
           (Inr _, s1) \<Rightarrow>
             (let s2 = s1\<lparr>accepted := accepted s1 + 1\<rparr>
              in (r\<lparr>ir_accepted := ir_accepted r + 1\<rparr>, with_db (kv_set ''accepted'' (accepted s2)) s2))
         | (Inl reason, s1) \<Rightarrow>
             (let s2 = s1\<lparr>rejected := rejected s1 + 1\<rparr>
              in (r\<lparr>ir_rejected := ir_rejected r + 1, ir_reasons := ir_reasons r @ [reason]\<rparr>,
                  with_db (kv_set ''rejected'' (rejected s2)) s2))))"

definition ingest :: "crypto \<Rightarrow> string \<Rightarrow> signed_event list \<Rightarrow> app_state \<Rightarrow> ingest_resp \<times> app_state" where
  "ingest C device events s =
     fold (ingest_one C device) events
       (\<lparr>ir_accepted = 0, ir_rejected = 0, ir_reasons = []\<rparr>, s)"

subsection \<open>Click, balance, redeem, stats\<close>

text \<open>The target of the redirect and the new state.\<close>

definition click :: "string \<Rightarrow> app_state \<Rightarrow> string \<times> app_state" where
  "click code s =
     (case find (\<lambda>c. cr_short_code c = code) (creatives s) of
        Some c \<Rightarrow>
          (let s1 = s\<lparr>clicks := clicks s + 1\<rparr>
           in (cr_url c, with_db (kv_set ''clicks'' (clicks s1)) s1))
      | None \<Rightarrow> (creative_url s, s))"

record balance_resp =
  br_account_id :: string
  br_impressions :: u64
  br_balance_usd_micros :: i64

definition balance :: "string \<Rightarrow> app_state \<Rightarrow> balance_resp" where
  "balance device s =
     (let account_id = account_of device
      in \<lparr>br_account_id = account_id,
          br_impressions = hm_get_or 0 (impressions s) account_id,
          br_balance_usd_micros = hm_get_or 0 (balances s) account_id\<rparr>)"

text \<open>\<^verbatim>\<open>max_by_key\<close> over the entries in iteration order: the last of the greatest.\<close>

fun max_by_value :: "(string \<times> i64) list \<Rightarrow> (string \<times> i64) option" where
  "max_by_value [] = None"
| "max_by_value (x # xs) =
     (case max_by_value xs of
        None \<Rightarrow> Some x
      | Some y \<Rightarrow> if sint (snd x) \<le> sint (snd y) then Some y else Some x)"

record redeem_ok =
  ro_id :: string
  ro_amount :: i64
  ro_rail :: string
  ro_status :: string
  ro_remaining :: i64

text \<open>
  \<open>order\<close> is the map's iteration order: it takes the entries to the order they are visited in.
\<close>

definition redeem :: "((string, i64) hmap \<Rightarrow> (string \<times> i64) list) \<Rightarrow> string \<Rightarrow> i64 option \<Rightarrow> app_state \<Rightarrow>
    (string + redeem_ok) \<times> app_state" where
  "redeem order rail amount s =
     (case max_by_value (order (balances s)) of
        None \<Rightarrow> (Inl ''no balance to redeem'', s)
      | Some (dev_acct, available) \<Rightarrow>
          if sint available \<le> 0 then (Inl ''no balance to redeem'', s)
          else
            (let requested = (case amount of Some a \<Rightarrow> if 0 < sint a then a else available | None \<Rightarrow> available)
             in if sint requested > sint available then
                  (Inl (''amount '' @ show_i64 requested @ '' exceeds available balance '' @ show_i64 available), s)
                else
                  (let rid = ''rdm_'' @ show_nat (unat (next_redemption_id s));
                       entry = \<lparr>debit = dev_acct, credit = ''acct:payout'', amount_micros = requested,
                                kind = ''redeem'', reference = rid\<rparr>;
                       rdm = \<lparr>rdm_id = rid, rdm_amount = requested, rdm_rail = rail\<rparr>;
                       s1 = s\<lparr>next_redemption_id := next_redemption_id s + 1,
                              ledger := ledger s @ [entry],
                              balances := hm_insert dev_acct (hm_get_or 0 (balances s) dev_acct - requested) (balances s),
                              redemptions := redemptions s @ [rdm]\<rparr>;
                       remaining = hm_get_or 0 (balances s1) dev_acct;
                       s2 = with_db (set_balance dev_acct remaining \<circ> insert_redemption rdm \<circ> insert_ledger entry) s1
                   in (Inr \<lparr>ro_id = rid, ro_amount = requested, ro_rail = rail, ro_status = ''queued'',
                            ro_remaining = remaining\<rparr>, s2))))"

definition total_impressions :: "app_state \<Rightarrow> u64" where
  "total_impressions s = hm_sum (impressions s)"

definition total_balance_micros :: "app_state \<Rightarrow> i64" where
  "total_balance_micros s = hm_sum (balances s)"

definition total_redeemed_micros :: "app_state \<Rightarrow> i64" where
  "total_redeemed_micros s = sum_list (map rdm_amount (redemptions s))"

definition ledger_net :: "ledger_entry list \<Rightarrow> (string, i64) hmap" where
  "ledger_net es = fold (\<lambda>e net.
     let net1 = hm_insert (debit e) (hm_get_or 0 net (debit e) - amount_micros e) net
     in hm_insert (credit e) (hm_get_or 0 net1 (credit e) + amount_micros e) net1) es []"

definition ledger_sums_to_zero :: "app_state \<Rightarrow> bool" where
  "ledger_sums_to_zero s \<longleftrightarrow> hm_sum (ledger_net (ledger s)) = 0"

end
