(* ===== verification/Server_Books.thy ===== *)
theory Server_Books
  imports Server
begin

section \<open>The books of the server\<close>

text \<open>
  What the handlers of theory Server keep: what an accepted event is and does, the agreement of
  balances, impressions and the ledger, no event paid twice, and the independence of everything
  the clients see from the success of the writes to disk.
\<close>

subsection \<open>Views of the state\<close>

text \<open>The state without its connection: what requests are answered from.\<close>

definition mem :: "app_state \<Rightarrow> app_state" where
  "mem s = s\<lparr>db := None\<rparr>"

lemma with_db_fields [simp]:
  "devices (with_db f s) = devices s" "seen_event_ids (with_db f s) = seen_event_ids s"
  "ledger (with_db f s) = ledger s" "balances (with_db f s) = balances s"
  "impressions (with_db f s) = impressions s" "clicks (with_db f s) = clicks s"
  "accepted (with_db f s) = accepted s" "rejected (with_db f s) = rejected s"
  "redemptions (with_db f s) = redemptions s" "next_redemption_id (with_db f s) = next_redemption_id s"
  "creatives (with_db f s) = creatives s" "advertiser (with_db f s) = advertiser s"
  "creative_url (with_db f s) = creative_url s" "admin_token (with_db f s) = admin_token s"
  by (simp_all add: with_db_def split: option.split)

lemma mem_with_db [simp]: "mem (with_db f s) = mem s"
  by (simp add: with_db_def mem_def split: option.split)

lemma mem_fields [simp]:
  "devices (mem s) = devices s" "seen_event_ids (mem s) = seen_event_ids s"
  "ledger (mem s) = ledger s" "balances (mem s) = balances s"
  "impressions (mem s) = impressions s" "clicks (mem s) = clicks s"
  "accepted (mem s) = accepted s" "rejected (mem s) = rejected s"
  "redemptions (mem s) = redemptions s" "next_redemption_id (mem s) = next_redemption_id s"
  "creatives (mem s) = creatives s" "advertiser (mem s) = advertiser s"
  "creative_url (mem s) = creative_url s" "admin_token (mem s) = admin_token s"
  by (simp_all add: mem_def)

lemma mem_None [simp]: "with_db f (mem s) = mem s"
  by (simp add: with_db_def mem_def)

lemma mem_mem [simp]: "mem (mem s) = mem s"
  by (simp add: mem_def)

lemma mem_update [simp]:
  "mem (s\<lparr>devices := a\<rparr>) = (mem s)\<lparr>devices := a\<rparr>"
  "mem (s\<lparr>seen_event_ids := b\<rparr>) = (mem s)\<lparr>seen_event_ids := b\<rparr>"
  "mem (s\<lparr>ledger := c\<rparr>) = (mem s)\<lparr>ledger := c\<rparr>"
  "mem (s\<lparr>balances := d\<rparr>) = (mem s)\<lparr>balances := d\<rparr>"
  "mem (s\<lparr>impressions := e\<rparr>) = (mem s)\<lparr>impressions := e\<rparr>"
  "mem (s\<lparr>clicks := f\<rparr>) = (mem s)\<lparr>clicks := f\<rparr>"
  "mem (s\<lparr>accepted := g\<rparr>) = (mem s)\<lparr>accepted := g\<rparr>"
  "mem (s\<lparr>rejected := h\<rparr>) = (mem s)\<lparr>rejected := h\<rparr>"
  "mem (s\<lparr>redemptions := i\<rparr>) = (mem s)\<lparr>redemptions := i\<rparr>"
  "mem (s\<lparr>next_redemption_id := j\<rparr>) = (mem s)\<lparr>next_redemption_id := j\<rparr>"
  by (simp_all add: mem_def)

subsection \<open>What an impression earns\<close>

definition imp_count :: "event \<Rightarrow> u64" where
  "imp_count e = (if ev_ty e = Imp then (case ev_n e of Some k \<Rightarrow> ucast k | None \<Rightarrow> 0) else 0)"

lemma uint_ucast32: "uint (ucast (n :: u32) :: u64) = uint n"
  by (rule uint_up_ucast) (simp add: is_up)

lemma uint_u32: "0 \<le> uint (n :: u32)" "uint (n :: u32) < 4294967296"
  using uint_bounded[of n] by simp_all

lemma sint_small:
  "0 \<le> k \<Longrightarrow> k < 2 ^ 63 \<Longrightarrow> sint (word_of_int k :: i64) = k"
  by (simp add: sint_uint unsigned_of_int take_bit_int_eq_self signed_take_bit_int_eq_self)

lemma sint_ucast32: "sint (ucast (n :: u32) :: i64) = uint n"
proof -
  have "- (2 ^ 63) \<le> uint n" by (rule order_trans[OF _ uint_u32(1)]) simp
  moreover have "uint n < 2 ^ 63" using uint_u32(2)[of n] by simp
  ultimately have "signed_take_bit 63 (uint n) = uint n" by (rule signed_take_bit_int_eq_self)
  then show ?thesis by (simp add: sint_uint uint_ucast32)
qed

lemma dev_earn_eq:
  "i64_div (PRICE_PER_IMP_MICROS * ucast (n :: u32) * DEV_SHARE_NUM) DEV_SHARE_DEN = 5000 * ucast n"
proof -
  have "(10000 * ucast n :: i64) = word_of_int (10000 * uint n)"
    by (metis of_int_mult of_int_numeral uint_ucast32 word_of_int_uint)
  then have "sint (10000 * ucast n :: i64) = 10000 * uint n"
    using sint_small[of "10000 * uint n"] uint_u32[of n] by simp
  moreover have "0 \<le> u \<Longrightarrow> (10000 * u) sdiv 2 = 5000 * u" for u :: int
    by (auto simp: signed_divide_int_def sgn_if)
  ultimately have "i64_div (10000 * ucast n) 2 = word_of_int (5000 * uint n)"
    using uint_u32(1)[of n] by (simp add: i64_div_def)
  also have "\<dots> = 5000 * ucast n"
    by (metis of_int_mult of_int_numeral uint_ucast32 word_of_int_uint)
  finally show ?thesis
    by (simp add: PRICE_PER_IMP_MICROS_def DEV_SHARE_NUM_def DEV_SHARE_DEN_def)
qed

lemma imp_count_pos: "0 < sint (ucast (k :: u32) :: i64) \<longleftrightarrow> k \<noteq> 0"
  using uint_u32(1)[of k] by (auto simp: sint_ucast32 less_le uint_0_iff)

lemma ucast_u32_0 [simp]: "(ucast (k :: u32) :: u64) = 0 \<longleftrightarrow> k = 0"
  using ucast_u32_inject[of k 0] by simp

text \<open>The effect of \<^const>\<open>accrue\<close> on the books, on every branch.\<close>

lemma accrue_none: "imp_count e = 0 \<Longrightarrow> accrue acct e s = ([], None, s)"
  by (auto simp: accrue_def imp_count_def imp_count_pos split: option.splits if_splits)

lemma accrue_some:
  assumes "imp_count e \<noteq> 0"
  shows "accrue acct e s =
     (let rows = imp_entries s acct (5000 * imp_count e) (5000 * imp_count e) (ev_id e)
      in (rows, Some acct,
          s\<lparr>ledger := ledger s @ rows,
            balances := hm_insert acct (hm_get_or 0 (balances s) acct + 5000 * imp_count e) (balances s),
            impressions := hm_insert acct (hm_get_or 0 (impressions s) acct + imp_count e) (impressions s)\<rparr>))"
proof -
  obtain k where k: "ev_ty e = Imp" "ev_n e = Some k" "imp_count e = ucast k"
    using assms by (auto simp: imp_count_def split: if_splits option.splits)
  with assms have "k \<noteq> 0" by auto
  then have "0 < sint (ucast k :: i64)" by (simp add: imp_count_pos)
  moreover have "PRICE_PER_IMP_MICROS * ucast k
      - i64_div (PRICE_PER_IMP_MICROS * ucast k * DEV_SHARE_NUM) DEV_SHARE_DEN = 5000 * ucast k"
    unfolding dev_earn_eq by (simp add: PRICE_PER_IMP_MICROS_def)
  ultimately show ?thesis
    unfolding accrue_def Let_def k option.case by (simp only: dev_earn_eq if_True refl)
qed

subsection \<open>The cases of an event\<close>

definition expected_ctr :: "device_rec \<Rightarrow> u64" where
  "expected_ctr dev = (case dv_ctr_head dev of Some c \<Rightarrow> c + 1 | None \<Rightarrow> 0)"

definition acceptable :: "crypto \<Rightarrow> string \<Rightarrow> signed_event \<Rightarrow> app_state \<Rightarrow> bool" where
  "acceptable C device se s \<longleftrightarrow> (\<exists>dev sig.
     hm_get (devices s) device = Some dev \<and> hex_decode C (se_s se) = Some sig
     \<and> key_verify C (se_e se) sig (dv_pubkey dev)
     \<and> ev_prev (se_e se) = dv_chain_head dev \<and> ev_ctr (se_e se) = expected_ctr dev
     \<and> ev_id (se_e se) \<notin> seen_event_ids s)"

text \<open>The books after an accepted event, as the memory holds them.\<close>

definition advance :: "crypto \<Rightarrow> string \<Rightarrow> event \<Rightarrow> app_state \<Rightarrow> app_state" where
  "advance C device e s =
     s\<lparr>devices := hm_modify device
         (\<lambda>d. d\<lparr>dv_chain_head := chain_next C (canonical_bytes C e), dv_ctr_head := Some (ev_ctr e)\<rparr>)
         (devices s),
       seen_event_ids := insert (ev_id e) (seen_event_ids s)\<rparr>"

definition credit_imps :: "string \<Rightarrow> event \<Rightarrow> app_state \<Rightarrow> app_state" where
  "credit_imps acct e s =
     (if imp_count e = 0 then s
      else s\<lparr>ledger := ledger s @ imp_entries s acct (5000 * imp_count e) (5000 * imp_count e) (ev_id e),
             balances := hm_insert acct (hm_get_or 0 (balances s) acct + 5000 * imp_count e) (balances s),
             impressions := hm_insert acct (hm_get_or 0 (impressions s) acct + imp_count e) (impressions s)\<rparr>)"

lemma accrue_state: "snd (snd (accrue acct e s)) = credit_imps acct e s"
  by (cases "imp_count e = 0") (simp_all add: accrue_none accrue_some credit_imps_def Let_def)

lemma imp_entries_mem [simp]: "imp_entries (mem s) = imp_entries s"
  by (simp add: imp_entries_def fun_eq_iff)

lemma mem_advance: "mem (advance C device e s) = advance C device e (mem s)"
  by (simp add: advance_def)

lemma mem_credit: "mem (credit_imps acct e s) = credit_imps acct e (mem s)"
  by (simp add: credit_imps_def)

lemma accept_event_reject:
  "fst (accept_event C device se s) = Inl r \<Longrightarrow> snd (accept_event C device se s) = s"
  by (auto simp: accept_event_def Let_def split: option.splits if_splits prod.splits)

lemma accept_event_iff:
  "fst (accept_event C device se s) = Inr () \<longleftrightarrow> acceptable C device se s"
  by (auto simp: accept_event_def acceptable_def expected_ctr_def Let_def
      split: option.splits if_splits prod.splits)

lemma accept_event_mem:
  assumes "fst (accept_event C device se s) = Inr ()" "hm_get (devices s) device = Some dev"
  shows "mem (snd (accept_event C device se s))
    = credit_imps (dv_account_id dev) (se_e se) (advance C device (se_e se) (mem s))"
proof -
  obtain rows earned s2 where a:
    "accrue (dv_account_id dev) (se_e se) (advance C device (se_e se) s) = (rows, earned, s2)"
    by (metis prod_cases3)
  then have "s2 = credit_imps (dv_account_id dev) (se_e se) (advance C device (se_e se) s)"
    by (metis accrue_state snd_conv)
  moreover have "mem (snd (accept_event C device se s)) = mem s2"
    using assms a unfolding accept_event_def advance_def
    by (auto simp: Let_def split: option.splits if_splits)
  ultimately show ?thesis by (simp add: mem_credit mem_advance)
qed

text \<open>The response and the memory do not depend on the connection.\<close>

lemma accept_event_indep_fst:
  "fst (accept_event C device se (mem s)) = fst (accept_event C device se s)"
  by (auto simp: accept_event_def Let_def split: option.splits if_splits prod.splits)

lemma accept_event_indep:
  "mem (snd (accept_event C device se s)) = snd (accept_event C device se (mem s))"
proof (cases "fst (accept_event C device se s)")
  case (Inl r)
  then show ?thesis
    using accept_event_reject[of C device se s r] accept_event_reject[of C device se "mem s" r]
      accept_event_indep_fst[of C device se s] by simp
next
  case (Inr u)
  then have ok: "fst (accept_event C device se s) = Inr ()" by simp
  then obtain dev where dev: "hm_get (devices s) device = Some dev"
    by (auto simp: accept_event_iff acceptable_def)
  have "db (snd (accept_event C device se (mem s))) = None"
    by (auto simp: accept_event_def Let_def accrue_def with_db_def mem_def
        split: option.splits if_splits prod.splits)
  then have "snd (accept_event C device se (mem s)) = mem (snd (accept_event C device se (mem s)))"
    by (simp add: mem_def)
  then show ?thesis
    using accept_event_mem[OF ok dev] accept_event_mem[of C device se "mem s" dev] dev ok
      accept_event_indep_fst[of C device se s] by simp
qed

subsection \<open>The invariant of the books\<close>

definition earned :: "ledger_entry list \<Rightarrow> string \<Rightarrow> i64" where
  "earned es a = sum_list (map (\<lambda>e. if kind e = ''imp_earn'' \<and> credit e = a then amount_micros e else 0) es)"

definition paid_out :: "ledger_entry list \<Rightarrow> string \<Rightarrow> i64" where
  "paid_out es a = sum_list (map (\<lambda>e. if kind e = ''redeem'' \<and> debit e = a then amount_micros e else 0) es)"

definition imp_refs :: "ledger_entry list \<Rightarrow> string list" where
  "imp_refs es = map reference (filter (\<lambda>e. kind e = ''imp_earn'') es)"

lemma books_append [simp]:
  "earned (es @ fs) a = earned es a + earned fs a"
  "paid_out (es @ fs) a = paid_out es a + paid_out fs a"
  "imp_refs (es @ fs) = imp_refs es @ imp_refs fs"
  by (simp_all add: earned_def paid_out_def imp_refs_def)

lemma books_imp [simp]:
  "earned (imp_entries s acct x y r) a = (if acct = a then x else 0)"
  "paid_out (imp_entries s acct x y r) a = 0"
  "imp_refs (imp_entries s acct x y r) = [r]"
  by (simp_all add: earned_def paid_out_def imp_refs_def imp_entries_def)

definition tables_wf :: "app_state \<Rightarrow> bool" where
  "tables_wf s \<longleftrightarrow> hm_wf (devices s) \<and> hm_wf (balances s) \<and> hm_wf (impressions s)"

definition balances_ok :: "app_state \<Rightarrow> bool" where
  "balances_ok s \<longleftrightarrow>
     (\<forall>a. hm_get_or 0 (balances s) a = earned (ledger s) a - paid_out (ledger s) a
        \<and> earned (ledger s) a = 5000 * hm_get_or 0 (impressions s) a)"

definition refs_ok :: "app_state \<Rightarrow> bool" where
  "refs_ok s \<longleftrightarrow> distinct (imp_refs (ledger s)) \<and> set (imp_refs (ledger s)) \<subseteq> seen_event_ids s"

definition accounts_ok :: "app_state \<Rightarrow> bool" where
  "accounts_ok s \<longleftrightarrow>
     (\<forall>device dev. hm_get (devices s) device = Some dev \<longrightarrow> dv_account_id dev = account_of device)"

definition books_ok :: "app_state \<Rightarrow> bool" where
  "books_ok s \<longleftrightarrow> tables_wf s \<and> balances_ok s \<and> refs_ok s \<and> accounts_ok s"

lemmas books_defs = books_ok_def tables_wf_def balances_ok_def refs_ok_def accounts_ok_def

lemma books_ok_mem [simp]: "books_ok (mem s) = books_ok s"
  by (simp add: books_defs)

lemma books_ok_with_db [simp]: "books_ok (with_db f s) = books_ok s"
  by (simp add: books_defs)

lemma seeded_books [wf_intros]: "books_ok seeded"
  by (simp add: books_defs seeded_def earned_def paid_out_def imp_refs_def hm_get_or_def)

lemma advance_credit_books:
  assumes "books_ok s" "ev_id e \<notin> seen_event_ids s"
  shows "books_ok (credit_imps acct e (advance C device e s))"
proof -
  have adv: "books_ok (advance C device e s)"
    using assms(1) by (auto simp: books_defs advance_def maps wf_intros)
  show ?thesis
  proof (cases "imp_count e = 0")
    case True
    with adv show ?thesis by (simp add: credit_imps_def)
  next
    case False
    have "ev_id e \<notin> set (imp_refs (ledger s))"
      using assms by (auto simp: books_defs)
    with False adv show ?thesis
      by (auto simp: books_defs credit_imps_def maps wf_intros advance_def algebra_simps)
  qed
qed

lemma register_mem:
  "mem (snd (register C peer hs req now s)) =
     (case decode_pubkey C (rq_pubkey req) of
        None \<Rightarrow> mem s
      | Some pubkey \<Rightarrow> (mem s)\<lparr>
          devices := hm_insert (rq_device_id req)
            \<lparr>dv_pubkey = pubkey, dv_account_id = account_of (rq_device_id req),
             dv_chain_head = GENESIS_PREV, dv_ctr_head = None\<rparr> (devices s),
          balances := hm_or_insert (account_of (rq_device_id req)) 0 (balances s),
          impressions := hm_or_insert (account_of (rq_device_id req)) 0 (impressions s)\<rparr>)"
  by (simp add: register_def Let_def split: option.split)

lemma register_books [wf_intros]:
  assumes "books_ok s" shows "books_ok (snd (register C peer hs req now s))"
proof -
  have "books_ok (mem (snd (register C peer hs req now s)))"
    unfolding register_mem using assms
    by (auto simp: books_defs maps wf_intros split: option.split)
  then show ?thesis by simp
qed

lemma accept_books [wf_intros]:
  assumes "books_ok s" shows "books_ok (snd (accept_event C device se s))"
proof (cases "fst (accept_event C device se s)")
  case (Inl r)
  with assms accept_event_reject show ?thesis by metis
next
  case (Inr u)
  then have ok: "fst (accept_event C device se s) = Inr ()" by simp
  then obtain dev where "hm_get (devices s) device = Some dev" "ev_id (se_e se) \<notin> seen_event_ids s"
    by (auto simp: accept_event_iff acceptable_def)
  then have "books_ok (mem (snd (accept_event C device se s)))"
    using accept_event_mem[OF ok] advance_credit_books[of "mem s"] assms by simp
  then show ?thesis by simp
qed

lemma books_ok_tally [simp]:
  "books_ok (s\<lparr>accepted := x\<rparr>) = books_ok s" "books_ok (s\<lparr>rejected := x\<rparr>) = books_ok s"
  "books_ok (s\<lparr>clicks := x\<rparr>) = books_ok s" "books_ok (s\<lparr>creatives := y\<rparr>) = books_ok s"
  by (simp_all add: books_defs)

lemma ingest_one_books:
  "books_ok (snd rs) \<Longrightarrow> books_ok (snd (ingest_one C device se rs))"
  using accept_books[of "snd rs" C device se]
  by (auto simp: ingest_one_def Let_def split: prod.splits sum.splits)

lemma ingest_books [wf_intros]: "books_ok s \<Longrightarrow> books_ok (snd (ingest C device ses s))"
proof -
  have "books_ok (snd rs) \<Longrightarrow> books_ok (snd (fold (ingest_one C device) ses rs))" for rs
    by (induction ses arbitrary: rs) (simp_all add: ingest_one_books)
  then show "books_ok s \<Longrightarrow> books_ok (snd (ingest C device ses s))" by (simp add: ingest_def)
qed

lemma click_books [wf_intros]: "books_ok s \<Longrightarrow> books_ok (snd (click code s))"
  by (simp add: click_def Let_def split: option.split)

subsection \<open>Redemptions\<close>

lemma redeem_mem:
  assumes "fst (redeem order rail amount s) = Inr r"
  obtains acct available where
    "max_by_value (order (balances s)) = Some (acct, available)" "0 < sint available"
    "ro_amount r = (case amount of Some a \<Rightarrow> if 0 < sint a then a else available | None \<Rightarrow> available)"
    "sint (ro_amount r) \<le> sint available"
    "ro_id r = ''rdm_'' @ show_nat (unat (next_redemption_id s))" "ro_rail r = rail"
    "ro_remaining r = hm_get_or 0 (balances s) acct - ro_amount r"
    "mem (snd (redeem order rail amount s)) = (mem s)\<lparr>next_redemption_id := next_redemption_id s + 1,
        ledger := ledger s @ [\<lparr>debit = acct, credit = ''acct:payout'', amount_micros = ro_amount r,
          kind = ''redeem'', reference = ro_id r\<rparr>],
        balances := hm_insert acct (hm_get_or 0 (balances s) acct - ro_amount r) (balances s),
        redemptions := redemptions s @ [\<lparr>rdm_id = ro_id r, rdm_amount = ro_amount r, rdm_rail = rail\<rparr>]\<rparr>"
  using assms unfolding redeem_def
  by (auto simp: Let_def maps split: option.splits if_splits prod.splits)

lemma redeem_err: "fst (redeem order rail amount s) = Inl e \<Longrightarrow> snd (redeem order rail amount s) = s"
  unfolding redeem_def by (auto simp: Let_def split: option.splits if_splits prod.splits)

lemma redeem_books [wf_intros]:
  assumes "books_ok s" shows "books_ok (snd (redeem order rail amount s))"
proof (cases "fst (redeem order rail amount s)")
  case (Inl e)
  with assms redeem_err show ?thesis by metis
next
  case (Inr r)
  then obtain acct where
    m: "mem (snd (redeem order rail amount s)) = (mem s)\<lparr>next_redemption_id := next_redemption_id s + 1,
        ledger := ledger s @ [\<lparr>debit = acct, credit = ''acct:payout'', amount_micros = ro_amount r,
          kind = ''redeem'', reference = ro_id r\<rparr>],
        balances := hm_insert acct (hm_get_or 0 (balances s) acct - ro_amount r) (balances s),
        redemptions := redemptions s @ [\<lparr>rdm_id = ro_id r, rdm_amount = ro_amount r, rdm_rail = rail\<rparr>]\<rparr>"
    by (rule redeem_mem)
  have "books_ok (mem (snd (redeem order rail amount s)))"
    unfolding m using assms
    by (auto simp: books_defs maps wf_intros earned_def paid_out_def imp_refs_def)
  then show ?thesis by simp
qed

lemma max_by_value_None [simp]: "max_by_value xs = None \<longleftrightarrow> xs = []"
  by (cases xs) (auto split: option.split)

lemma max_by_value_Some:
  "max_by_value xs = Some x \<Longrightarrow> x \<in> set xs \<and> (\<forall>y \<in> set xs. sint (snd y) \<le> sint (snd x))"
proof (induction xs arbitrary: x)
  case Nil
  then show ?case by simp
next
  case (Cons z zs)
  then show ?case
    by (cases "max_by_value zs") (auto split: if_splits intro: order_trans)
qed

subsection \<open>The events accepted in a batch\<close>

fun accepted_events :: "crypto \<Rightarrow> string \<Rightarrow> signed_event list \<Rightarrow> app_state \<Rightarrow> event list" where
  "accepted_events C device [] s = []"
| "accepted_events C device (se # ses) s =
     (if acceptable C device se s
      then se_e se # accepted_events C device ses (snd (accept_event C device se s))
      else accepted_events C device ses s)"

lemma accept_event_device:
  assumes "acceptable C device se s" "hm_get (devices s) device = Some dev"
  shows "hm_get (devices (snd (accept_event C device se s))) device =
           Some (dev\<lparr>dv_chain_head := chain_next C (canonical_bytes C (se_e se)),
                     dv_ctr_head := Some (ev_ctr (se_e se))\<rparr>)"
proof -
  have "fst (accept_event C device se s) = Inr ()" using assms(1) by (simp add: accept_event_iff)
  from accept_event_mem[OF this assms(2)]
  have "devices (snd (accept_event C device se s))
      = devices (credit_imps (dv_account_id dev) (se_e se) (advance C device (se_e se) (mem s)))"
    by (metis mem_fields(1))
  then show ?thesis using assms(2) by (simp add: credit_imps_def advance_def maps)
qed

lemma accepted_linked:
  "hm_get (devices s) device = Some dev \<Longrightarrow>
     linked C (dv_chain_head dev) (expected_ctr dev) (accepted_events C device ses s)"
proof (induction ses arbitrary: s dev)
  case Nil
  then show ?case by simp
next
  case (Cons se ses)
  show ?case
  proof (cases "acceptable C device se s")
    case True
    from Cons.IH[OF accept_event_device[OF True Cons.prems]] True Cons.prems
    show ?thesis by (auto simp: acceptable_def expected_ctr_def)
  next
    case False
    with Cons show ?thesis by simp
  qed
qed

lemma ingest_one_state:
  "devices (snd (ingest_one C device se (r, s))) = devices (snd (accept_event C device se s))"
  "seen_event_ids (snd (ingest_one C device se (r, s))) = seen_event_ids (snd (accept_event C device se s))"
  by (auto simp: ingest_one_def Let_def split: prod.split sum.split)

lemma accept_event_fields:
  assumes "fst (accept_event C device se s) = Inr ()" "hm_get (devices s) device = Some dev"
  shows "devices (snd (accept_event C device se s)) = hm_modify device
      (\<lambda>d. d\<lparr>dv_chain_head := chain_next C (canonical_bytes C (se_e se)),
             dv_ctr_head := Some (ev_ctr (se_e se))\<rparr>) (devices s)"
    and "seen_event_ids (snd (accept_event C device se s)) = insert (ev_id (se_e se)) (seen_event_ids s)"
proof -
  let ?X = "snd (accept_event C device se s)"
  have "devices ?X = devices (mem ?X)" "seen_event_ids ?X = seen_event_ids (mem ?X)" by simp_all
  then show "devices ?X = hm_modify device
      (\<lambda>d. d\<lparr>dv_chain_head := chain_next C (canonical_bytes C (se_e se)),
             dv_ctr_head := Some (ev_ctr (se_e se))\<rparr>) (devices s)"
    "seen_event_ids ?X = insert (ev_id (se_e se)) (seen_event_ids s)"
    unfolding accept_event_mem[OF assms] by (simp_all add: credit_imps_def advance_def)
qed

lemma accepted_events_cong:
  "devices s = devices s' \<Longrightarrow> seen_event_ids s = seen_event_ids s' \<Longrightarrow>
     accepted_events C device ses s = accepted_events C device ses s'"
proof (induction ses arbitrary: s s')
  case Nil
  then show ?case by simp
next
  case (Cons se ses)
  have acc: "acceptable C device se s \<longleftrightarrow> acceptable C device se s'"
    using Cons.prems by (simp add: acceptable_def)
  show ?case
  proof (cases "acceptable C device se s")
    case True
    then obtain dev where dev: "hm_get (devices s) device = Some dev" by (auto simp: acceptable_def)
    have ok: "fst (accept_event C device se s) = Inr ()" "fst (accept_event C device se s') = Inr ()"
      using True acc by (simp_all add: accept_event_iff)
    have dev': "hm_get (devices s') device = Some dev" using dev Cons.prems(1) by simp
    have "accepted_events C device ses (snd (accept_event C device se s))
        = accepted_events C device ses (snd (accept_event C device se s'))"
      by (rule Cons.IH)
        (simp_all only: accept_event_fields[OF ok(1) dev] accept_event_fields[OF ok(2) dev'] Cons.prems)
    with True acc show ?thesis by simp
  next
    case False
    with acc Cons.IH[OF Cons.prems] show ?thesis by simp
  qed
qed

text \<open>The counters of the response and of the state count the accepted and the rejected events.\<close>

lemma ingest_counts_gen:
  fixes r :: ingest_resp
  assumes "fold (ingest_one C device) ses (r, s) = (r', s')"
  shows "\<exists>k. length (accepted_events C device ses s) + k = length ses
    \<and> ir_accepted r' = ir_accepted r + of_nat (length (accepted_events C device ses s))
    \<and> ir_rejected r' = ir_rejected r + of_nat k \<and> length (ir_reasons r') = length (ir_reasons r) + k
    \<and> accepted s' = accepted s + of_nat (length (accepted_events C device ses s))
    \<and> rejected s' = rejected s + of_nat k"
  using assms
proof (induction ses arbitrary: r s)
  case Nil
  then show ?case by simp
next
  case (Cons se ses)
  obtain r1 s1 where one: "ingest_one C device se (r, s) = (r1, s1)" by force
  have IH: "fold (ingest_one C device) ses (r1, s1) = (r', s')" using Cons.prems one by simp
  have same: "accepted_events C device ses s1 = accepted_events C device ses (snd (accept_event C device se s))"
    using ingest_one_state[of C device se r s] one by (intro accepted_events_cong) simp_all
  have tally: "accepted (snd (accept_event C device se s)) = accepted s"
    "rejected (snd (accept_event C device se s)) = rejected s"
    by (auto simp: accept_event_def accrue_def Let_def split: option.split prod.split)
  show ?case
  proof (cases "acceptable C device se s")
    case True
    then have "fst (accept_event C device se s) = Inr ()" by (simp add: accept_event_iff)
    with one tally have "r1 = r\<lparr>ir_accepted := ir_accepted r + 1\<rparr>" "accepted s1 = accepted s + 1"
      "rejected s1 = rejected s"
      by (auto simp: ingest_one_def Let_def split: prod.splits sum.splits)
    with Cons.IH[OF IH] True same show ?thesis by (auto simp: algebra_simps)
  next
    case False
    then obtain m where m: "fst (accept_event C device se s) = Inl m"
      using accept_event_iff[of C device se s] by (cases "fst (accept_event C device se s)") auto
    with one tally have "r1 = r\<lparr>ir_rejected := ir_rejected r + 1, ir_reasons := ir_reasons r @ [m]\<rparr>"
      "accepted s1 = accepted s" "rejected s1 = rejected s + 1"
      by (auto simp: ingest_one_def Let_def split: prod.splits sum.splits)
    moreover obtain k where
      "length (accepted_events C device ses s) + k = length ses
       \<and> ir_accepted r' = ir_accepted r1 + of_nat (length (accepted_events C device ses s))
       \<and> ir_rejected r' = ir_rejected r1 + of_nat k \<and> length (ir_reasons r') = length (ir_reasons r1) + k
       \<and> accepted s' = accepted s1 + of_nat (length (accepted_events C device ses s))
       \<and> rejected s' = rejected s1 + of_nat k"
      using Cons.IH[OF IH] same accept_event_reject[OF m] by auto
    ultimately show ?thesis using False by (intro exI[of _ "Suc k"]) (simp add: algebra_simps)
  qed
qed

subsection \<open>The sum of the books\<close>

lemma ledger_net_step:
  assumes "hm_wf net"
  shows "hm_wf (hm_insert (credit e) y (hm_insert (debit e) x net))"
  using assms by (simp add: wf_intros)

lemma ledger_net_sum:
  "hm_wf (ledger_net es) \<and> hm_sum (ledger_net es) = 0"
proof -
  let ?step = "\<lambda>e net. let net1 = hm_insert (debit e) (hm_get_or 0 net (debit e) - amount_micros e) net
     in hm_insert (credit e) (hm_get_or 0 net1 (credit e) + amount_micros e) net1"
  have "hm_wf net \<Longrightarrow> hm_wf (fold ?step es net) \<and> hm_sum (fold ?step es net) = hm_sum net" for net
  proof (induction es arbitrary: net)
    case Nil
    then show ?case by simp
  next
    case (Cons e es)
    have wf: "hm_wf (?step e net)" using Cons.prems by (simp add: Let_def wf_intros)
    have "hm_sum (?step e net) = hm_sum net"
      using Cons.prems by (simp add: Let_def hm_sum_insert wf_intros)
    with Cons.IH[OF wf] show ?case by simp
  qed
  from this[of "[]"] show ?thesis by (simp add: ledger_net_def hm_sum_def)
qed

subsection \<open>Independence of the connection\<close>

lemma ingest_one_indep:
  "fst (ingest_one C device se (r, mem s)) = fst (ingest_one C device se (r, s))
   \<and> snd (ingest_one C device se (r, mem s)) = mem (snd (ingest_one C device se (r, s)))"
proof (cases "accept_event C device se s")
  case (Pair res s1)
  have m: "accept_event C device se (mem s) = (res, mem s1)"
    using Pair accept_event_indep_fst[of C device se s] accept_event_indep[of C device se s]
    by (simp add: prod_eq_iff)
  have none: "with_db f (mem s1\<lparr>accepted := x\<rparr>) = mem s1\<lparr>accepted := x\<rparr>"
    "with_db f (mem s1\<lparr>rejected := x\<rparr>) = mem s1\<lparr>rejected := x\<rparr>" for f x
    by (simp_all add: with_db_def mem_def)
  show ?thesis
    using m Pair by (cases res) (simp_all add: ingest_one_def Let_def none)
qed

lemma ingest_indep:
  "fst (ingest C device ses (mem s)) = fst (ingest C device ses s)
   \<and> snd (ingest C device ses (mem s)) = mem (snd (ingest C device ses s))"
proof -
  have "fst (fold (ingest_one C device) ses (r, mem s)) = fst (fold (ingest_one C device) ses (r, s))
   \<and> snd (fold (ingest_one C device) ses (r, mem s)) = mem (snd (fold (ingest_one C device) ses (r, s)))" for r
  proof (induction ses arbitrary: r s)
    case Nil
    then show ?case by simp
  next
    case (Cons se ses)
    obtain r1 s1 where one: "ingest_one C device se (r, s) = (r1, s1)" by force
    then have "ingest_one C device se (r, mem s) = (r1, mem s1)"
      using ingest_one_indep[of C device se r s] by (simp add: prod_eq_iff)
    with one Cons.IH[of r1 s1] show ?case by simp
  qed
  then show ?thesis by (simp add: ingest_def)
qed

lemma register_indep:
  "fst (register C peer hs req now (mem s)) = fst (register C peer hs req now s)
   \<and> snd (register C peer hs req now (mem s)) = mem (snd (register C peer hs req now s))"
  by (simp add: register_def Let_def with_db_def mem_def split: option.split)

lemma click_indep:
  "fst (click code (mem s)) = fst (click code s) \<and> snd (click code (mem s)) = mem (snd (click code s))"
  by (simp add: click_def Let_def with_db_def mem_def split: option.split)

lemma redeem_indep:
  "fst (redeem order rail amount (mem s)) = fst (redeem order rail amount s)
   \<and> snd (redeem order rail amount (mem s)) = mem (snd (redeem order rail amount s))"
  unfolding redeem_def
  by (simp add: Let_def with_db_def mem_def split: option.split prod.split)

subsection \<open>A concrete server\<close>

definition demo_key :: device_key where "demo_key = from_seed ''k''"

definition demo_req :: "device_key \<Rightarrow> register_req" where
  "demo_req k = \<lparr>rq_device_id = ''d1'',
     rq_pubkey = hex_encode demo_crypto (verifying_key demo_crypto k),
     rq_os = None, rq_arch = None, rq_hostname = None, rq_version = None, rq_email = None\<rparr>"

definition demo_server :: app_state where
  "demo_server = snd (register demo_crypto ''127.0.0.1'' [] (demo_req demo_key) 0 seeded)"

definition demo_signed :: "event \<Rightarrow> signed_event" where
  "demo_signed e = \<lparr>se_e = e, se_s = hex_encode demo_crypto (key_sign demo_crypto demo_key e)\<rparr>"

lemma verifying_key_decodes:
  "hex_ok C \<Longrightarrow> ed25519_ok C \<Longrightarrow>
     decode_pubkey C (hex_encode C (verifying_key C k)) = Some (verifying_key C k)"
  by (rule decode_pubkey_encode) (simp_all add: verifying_key_def ed25519_ok_def)

lemma register_device:
  assumes "decode_pubkey C (rq_pubkey req) = Some pk"
  shows "hm_get (devices (snd (register C peer hs req now s))) (rq_device_id req) =
     Some \<lparr>dv_pubkey = pk, dv_account_id = account_of (rq_device_id req),
           dv_chain_head = GENESIS_PREV, dv_ctr_head = None\<rparr>"
  using assms by (simp add: register_def Let_def maps)

lemma demo_device:
  "hm_get (devices demo_server) ''d1'' = Some \<lparr>dv_pubkey = verifying_key demo_crypto demo_key,
     dv_account_id = account_of ''d1'', dv_chain_head = GENESIS_PREV, dv_ctr_head = None\<rparr>"
  using register_device[of demo_crypto "demo_req demo_key" "verifying_key demo_crypto demo_key"
      "''127.0.0.1''" "[]" 0 seeded]
  by (simp add: demo_server_def demo_req_def verifying_key_decodes)

lemma demo_seen [simp]: "seen_event_ids demo_server = {}"
  by (simp add: demo_server_def register_def Let_def seeded_def split: option.split)

lemma signed_acceptable:
  assumes "hex_ok C" "ed25519_ok C" "hm_get (devices s) device = Some dev"
    and "dv_pubkey dev = verifying_key C k" "ev_prev e = dv_chain_head dev" "ev_ctr e = expected_ctr dev"
    and "ev_id e \<notin> seen_event_ids s"
  shows "acceptable C device \<lparr>se_e = e, se_s = hex_encode C (key_sign C k e)\<rparr> s"
  using assms key_sign_verifies[of C e k] by (simp add: acceptable_def hex_ok_def)

lemma demo_acceptable: "acceptable demo_crypto ''d1'' (demo_signed demo_event) demo_server"
  unfolding demo_signed_def
  by (rule signed_acceptable[OF _ _ demo_device]) (simp_all add: demo_event_def expected_ctr_def)

subsection \<open>Properties\<close>

text \<open>The device is registered with \<open>dev\<close>, and the signature is hex and verifies under its key.\<close>

definition verified :: "crypto \<Rightarrow> string \<Rightarrow> signed_event \<Rightarrow> app_state \<Rightarrow> device_rec \<Rightarrow> bool" where
  "verified C device se s dev \<longleftrightarrow> hm_get (devices s) device = Some dev
     \<and> (case hex_decode C (se_s se) of None \<Rightarrow> False | Some sig \<Rightarrow> key_verify C (se_e se) sig (dv_pubkey dev))"

text \<open>
  C2: the network trusts nothing the client says. An event is accepted exactly when its device
  is registered, its signature is hex and verifies under the registered key, it continues the
  device's chain and counter, and its id has not been seen. Each other case is refused with its own
  reason, the first check that fails naming it, and a refused event changes nothing.
\<close>

theorem event_accepted_iff_verified:
  "(fst (accept_event C device se s) = Inr () \<longleftrightarrow> (\<exists>dev. verified C device se s dev \<and> ev_prev (se_e se) = dv_chain_head dev
        \<and> ev_ctr (se_e se) = (case dv_ctr_head dev of Some c \<Rightarrow> c + 1 | None \<Rightarrow> 0)
        \<and> ev_id (se_e se) \<notin> seen_event_ids s))
    \<and> (fst (accept_event C device se s) = Inl ''unknown device'' \<longleftrightarrow> hm_get (devices s) device = None)
    \<and> (fst (accept_event C device se s) = Inl ''sig not hex'' \<longleftrightarrow> hm_get (devices s) device \<noteq> None \<and> hex_decode C (se_s se) = None)
    \<and> (fst (accept_event C device se s) = Inl ''bad signature'' \<longleftrightarrow> (\<exists>dev sig. hm_get (devices s) device = Some dev
        \<and> hex_decode C (se_s se) = Some sig \<and> \<not> key_verify C (se_e se) sig (dv_pubkey dev)))
    \<and> (fst (accept_event C device se s) = Inl ''chain fork/gap'' \<longleftrightarrow> (\<exists>dev. verified C device se s dev
        \<and> ev_prev (se_e se) \<noteq> dv_chain_head dev))
    \<and> (fst (accept_event C device se s) = Inl ''ctr not monotonic'' \<longleftrightarrow> (\<exists>dev. verified C device se s dev
        \<and> ev_prev (se_e se) = dv_chain_head dev
        \<and> ev_ctr (se_e se) \<noteq> (case dv_ctr_head dev of Some c \<Rightarrow> c + 1 | None \<Rightarrow> 0)))
    \<and> (fst (accept_event C device se s) = Inl ''duplicate event id'' \<longleftrightarrow> (\<exists>dev. verified C device se s dev
        \<and> ev_prev (se_e se) = dv_chain_head dev
        \<and> ev_ctr (se_e se) = (case dv_ctr_head dev of Some c \<Rightarrow> c + 1 | None \<Rightarrow> 0)
        \<and> ev_id (se_e se) \<in> seen_event_ids s))
    \<and> (fst (accept_event C device se s) = Inr () \<or> snd (accept_event C device se s) = s)"
  by (cases "hm_get (devices s) device"; cases "hex_decode C (se_s se)")
    (simp_all add: accept_event_def verified_def Let_def split: prod.split)

text \<open>
  C25: what an accepted event does to the books: the device's head moves to the event, its id is
  recorded, and for an impression event the device's account, and no other, gains 5000 micros and
  one impression for each of its \<^verbatim>\<open>n\<close>, with one pair of ledger rows.
\<close>

theorem accepted_event_effect:
  assumes "fst (accept_event C device se s) = Inr ()" "hm_get (devices s) device = Some dev"
    and "e = se_e se" "s' = snd (accept_event C device se s)" "acct = dv_account_id dev"
  shows "hm_get (devices s') = (hm_get (devices s))(device \<mapsto>
           dev\<lparr>dv_chain_head := chain_next C (canonical_bytes C e), dv_ctr_head := Some (ev_ctr e)\<rparr>)
    \<and> seen_event_ids s' = insert (ev_id e) (seen_event_ids s)
    \<and> hm_get_or 0 (balances s') = (hm_get_or 0 (balances s))
         (acct := hm_get_or 0 (balances s) acct + 5000 * imp_count e)
    \<and> hm_get_or 0 (impressions s') = (hm_get_or 0 (impressions s))
         (acct := hm_get_or 0 (impressions s) acct + imp_count e)
    \<and> ledger s' = ledger s @ (if imp_count e = 0 then [] else
         imp_entries s acct (5000 * imp_count e) (5000 * imp_count e) (ev_id e))"
proof -
  have m: "mem s' = credit_imps acct e (advance C device e (mem s))"
    unfolding assms(3,4,5) by (rule accept_event_mem[OF assms(1,2)])
  have d: "devices s' = hm_modify device
      (\<lambda>d. d\<lparr>dv_chain_head := chain_next C (canonical_bytes C e), dv_ctr_head := Some (ev_ctr e)\<rparr>)
      (devices s)" and i: "seen_event_ids s' = insert (ev_id e) (seen_event_ids s)"
    unfolding assms(3,4) using accept_event_fields[OF assms(1,2)] by simp_all
  have b: "balances s' = balances (credit_imps acct e (advance C device e (mem s)))"
    "impressions s' = impressions (credit_imps acct e (advance C device e (mem s)))"
    "ledger s' = ledger (credit_imps acct e (advance C device e (mem s)))"
    by (simp_all add: m [symmetric])
  show ?thesis
    unfolding d i b using assms(2)
    by (simp add: credit_imps_def advance_def maps imp_entries_def)
qed

lemma accepted_event_effect_witness:
  "hm_get_or 0 (balances (snd (accept_event demo_crypto ''d1'' (demo_signed demo_event) demo_server)))
     ''acct:d1'' = hm_get_or 0 (balances demo_server) ''acct:d1'' + 30000"
proof -
  have "fst (accept_event demo_crypto ''d1'' (demo_signed demo_event) demo_server) = Inr ()"
    by (simp only: accept_event_iff demo_acceptable)
  from accepted_event_effect[OF this demo_device refl refl refl] show ?thesis
    by (simp add: demo_signed_def demo_event_def imp_count_def account_of_def)
qed

text \<open>An event that is rejected, for whatever reason, leaves the whole state as it was.\<close>

lemma rejected_event_no_effect:
  assumes "fst (accept_event C device se s) = Inl reason"
  shows "snd (accept_event C device se s) = s"
  using assms by (rule accept_event_reject)

lemma rejected_event_no_effect_witness:
  "snd (accept_event demo_crypto ''d2'' (demo_signed demo_event) demo_server) = demo_server"
proof (rule rejected_event_no_effect)
  have "hm_get (devices demo_server) ''d2'' = None"
    by (simp add: demo_server_def register_def Let_def maps demo_req_def verifying_key_decodes seeded_def)
  then show "fst (accept_event demo_crypto ''d2'' (demo_signed demo_event) demo_server)
      = Inl ''unknown device''"
    by (simp add: accept_event_def)
qed

text \<open>
  Whatever a client posts in whatever order, the events of a batch that are accepted form a
  linked history that continues the device's chain and counter.
\<close>

lemma accepted_events_form_a_chain:
  assumes "hm_get (devices s) device = Some dev"
  shows "linked C (dv_chain_head dev) (case dv_ctr_head dev of Some c \<Rightarrow> c + 1 | None \<Rightarrow> 0)
           (accepted_events C device ses s)"
  using accepted_linked[OF assms] by (simp add: expected_ctr_def)

lemma accepted_events_form_a_chain_witness:
  "linked demo_crypto GENESIS_PREV 0
     (accepted_events demo_crypto ''d1'' [demo_signed demo_event, demo_signed demo_event] demo_server)"
  using accepted_events_form_a_chain[OF demo_device, of demo_crypto
      "[demo_signed demo_event, demo_signed demo_event]"]
  by (simp del: accepted_events.simps)

text \<open>
  The response of an ingest and the server's tallies account for every event of the batch:
  each is either one of the accepted events or has one reason in the list of rejections.
\<close>

lemma ingest_accounts_for_every_event:
  "\<exists>k. length (accepted_events C device ses s) + k = length ses
    \<and> ir_accepted (fst (ingest C device ses s)) = of_nat (length (accepted_events C device ses s))
    \<and> ir_rejected (fst (ingest C device ses s)) = of_nat k
    \<and> length (ir_reasons (fst (ingest C device ses s))) = k
    \<and> accepted (snd (ingest C device ses s)) = accepted s + of_nat (length (accepted_events C device ses s))
    \<and> rejected (snd (ingest C device ses s)) = rejected s + of_nat k"
  using ingest_counts_gen[of C device ses "\<lparr>ir_accepted = 0, ir_rejected = 0, ir_reasons = []\<rparr>" s
      "fst (ingest C device ses s)" "snd (ingest C device ses s)"]
  by (simp add: ingest_def)

lemma sint_minus_le:
  fixes a b :: i64
  assumes "0 < sint a" "sint a \<le> sint b"
  shows "sint (b - a) = sint b - sint a"
proof -
  have "b - a = word_of_int (sint b - sint a)" by simp
  moreover have "sint b < 2 ^ 63"
    using sint_less[of b] by simp
  ultimately show ?thesis using assms by (simp add: sint_small del: of_int_diff)
qed

text \<open>
  C24: a successful redemption takes a positive amount, no more than the balance of the account it
  is taken from, which is one of the largest; what remains is the difference and is not negative;
  only that account's balance changes. In whatever order the map of balances is iterated.
\<close>

theorem redeem_within_balance:
  assumes "set (order (balances s)) = set (balances s)" "hm_wf (balances s)"
    and "fst (redeem order rail amount s) = Inr r"
  shows "\<exists>acct bal. hm_get (balances s) acct = Some bal
    \<and> (\<forall>x \<in> set (balances s). sint (snd x) \<le> sint bal)
    \<and> 0 < sint (ro_amount r) \<and> sint (ro_amount r) \<le> sint bal
    \<and> sint (ro_remaining r) = sint bal - sint (ro_amount r)
    \<and> hm_get_or 0 (balances (snd (redeem order rail amount s)))
        = (hm_get_or 0 (balances s))(acct := ro_remaining r)"
proof -
  obtain acct bal where r:
    "max_by_value (order (balances s)) = Some (acct, bal)" "0 < sint bal"
    "ro_amount r = (case amount of Some a \<Rightarrow> if 0 < sint a then a else bal | None \<Rightarrow> bal)"
    "sint (ro_amount r) \<le> sint bal"
    "ro_remaining r = hm_get_or 0 (balances s) acct - ro_amount r"
    and m: "mem (snd (redeem order rail amount s)) = (mem s)\<lparr>next_redemption_id := next_redemption_id s + 1,
        ledger := ledger s @ [\<lparr>debit = acct, credit = ''acct:payout'', amount_micros = ro_amount r,
          kind = ''redeem'', reference = ro_id r\<rparr>],
        balances := hm_insert acct (hm_get_or 0 (balances s) acct - ro_amount r) (balances s),
        redemptions := redemptions s @ [\<lparr>rdm_id = ro_id r, rdm_amount = ro_amount r, rdm_rail = rail\<rparr>]\<rparr>"
    using assms(3) by (rule redeem_mem)
  have "(acct, bal) \<in> set (balances s)" and mx: "\<forall>x \<in> set (balances s). sint (snd x) \<le> sint bal"
    using max_by_value_Some[OF r(1)] assms(1) by auto
  then have get: "hm_get (balances s) acct = Some bal"
    using assms(2) by (simp add: hm_get_def hm_wf_def)
  then have bal: "hm_get_or 0 (balances s) acct = bal" by (simp add: hm_get_or_def)
  have pos: "0 < sint (ro_amount r)" using r(2,3) by (auto split: option.splits if_splits)
  have "balances (snd (redeem order rail amount s)) = balances (mem (snd (redeem order rail amount s)))"
    by simp
  also have "\<dots> = hm_insert acct (bal - ro_amount r) (balances s)" by (simp add: m bal)
  finally show ?thesis
    using get mx pos r(4,5) bal sint_minus_le[OF pos r(4)]
    by (intro exI[of _ acct] exI[of _ bal]) (simp add: maps)
qed

definition funded :: app_state where
  "funded = seeded\<lparr>balances := [(''acct:d1'', 30000), (''acct:d2'', 5000)]\<rparr>"

lemma redeem_within_balance_witness:
  "\<exists>acct bal. hm_get (balances funded) acct = Some bal
    \<and> (\<forall>x \<in> set (balances funded). sint (snd x) \<le> sint bal)
    \<and> 0 < sint (10000 :: i64) \<and> sint (10000 :: i64) \<le> sint bal
    \<and> sint (20000 :: i64) = sint bal - sint (10000 :: i64)
    \<and> hm_get_or 0 (balances (snd (redeem rev ''usdc'' (Some 10000) funded)))
        = (hm_get_or 0 (balances funded))(acct := 20000)"
proof -
  have p: "set (rev (balances funded)) = set (balances funded)" "hm_wf (balances funded)"
    by (simp only: set_rev) (simp add: funded_def hm_wf_def)
  have "fst (redeem rev ''usdc'' (Some 10000) funded) = Inr \<lparr>ro_id = ''rdm_'' @ show_nat 1,
      ro_amount = 10000, ro_rail = ''usdc'', ro_status = ''queued'', ro_remaining = 20000\<rparr>"
    by (simp add: redeem_def funded_def seeded_def Let_def hm_get_or_def hm_get_def hm_insert_def)
  from redeem_within_balance[OF p this] show ?thesis by simp
qed

text \<open>
  C38: in the handlers of devices and money (registration, ingest, click, redemption) a write that
  fails never shows. Whatever faults the connection has, each of them responds as a server without a
  database does, and leaves the memory such a server has.
\<close>

theorem disk_faults_invisible:
  "fst (register C peer hs req now s) = fst (register C peer hs req now (mem s))
   \<and> mem (snd (register C peer hs req now s)) = snd (register C peer hs req now (mem s))
   \<and> fst (ingest C device ses s) = fst (ingest C device ses (mem s))
   \<and> mem (snd (ingest C device ses s)) = snd (ingest C device ses (mem s))
   \<and> fst (click code s) = fst (click code (mem s))
   \<and> mem (snd (click code s)) = snd (click code (mem s))
   \<and> fst (redeem order rail amount s) = fst (redeem order rail amount (mem s))
   \<and> mem (snd (redeem order rail amount s)) = snd (redeem order rail amount (mem s))"
  using register_indep[of C peer hs req now s] ingest_indep[of C device ses s]
    click_indep[of code s] redeem_indep[of order rail amount s] by simp

text \<open>
  The check that the ledger sums to zero cannot fail: it holds of every list of entries, as
  each entry is subtracted once and added once.
\<close>

lemma ledger_check_is_vacuous: "ledger_sums_to_zero s"
  using ledger_net_sum by (simp add: ledger_sums_to_zero_def)

text \<open>
  C39: registration is not authenticated. A second request for a device id that is in use replaces
  its key and resets its chain and counter, and from then on events under the new key are
  accepted for the same account, while the old key's next event is not.
\<close>

theorem register_replaces_device:
  assumes "hm_get (devices s) (rq_device_id req) = Some old" "decode_pubkey C (rq_pubkey req) = Some pk"
    and "s' = snd (register C peer hs req now s)"
  shows "hm_get (devices s') (rq_device_id req) = Some \<lparr>dv_pubkey = pk,
      dv_account_id = account_of (rq_device_id req), dv_chain_head = GENESIS_PREV, dv_ctr_head = None\<rparr>
    \<and> hm_get_or 0 (balances s') = hm_get_or 0 (balances s)
    \<and> (ev_prev (se_e se) \<noteq> GENESIS_PREV \<longrightarrow>
        fst (accept_event C (rq_device_id req) se s') \<noteq> Inr ())"
proof -
  have dev: "hm_get (devices s') (rq_device_id req) = Some \<lparr>dv_pubkey = pk,
      dv_account_id = account_of (rq_device_id req), dv_chain_head = GENESIS_PREV, dv_ctr_head = None\<rparr>"
    unfolding assms(3) by (rule register_device[OF assms(2)])
  moreover have "hm_get_or 0 (balances s') = hm_get_or 0 (balances s)"
    using assms(2,3) by (simp add: register_def Let_def maps)
  moreover have "ev_prev (se_e se) \<noteq> GENESIS_PREV \<Longrightarrow>
      fst (accept_event C (rq_device_id req) se s') \<noteq> Inr ()"
    using dev by (auto simp: accept_event_iff acceptable_def)
  ultimately show ?thesis by blast
qed

lemma register_replaces_device_witness:
  "hm_get (devices (snd (register demo_crypto ''10.0.0.1'' [] (demo_req (from_seed ''thief'')) 1 demo_server)))
     ''d1'' = Some \<lparr>dv_pubkey = verifying_key demo_crypto (from_seed ''thief''),
       dv_account_id = ''acct:d1'', dv_chain_head = GENESIS_PREV, dv_ctr_head = None\<rparr>"
proof -
  have r: "rq_device_id (demo_req k) = ''d1''" for k by (simp add: demo_req_def)
  have "decode_pubkey demo_crypto (rq_pubkey (demo_req (from_seed ''thief'')))
      = Some (verifying_key demo_crypto (from_seed ''thief''))"
    by (simp add: demo_req_def verifying_key_decodes)
  from register_replaces_device[OF _ this refl, of demo_server] demo_device
  show ?thesis by (simp add: r account_of_def)
qed

end
