(* ===== verification/Server_Durability.thy ===== *)
theory Server_Durability
  imports Server_Books
begin

section \<open>The store is a copy of the memory, and a restart restores it\<close>

text \<open>
  While no write fails, the tables mirror the memory after every handler (\<open>mirrors\<close>), and opening
  a server on such tables rebuilds the memory: devices with their heads, seen ids, ledger,
  balances, impressions, counters, redemptions and the next redemption id.
\<close>

definition dev_row :: "crypto \<Rightarrow> string \<times> device_rec \<Rightarrow> string \<times> string \<times> string \<times> string \<times> i64 option" where
  "dev_row C x = (fst x, hex_encode C (dv_pubkey (snd x)), dv_account_id (snd x),
     dv_chain_head (snd x), dv_ctr_head (snd x))"

definition rdm_row :: "redemption \<Rightarrow> string \<times> i64 \<times> string" where
  "rdm_row r = (rdm_id r, rdm_amount r, rdm_rail r)"

definition mirrors :: "crypto \<Rightarrow> app_state \<Rightarrow> conn \<Rightarrow> bool" where
  "mirrors C s c \<longleftrightarrow> healthy c
     \<and> t_devices c = map (dev_row C) (devices s)
     \<and> fst ` set (t_seen c) = seen_event_ids s
     \<and> t_ledger c = ledger s
     \<and> t_balances c = balances s \<and> t_impressions c = impressions s
     \<and> hm_get_or 0 (t_kv c) ''clicks'' = clicks s
     \<and> hm_get_or 0 (t_kv c) ''accepted'' = accepted s
     \<and> hm_get_or 0 (t_kv c) ''rejected'' = rejected s
     \<and> t_redemptions c = map rdm_row (redemptions s)"

definition synced :: "crypto \<Rightarrow> app_state \<Rightarrow> bool" where
  "synced C s \<longleftrightarrow> (case db s of None \<Rightarrow> False | Some c \<Rightarrow> mirrors C s c)"

text \<open>What the memory satisfies so that its copy can be read back.\<close>

definition keys_ok :: "crypto \<Rightarrow> app_state \<Rightarrow> bool" where
  "keys_ok C s \<longleftrightarrow> list_all (\<lambda>x. length (dv_pubkey (snd x)) = 32 \<and> key_valid C (dv_pubkey (snd x))) (devices s)"

definition rdm_name :: "nat \<Rightarrow> string" where
  "rdm_name k = ''rdm_'' @ show_nat k"

definition redemptions_ok :: "app_state \<Rightarrow> bool" where
  "redemptions_ok s \<longleftrightarrow>
     map rdm_id (redemptions s) = map rdm_name [1..<Suc (length (redemptions s))]
     \<and> unat (next_redemption_id s) = Suc (length (redemptions s))"

definition durable :: "crypto \<Rightarrow> app_state \<Rightarrow> bool" where
  "durable C s \<longleftrightarrow> synced C s \<and> tables_wf s \<and> keys_ok C s \<and> redemptions_ok s"

lemmas durable_defs = durable_def synced_def mirrors_def tables_wf_def keys_ok_def redemptions_ok_def

subsection \<open>Tables under a row conversion\<close>

lemma hm_insert_map:
  "map (\<lambda>x. (fst x, f (snd x))) (hm_insert k v m) = hm_insert k (f v) (map (\<lambda>x. (fst x, f (snd x))) m)"
  by (induction m) (auto simp: hm_insert_def)

lemma dev_row_alt: "dev_row C = (\<lambda>x. (fst x, (\<lambda>d. (hex_encode C (dv_pubkey d), dv_account_id d,
     dv_chain_head d, dv_ctr_head d)) (snd x)))"
  by (simp add: dev_row_def fun_eq_iff)

lemma dev_rows_insert:
  "map (dev_row C) (hm_insert d r m) =
     hm_insert d (hex_encode C (dv_pubkey r), dv_account_id r, dv_chain_head r, dv_ctr_head r)
       (map (dev_row C) m)"
  unfolding dev_row_alt by (rule hm_insert_map)

lemma dev_rows_get:
  "hm_get (map (dev_row C) m) d =
     map_option (\<lambda>r. (hex_encode C (dv_pubkey r), dv_account_id r, dv_chain_head r, dv_ctr_head r)) (hm_get m d)"
  unfolding hm_get_def by (induction m) (auto simp: dev_row_def)

lemma dev_rows_modify:
  "map (dev_row C) (hm_modify d (\<lambda>r. r\<lparr>dv_chain_head := h, dv_ctr_head := ctr\<rparr>) m) =
     hm_modify d (\<lambda>(hex, acct, _, _). (hex, acct, h, ctr)) (map (dev_row C) m)"
  by (simp add: hm_modify_def dev_rows_get dev_rows_insert split: option.split)

lemma list_all_hm_insert:
  "list_all (\<lambda>x. P (snd x)) m \<Longrightarrow> P v \<Longrightarrow> list_all (\<lambda>x. P (snd x)) (hm_insert k v m)"
  by (induction m) (auto simp: hm_insert_def)

lemma list_all_hm_get: "list_all (\<lambda>x. P (snd x)) m \<Longrightarrow> hm_get m k = Some v \<Longrightarrow> P v"
  by (auto simp: hm_get_def list_all_iff dest!: map_of_SomeD)

lemma fold_insert_ledger:
  "healthy c \<Longrightarrow> fold insert_ledger es c = c\<lparr>t_ledger := t_ledger c @ es\<rparr>"
  by (induction es arbitrary: c) (simp_all add: tables)

lemma hm_or_insert_dom: "fst ` set (hm_or_insert k v m) = insert k (fst ` set m)"
proof -
  have "set (map fst (hm_insert k v m)) = insert k (fst ` set m)"
    by (auto simp: hm_keys_insert hm_get_def map_of_eq_None_iff split: if_splits)
  then show ?thesis
    by (cases "hm_get m k") (auto simp: hm_or_insert_def hm_get_def dest!: map_of_SomeD intro: rev_image_eqI)
qed

subsection \<open>The handlers keep the copy\<close>

lemma synced_obtain:
  assumes "synced C s" obtains c where "db s = Some c" "mirrors C s c" "healthy c"
  using assms by (auto simp: synced_def mirrors_def split: option.splits)

lemma durable_obtain:
  assumes "durable C s" obtains c where "db s = Some c" "mirrors C s c" "healthy c"
  using assms synced_obtain[of C s] unfolding durable_def by blast

lemma upsert_device_meta_healthy:
  "healthy c \<Longrightarrow> \<exists>m. upsert_device_meta row c = c\<lparr>t_device_meta := m\<rparr>"
  by (auto simp: upsert_device_meta_def log_err_def)

lemma keys_ok_insert:
  "keys_ok C s \<Longrightarrow> length (dv_pubkey r) = 32 \<Longrightarrow> key_valid C (dv_pubkey r) \<Longrightarrow>
     keys_ok C (s\<lparr>devices := hm_insert d r (devices s)\<rparr>)"
  unfolding keys_ok_def
  using list_all_hm_insert[of "\<lambda>r. length (dv_pubkey r) = 32 \<and> key_valid C (dv_pubkey r)" "devices s" r d]
  by simp

lemma keys_ok_get:
  "keys_ok C s \<Longrightarrow> hm_get (devices s) d = Some r \<Longrightarrow> length (dv_pubkey r) = 32 \<and> key_valid C (dv_pubkey r)"
  unfolding keys_ok_def
  using list_all_hm_get[of "\<lambda>r. length (dv_pubkey r) = 32 \<and> key_valid C (dv_pubkey r)" "devices s" d r]
  by simp

lemma register_durable [wf_intros]:
  assumes "durable C s" shows "durable C (snd (register C peer hs req now s))"
proof (cases "decode_pubkey C (rq_pubkey req)")
  case None
  with assms show ?thesis by (simp add: register_def Let_def)
next
  case (Some pk)
  obtain c where c: "db s = Some c" "mirrors C s c" "healthy c"
    using assms durable_obtain by metis
  let ?d = "rq_device_id req" and ?a = "account_of (rq_device_id req)"
  let ?r = "\<lparr>dv_pubkey = pk, dv_account_id = ?a, dv_chain_head = GENESIS_PREV, dv_ctr_head = None\<rparr>"
  let ?row = "\<lparr>dm_device_id = ?d, dm_ip = Some (client_ip hs peer), dm_os = opt_str (rq_os req),
     dm_arch = opt_str (rq_arch req), dm_hostname = opt_str (rq_hostname req),
     dm_version = opt_str (rq_version req), dm_email = opt_str (rq_email req),
     dm_first_seen = now, dm_last_seen = now\<rparr>"
  let ?c1 = "c\<lparr>t_devices := hm_insert ?d (hex_encode C pk, ?a, GENESIS_PREV, None) (t_devices c),
     t_balances := hm_or_insert ?a 0 (t_balances c),
     t_impressions := hm_or_insert ?a 0 (t_impressions c)\<rparr>"
  let ?s1 = "s\<lparr>devices := hm_insert ?d ?r (devices s), balances := hm_or_insert ?a 0 (balances s),
     impressions := hm_or_insert ?a 0 (impressions s)\<rparr>"
  have pk: "length pk = 32" "key_valid C pk" using decode_pubkey_SomeD[OF Some] by simp_all
  have "healthy ?c1" using c(3) by simp
  then obtain m where m: "upsert_device_meta ?row ?c1 = ?c1\<lparr>t_device_meta := m\<rparr>"
    using upsert_device_meta_healthy by blast
  have "snd (register C peer hs req now s) = ?s1\<lparr>db := Some (upsert_device_meta ?row ?c1)\<rparr>"
    using Some c(1,3) by (simp add: register_def Let_def with_db_def tables)
  then have "snd (register C peer hs req now s) = ?s1\<lparr>db := Some (?c1\<lparr>t_device_meta := m\<rparr>)\<rparr>"
    by (simp only: m)
  moreover have "mirrors C (?s1\<lparr>db := Some (?c1\<lparr>t_device_meta := m\<rparr>)\<rparr>) (?c1\<lparr>t_device_meta := m\<rparr>)"
    using c(2) by (simp add: mirrors_def dev_rows_insert)
  moreover have "tables_wf ?s1 \<and> redemptions_ok ?s1"
    using assms by (simp add: durable_defs wf_intros)
  moreover have "keys_ok C ?s1"
    using keys_ok_insert[of C s ?r ?d] assms pk by (simp add: durable_def keys_ok_def)
  ultimately show ?thesis
    by (simp add: durable_def synced_def tables_wf_def redemptions_ok_def keys_ok_def)
qed

lemma advance_tables:
  assumes "mirrors C s c"
  shows "map (dev_row C) (devices (advance C device e s)) = hm_modify device
     (\<lambda>(hex, acct, _, _). (hex, acct, chain_next C (canonical_bytes C e), Some (ev_ctr e))) (t_devices c)"
  using assms by (simp add: mirrors_def advance_def dev_rows_modify)

lemma durable_with_db:
  assumes "durable C s" "db s = Some c" "tables_wf s'" "keys_ok C s'" "redemptions_ok s'"
    and "db s' = Some c" "mirrors C s' (f c)"
  shows "durable C (with_db f s')"
proof -
  have "with_db f s' = s'\<lparr>db := Some (f c)\<rparr>" using assms(6) by (simp add: with_db_def)
  with assms show ?thesis
    by (simp add: durable_def synced_def tables_wf_def keys_ok_def redemptions_ok_def mirrors_def)
qed

lemma accept_durable [wf_intros]:
  assumes "durable C s" shows "durable C (snd (accept_event C device se s))"
proof (cases "fst (accept_event C device se s)")
  case (Inl r)
  with assms accept_event_reject show ?thesis by metis
next
  case (Inr u)
  then obtain dev where ok: "acceptable C device se s" and dev: "hm_get (devices s) device = Some dev"
    by (metis acceptable_def accept_event_iff old.unit.exhaust)
  obtain c where c: "db s = Some c" "mirrors C s c" "healthy c"
    using assms durable_obtain by metis
  define s1 where "s1 = advance C device (se_e se) s"
  define s2 where "s2 = credit_imps (dv_account_id dev) (se_e se) s1"
  obtain rows earned where a: "accrue (dv_account_id dev) (se_e se) s1 = (rows, earned, s2)"
    by (metis accrue_state prod.collapse s2_def)
  define f where "f = ((case earned of None \<Rightarrow> id | Some acct \<Rightarrow>
       set_impressions acct (hm_get_or 0 (impressions s2) acct)
       \<circ> set_balance acct (hm_get_or 0 (balances s2) acct))
     \<circ> fold insert_ledger rows \<circ> insert_seen_event (ev_id (se_e se))
     \<circ> update_device_head device (chain_next C (canonical_bytes C (se_e se))) (Some (ev_ctr (se_e se))))"
  have acc: "snd (accept_event C device se s) = with_db f s2"
    using ok dev a unfolding f_def s1_def advance_def
    by (auto simp: accept_event_def acceptable_def expected_ctr_def Let_def)
  have "mirrors C s2 (f c)"
  proof (cases "imp_count (se_e se) = 0")
    case True
    then have "rows = []" "earned = None" "s2 = s1" using a by (simp_all add: accrue_none)
    then show ?thesis
      using c(2,3) advance_tables[OF c(2), of device "se_e se"]
      by (simp add: mirrors_def f_def tables hm_or_insert_dom s1_def) (simp add: advance_def)
  next
    case False
    let ?n = "imp_count (se_e se)" and ?acct = "dv_account_id dev"
    have r: "rows = imp_entries s1 ?acct (5000 * ?n) (5000 * ?n) (ev_id (se_e se))"
      "earned = Some ?acct"
      "s2 = s1\<lparr>ledger := ledger s1 @ rows,
         balances := hm_insert ?acct (hm_get_or 0 (balances s1) ?acct + 5000 * ?n) (balances s1),
         impressions := hm_insert ?acct (hm_get_or 0 (impressions s1) ?acct + ?n) (impressions s1)\<rparr>"
      using a unfolding accrue_some[OF False] Let_def by auto
    have t: "map (dev_row C) (devices s1) = hm_modify device (\<lambda>(hex, acct, _, _).
        (hex, acct, chain_next C (canonical_bytes C (se_e se)), Some (ev_ctr (se_e se)))) (t_devices c)"
      unfolding s1_def by (rule advance_tables[OF c(2)])
    have e: "seen_event_ids s1 = insert (ev_id (se_e se)) (seen_event_ids s)" "ledger s1 = ledger s"
      "balances s1 = balances s" "impressions s1 = impressions s" "clicks s1 = clicks s"
      "accepted s1 = accepted s" "rejected s1 = rejected s" "redemptions s1 = redemptions s"
      by (simp_all add: s1_def advance_def)
    show ?thesis
      using c(2,3) by (simp add: mirrors_def f_def r(2,3) t e tables hm_or_insert_dom maps fold_insert_ledger)
  qed
  moreover have "tables_wf s2" "redemptions_ok s2" "db s2 = Some c"
    using assms c(1) by (auto simp: durable_defs s2_def s1_def credit_imps_def advance_def wf_intros)
  moreover have "keys_ok C s2"
    using assms keys_ok_insert[of C s "dev\<lparr>dv_chain_head := chain_next C (canonical_bytes C (se_e se)),
        dv_ctr_head := Some (ev_ctr (se_e se))\<rparr>" device] keys_ok_get[OF _ dev, of C]
    by (simp add: durable_def s2_def s1_def credit_imps_def advance_def keys_ok_def hm_modify_def dev)
  ultimately show ?thesis
    unfolding acc using durable_with_db[OF assms c(1)] by blast
qed

lemma mirrors_kv:
  assumes "mirrors C s c"
  shows "mirrors C (s\<lparr>clicks := x\<rparr>) (kv_set ''clicks'' x c)"
    and "mirrors C (s\<lparr>accepted := x\<rparr>) (kv_set ''accepted'' x c)"
    and "mirrors C (s\<lparr>rejected := x\<rparr>) (kv_set ''rejected'' x c)"
proof -
  have h: "healthy c" using assms by (simp add: mirrors_def)
  from assms show "mirrors C (s\<lparr>clicks := x\<rparr>) (kv_set ''clicks'' x c)"
    "mirrors C (s\<lparr>accepted := x\<rparr>) (kv_set ''accepted'' x c)"
    "mirrors C (s\<lparr>rejected := x\<rparr>) (kv_set ''rejected'' x c)"
    by (simp_all add: mirrors_def write_through(1)[OF h] maps)
qed

lemma kv_durable:
  assumes "durable C s"
  shows "durable C (with_db (kv_set ''clicks'' x) (s\<lparr>clicks := x\<rparr>))"
    and "durable C (with_db (kv_set ''accepted'' x) (s\<lparr>accepted := x\<rparr>))"
    and "durable C (with_db (kv_set ''rejected'' x) (s\<lparr>rejected := x\<rparr>))"
proof -
  obtain c where c: "db s = Some c" "mirrors C s c"
    using assms durable_obtain by metis
  note parts = assms[unfolded durable_def tables_wf_def keys_ok_def redemptions_ok_def]
  show "durable C (with_db (kv_set ''clicks'' x) (s\<lparr>clicks := x\<rparr>))"
    "durable C (with_db (kv_set ''accepted'' x) (s\<lparr>accepted := x\<rparr>))"
    "durable C (with_db (kv_set ''rejected'' x) (s\<lparr>rejected := x\<rparr>))"
    by (rule durable_with_db[OF assms c(1)];
      use parts c(1) mirrors_kv[OF c(2)] in \<open>simp add: tables_wf_def keys_ok_def redemptions_ok_def\<close>)+
qed

lemma click_durable [wf_intros]:
  assumes "durable C s" shows "durable C (snd (click code s))"
  using assms kv_durable(1)[OF assms] by (simp add: click_def Let_def split: option.split)

lemma ingest_one_durable:
  assumes "durable C (snd rs)" shows "durable C (snd (ingest_one C device se rs))"
proof -
  obtain r s where rs: "rs = (r, s)" by (cases rs)
  obtain res s1 where a: "accept_event C device se s = (res, s1)" by force
  then have "durable C s1" using accept_durable[of C s device se] assms by (simp add: rs)
  then show ?thesis
    using a by (cases res) (simp_all add: rs ingest_one_def Let_def kv_durable)
qed

lemma ingest_durable [wf_intros]: "durable C s \<Longrightarrow> durable C (snd (ingest C device ses s))"
proof -
  have "durable C (snd rs) \<Longrightarrow> durable C (snd (fold (ingest_one C device) ses rs))" for rs
    by (induction ses arbitrary: rs) (simp_all add: ingest_one_durable)
  then show "durable C s \<Longrightarrow> durable C (snd (ingest C device ses s))" by (simp add: ingest_def)
qed

subsection \<open>Redemption ids\<close>

lemma rdm_name_inject [simp]: "rdm_name a = rdm_name b \<longleftrightarrow> a = b"
  by (simp add: rdm_name_def)

lemma redemption_fresh:
  assumes "redemptions_ok s"
  shows "rdm_name (unat (next_redemption_id s)) \<notin> rdm_id ` set (redemptions s)"
proof -
  have "rdm_id ` set (redemptions s) = rdm_name ` {1..<Suc (length (redemptions s))}"
    using assms by (metis redemptions_ok_def set_map set_upt)
  moreover have "unat (next_redemption_id s) = Suc (length (redemptions s))"
    using assms by (simp add: redemptions_ok_def)
  ultimately show ?thesis by auto
qed

lemma redeem_durable [wf_intros]:
  assumes "durable C s" "Suc (length (redemptions s)) < 2 ^ 64 - 1"
  shows "durable C (snd (redeem order rail amount s))"
proof (cases "fst (redeem order rail amount s)")
  case (Inl e)
  with assms redeem_err show ?thesis by metis
next
  case (Inr r)
  obtain c where c: "db s = Some c" "mirrors C s c" "healthy c"
    using assms durable_obtain by metis
  have next_id: "unat (next_redemption_id s) = Suc (length (redemptions s))"
    using assms(1) by (simp add: durable_defs)
  obtain acct bal where mx: "max_by_value (order (balances s)) = Some (acct, bal)"
    and pos: "0 < sint bal" and le: "sint (ro_amount r) \<le> sint bal"
    and amt: "ro_amount r = (case amount of Some a \<Rightarrow> if 0 < sint a then a else bal | None \<Rightarrow> bal)"
    and rid: "ro_id r = ''rdm_'' @ show_nat (unat (next_redemption_id s))"
    using Inr by (rule redeem_mem)
  define s1 where "s1 = s\<lparr>next_redemption_id := next_redemption_id s + 1,
      ledger := ledger s @ [\<lparr>debit = acct, credit = ''acct:payout'', amount_micros = ro_amount r,
        kind = ''redeem'', reference = ro_id r\<rparr>],
      balances := hm_insert acct (hm_get_or 0 (balances s) acct - ro_amount r) (balances s),
      redemptions := redemptions s @ [\<lparr>rdm_id = ro_id r, rdm_amount = ro_amount r, rdm_rail = rail\<rparr>]\<rparr>"
  define f where "f = set_balance acct (hm_get_or 0 (balances s) acct - ro_amount r)
     \<circ> insert_redemption \<lparr>rdm_id = ro_id r, rdm_amount = ro_amount r, rdm_rail = rail\<rparr>
     \<circ> insert_ledger \<lparr>debit = acct, credit = ''acct:payout'', amount_micros = ro_amount r,
        kind = ''redeem'', reference = ro_id r\<rparr>"
  have s': "snd (redeem order rail amount s) = with_db f s1"
    unfolding redeem_def mx option.case prod.case amt [symmetric] Let_def s1_def f_def
    using pos le by (simp add: maps rid)
  have fresh: "hm_get (t_redemptions c) (ro_id r) = None"
  proof -
    have "ro_id r \<notin> fst ` set (t_redemptions c)"
      using redemption_fresh[of s] assms(1) c(2)
      by (auto simp: durable_def mirrors_def rid rdm_name_def rdm_row_def image_image)
    then show ?thesis by (simp add: hm_get_def map_of_eq_None_iff)
  qed
  have "unat (next_redemption_id s + 1) = Suc (Suc (length (redemptions s)))"
    using next_id assms(2) unat_add_lem[of "next_redemption_id s" 1] by simp
  moreover have "map rdm_id (redemptions s) @ [ro_id r] = map rdm_name [1..<Suc (Suc (length (redemptions s)))]"
    using assms(1) by (simp add: durable_defs rid next_id rdm_name_def)
  ultimately have ok: "redemptions_ok s1" by (simp add: redemptions_ok_def s1_def)
  have "mirrors C s1 (f c)"
    using c(2,3) fresh
    by (simp add: mirrors_def s1_def f_def tables hm_insert_fresh rdm_row_def)
  then show ?thesis
    unfolding s' using ok assms(1) c(1)
    by (intro durable_with_db[OF assms(1) c(1)])
      (simp_all add: durable_def tables_wf_def keys_ok_def s1_def wf_intros)
qed

subsection \<open>Reading the copy back\<close>

lemma fold_load_device:
  assumes "hex_ok C"
  shows "list_all (\<lambda>x. length (dv_pubkey (snd x)) = 32 \<and> key_valid C (dv_pubkey (snd x))) m \<Longrightarrow>
    hm_wf (acc @ m) \<Longrightarrow> fold (load_device C) (map (dev_row C) m) acc = acc @ m"
proof (induction m arbitrary: acc)
  case Nil
  then show ?case by simp
next
  case (Cons x m)
  obtain d r where x: "x = (d, r)" by (cases x)
  have "hm_get acc d = None"
    using Cons.prems(2) by (auto simp: x hm_get_def hm_wf_def map_of_eq_None_iff)
  then have "load_device C (dev_row C x) acc = acc @ [x]"
    using Cons.prems(1) assms
    by (simp add: load_device_def dev_row_def x decode_pubkey_encode hm_insert_fresh)
  with Cons show ?case by simp
qed

lemma rdm_number_name: "k < 2 ^ 64 \<Longrightarrow> rdm_id r = rdm_name k \<Longrightarrow> rdm_number r = Some (of_nat k)"
proof -
  assume "k < 2 ^ 64" "rdm_id r = rdm_name k"
  moreover have "parse_u64 (show_nat k) = Some (of_nat k)" if "k < 2 ^ 64"
    using parse_u64_show[of "of_nat k :: u64"] that by (simp add: unat_of_nat take_bit_nat_eq_self)
  moreover have "strip_prefix ''rdm_'' (rdm_name k) = Some (show_nat k)"
    unfolding rdm_name_def by (rule strip_prefix_append)
  ultimately show ?thesis by (simp add: rdm_number_def)
qed

lemma rdm_rows_back:
  "map (\<lambda>(rid, amount, rail). \<lparr>rdm_id = rid, rdm_amount = amount, rdm_rail = rail\<rparr>) (map rdm_row rs) = rs"
  by (induction rs) (simp_all add: rdm_row_def)

lemma of_nat_u64_mono: "a \<le> b \<Longrightarrow> b < 2 ^ 64 \<Longrightarrow> (of_nat a :: u64) \<le> of_nat b"
  by (simp add: word_le_nat_alt unat_of_nat take_bit_nat_eq_self)

lemma load_redemptions_rows:
  assumes "map rdm_id rs = map rdm_name [1..<Suc (length rs)]" "length rs < 2 ^ 64"
  shows "load_redemptions (map rdm_row rs) = (rs, of_nat (length rs))"
proof -
  define key where "key = (\<lambda>r. case rdm_number r of Some n \<Rightarrow> n | None \<Rightarrow> - 1)"
  have num: "rdm_number (rs ! i) = Some (of_nat (Suc i))" if "i < length rs" for i
  proof (rule rdm_number_name)
    show "Suc i < 2 ^ 64" using that assms(2) by simp
    have "rdm_id (rs ! i) = map rdm_id rs ! i" using that by simp
    also have "\<dots> = rdm_name (Suc i)" unfolding assms(1) using that by (simp del: upt_Suc)
    finally show "rdm_id (rs ! i) = rdm_name (Suc i)" .
  qed
  have "sorted (map key rs)"
    unfolding sorted_iff_nth_mono using num assms(2) by (auto simp: key_def intro!: of_nat_u64_mono simp del: of_nat_Suc)
  then have sort: "sort_key key rs = rs" by (simp add: sort_key_id_if_sorted)
  have "fold (\<lambda>r m. case rdm_number r of Some n \<Rightarrow> max m n | None \<Rightarrow> m) (take k rs) 0 = of_nat k"
    if "k \<le> length rs" for k
    using that
  proof (induction k)
    case 0
    then show ?case by simp
  next
    case (Suc k)
    then have "max (of_nat k) (of_nat (Suc k)) = (of_nat (Suc k) :: u64)"
      using assms(2) by (intro max_absorb2 of_nat_u64_mono) auto
    with Suc num[of k] show ?case by (simp add: take_Suc_conv_app_nth del: of_nat_Suc)
  qed
  from this[of "length rs"] show ?thesis
    unfolding load_redemptions_def Let_def rdm_rows_back using sort by (simp add: key_def)
qed

text \<open>The fields a restart restores.\<close>

definition same_books :: "app_state \<Rightarrow> app_state \<Rightarrow> bool" where
  "same_books s s' \<longleftrightarrow> devices s' = devices s \<and> seen_event_ids s' = seen_event_ids s
     \<and> ledger s' = ledger s \<and> balances s' = balances s \<and> impressions s' = impressions s
     \<and> clicks s' = clicks s \<and> accepted s' = accepted s \<and> rejected s' = rejected s
     \<and> redemptions s' = redemptions s \<and> next_redemption_id s' = next_redemption_id s"

lemma load_mirror:
  assumes "hex_ok C" "durable C s" "db s = Some c"
  shows "\<exists>l. load C c = (Inr l, c) \<and> same_books s (restored l)"
proof -
  have m: "mirrors C s c" "healthy c"
    using assms(2,3) durable_obtain by (metis option.inject)+
  have wf: "hm_wf (devices s)" "hm_wf (balances s)" "hm_wf (impressions s)"
    using assms(2) by (simp_all add: durable_def tables_wf_def)
  have keys: "fold (load_device C) (map (dev_row C) (devices s)) [] = devices s"
    using fold_load_device[OF assms(1), of "devices s" "[]"] assms(2) wf(1)
    by (simp add: durable_def keys_ok_def)
  have ids: "map rdm_id (redemptions s) = map rdm_name [1..<Suc (length (redemptions s))]"
    and nxt: "unat (next_redemption_id s) = Suc (length (redemptions s))"
    using assms(2) by (simp_all add: durable_def redemptions_ok_def)
  have len: "Suc (length (redemptions s)) < 2 ^ 64"
    using unsigned_less[of "next_redemption_id s"] unfolding nxt [symmetric] by simp
  then have "load_redemptions (map rdm_row (redemptions s)) = (redemptions s, of_nat (length (redemptions s)))"
    using ids by (intro load_redemptions_rows) auto
  moreover have "of_nat (length (redemptions s)) + 1 = next_redemption_id s"
  proof -
    have "next_redemption_id s = of_nat (unat (next_redemption_id s))" by simp
    then show ?thesis by (simp add: nxt add.commute)
  qed
  ultimately show ?thesis
    using m fold_hm_insert[of "[]" "balances s"] fold_hm_insert[of "[]" "impressions s"] wf
    by (simp add: load_healthy mirrors_def keys same_books_def restored_def)
qed

lemma same_books_update [simp]:
  "same_books s (s'\<lparr>creatives := a\<rparr>) = same_books s s'"
  "same_books s (s'\<lparr>admin_token := t\<rparr>) = same_books s s'" "same_books s (s'\<lparr>db := d\<rparr>) = same_books s s'"
  by (simp_all add: same_books_def)

lemma restart_restores:
  assumes "hex_ok C" "durable C s" "db s = Some c"
  shows "\<exists>s'. fst (open_state C now env c) = Inr s' \<and> same_books s s'"
proof -
  obtain l where l: "load C c = (Inr l, c)" "same_books s (restored l)"
    using load_mirror[OF assms] by blast
  have "healthy c" using assms(2,3) durable_obtain by (metis option.inject)
  with l show ?thesis
    by (simp add: open_state_def bind_r_def load_creatives_def Let_def)
qed

end
