(* ===== verification/Server_Admin.thy ===== *)
theory Server_Admin
  imports Server_Durability
begin

section \<open>The operator's handlers (spnr-server, /admin)\<close>

text \<open>
  \<^verbatim>\<open>check_admin\<close> and the four handlers behind it: listing, creating and deleting creatives, and
  listing devices. A refusal is a status and a message. Random bytes and the clock are arguments.
  Lemmas: nothing happens without the token; the serving pool is always the active rows of the
  table, so a created creative is served and a deleted one is not, also after a restart.
\<close>

type_synonym refusal = "nat \<times> string"

definition check_admin :: "app_state \<Rightarrow> headers \<Rightarrow> refusal + unit" where
  "check_admin s hs =
     (case admin_token s of
        None \<Rightarrow> Inl (503, ''admin token not configured'')
      | Some configured \<Rightarrow>
          (let presented = (case header_str hs ''x-admin-token'' of Some t \<Rightarrow> t | None \<Rightarrow> [])
           in if presented = configured then Inr () else Inl (401, ''invalid admin token'')))"

definition ALPHABET :: string where
  "ALPHABET = ''ABCDEFGHIJKLMNOPQRSTUVWXYZabcdefghijklmnopqrstuvwxyz0123456789''"

definition new_creative_id :: "crypto \<Rightarrow> bytes \<Rightarrow> string" where
  "new_creative_id C rnd = ''cr_'' @ hex_encode C (take 4 rnd)"

definition new_short_code :: "bytes \<Rightarrow> string" where
  "new_short_code rnd = map (\<lambda>b. ALPHABET ! (byte_val b mod length ALPHABET)) (take 6 rnd)"

record admin_creative =
  adc_id :: string
  adc_text :: string
  adc_url :: string
  adc_short_code :: string
  adc_advertiser :: string
  adc_active :: bool

definition to_admin :: "bool \<Rightarrow> creative \<Rightarrow> admin_creative" where
  "to_admin active c = \<lparr>adc_id = cr_id c, adc_text = cr_text c, adc_url = cr_url c,
     adc_short_code = cr_short_code c, adc_advertiser = cr_advertiser c, adc_active = active\<rparr>"

definition admin_list_creatives :: "headers \<Rightarrow> app_state \<Rightarrow> (refusal + admin_creative list) \<times> app_state" where
  "admin_list_creatives hs s =
     (case check_admin s hs of
        Inl e \<Rightarrow> (Inl e, s)
      | Inr _ \<Rightarrow>
          (case db s of
             None \<Rightarrow> (Inr (map (to_admin True) (creatives s)), s)
           | Some c \<Rightarrow>
               (case load_creatives c of
                  (Inl _, c') \<Rightarrow> (Inl (500, ''creatives store error''), s\<lparr>db := Some c'\<rparr>)
                | (Inr rows, c') \<Rightarrow>
                    (Inr (map (\<lambda>lc. to_admin (lc_active lc) (lc_creative lc)) rows), s\<lparr>db := Some c'\<rparr>))))"

record new_creative_req =
  nc_text :: string
  nc_url :: string
  nc_advertiser :: "string option"

definition advertiser_of :: "string option \<Rightarrow> string" where
  "advertiser_of a =
     (case a of
        None \<Rightarrow> ''acct:advertiser''
      | Some x \<Rightarrow> if trim x \<noteq> [] then ''acct:advertiser:'' @ trim x else ''acct:advertiser'')"

definition admin_create_creative :: "crypto \<Rightarrow> headers \<Rightarrow> bytes \<Rightarrow> bytes \<Rightarrow> new_creative_req \<Rightarrow> i64 \<Rightarrow>
    app_state \<Rightarrow> (refusal + admin_creative) \<times> app_state" where
  "admin_create_creative C hs rnd_id rnd_code req now s =
     (case check_admin s hs of
        Inl e \<Rightarrow> (Inl e, s)
      | Inr _ \<Rightarrow>
          (let txt = trim (nc_text req); url = trim (nc_url req)
           in if txt = [] \<or> url = [] then (Inl (400, ''text and url are required''), s)
              else
                (let cr = \<lparr>cr_id = new_creative_id C rnd_id, cr_text = txt, cr_url = url,
                           cr_short_code = new_short_code rnd_code,
                           cr_advertiser = advertiser_of (nc_advertiser req), cr_campaign_name = []\<rparr>;
                     s1 = with_db (insert_creative cr True now) s;
                     s2 = s1\<lparr>creatives := creatives s1 @ [cr]\<rparr>
                 in (Inr (to_admin True cr), s2))))"

definition admin_delete_creative :: "headers \<Rightarrow> string \<Rightarrow> app_state \<Rightarrow> (refusal + unit) \<times> app_state" where
  "admin_delete_creative hs cid s =
     (case check_admin s hs of
        Inl e \<Rightarrow> (Inl e, s)
      | Inr _ \<Rightarrow>
          (let (existed, s1) =
             (case db s of
                Some c \<Rightarrow> (case delete_creative cid c of (n, c') \<Rightarrow> (0 < n, s\<lparr>db := Some c'\<rparr>))
              | None \<Rightarrow> (list_ex (\<lambda>c. cr_id c = cid) (creatives s), s))
           in if \<not> existed then (Inl (404, ''creative not found''), s1)
              else (Inr (), s1\<lparr>creatives := filter (\<lambda>c. cr_id c \<noteq> cid) (creatives s1)\<rparr>)))"

record admin_device =
  add_device_id :: string
  add_email :: string
  add_ip :: string
  add_os :: string
  add_arch :: string
  add_hostname :: string
  add_version :: string
  add_impressions :: u64
  add_first_seen :: i64
  add_last_seen :: i64

definition or_default :: "string option \<Rightarrow> string" where
  "or_default x = (case x of Some s \<Rightarrow> s | None \<Rightarrow> [])"

definition admin_list_devices :: "headers \<Rightarrow> app_state \<Rightarrow> (refusal + admin_device list) \<times> app_state" where
  "admin_list_devices hs s =
     (case check_admin s hs of
        Inl e \<Rightarrow> (Inl e, s)
      | Inr _ \<Rightarrow>
          (let row = (\<lambda>r. \<lparr>add_device_id = dm_device_id r, add_email = or_default (dm_email r),
                  add_ip = or_default (dm_ip r), add_os = or_default (dm_os r),
                  add_arch = or_default (dm_arch r), add_hostname = or_default (dm_hostname r),
                  add_version = or_default (dm_version r),
                  add_impressions = hm_get_or 0 (impressions s) (account_of (dm_device_id r)),
                  add_first_seen = dm_first_seen r, add_last_seen = dm_last_seen r\<rparr>)
           in (case db s of
                 None \<Rightarrow> (Inr [], s)
               | Some c \<Rightarrow>
                   (case list_device_meta c of
                      (Inl _, c') \<Rightarrow> (Inl (500, ''devices store error''), s\<lparr>db := Some c'\<rparr>)
                    | (Inr rows, c') \<Rightarrow> (Inr (map row rows), s\<lparr>db := Some c'\<rparr>)))))"

subsection \<open>The serving pool and its table\<close>

text \<open>The pool holds the active rows of a healthy table, whose rows carry their own key.\<close>

definition active_rows :: "conn \<Rightarrow> creative set" where
  "active_rows c = {cr. \<exists>k created. hm_get (t_creatives c) k = Some (cr, True, created)}"

definition pool_ok :: "app_state \<Rightarrow> bool" where
  "pool_ok s \<longleftrightarrow> (case db s of
      None \<Rightarrow> False
    | Some c \<Rightarrow> healthy c \<and> hm_wf (t_creatives c) \<and> t_creatives c \<noteq> []
        \<and> (\<forall>k cr a created. hm_get (t_creatives c) k = Some (cr, a, created) \<longrightarrow> cr_id cr = k)
        \<and> set (creatives s) = active_rows c)"

lemma insert_creative_fresh:
  "healthy c \<Longrightarrow> hm_get (t_creatives c) (cr_id cr) = None \<Longrightarrow>
     insert_creative cr active now c = c\<lparr>t_creatives := hm_insert (cr_id cr) (cr, active, now) (t_creatives c)\<rparr>"
  by (simp add: insert_creative_def log_err_def)

lemma delete_creative_healthy:
  assumes "healthy c"
  shows "delete_creative cid c =
     (case hm_get (t_creatives c) cid of
        Some (cr, True, created) \<Rightarrow>
          (1, c\<lparr>t_creatives := hm_insert cid (cr, False, created) (t_creatives c)\<rparr>)
      | _ \<Rightarrow> (0, c))"
  using assms by (auto simp: delete_creative_def Let_def hm_modify_def split: option.split)

lemma hm_insert_not_Nil [simp]: "hm_insert k v m \<noteq> []"
  by (cases m) (auto simp: hm_insert_def)

lemma active_rows_insert:
  assumes "hm_get (t_creatives c) k = None"
  shows "active_rows (c\<lparr>t_creatives := hm_insert k (cr, True, now) (t_creatives c)\<rparr>) = insert cr (active_rows c)"
proof (intro set_eqI iffI)
  fix x assume "x \<in> insert cr (active_rows c)"
  then consider "x = cr" | k' created where "hm_get (t_creatives c) k' = Some (x, True, created)" "k' \<noteq> k"
    using assms by (auto simp: active_rows_def) (metis option.distinct(1))
  then show "x \<in> active_rows (c\<lparr>t_creatives := hm_insert k (cr, True, now) (t_creatives c)\<rparr>)"
    by cases (auto simp: active_rows_def maps)
qed (auto simp: active_rows_def maps split: if_splits)

lemma active_rows_deactivate:
  assumes "\<forall>k cr a created. hm_get (t_creatives c) k = Some (cr, a, created) \<longrightarrow> cr_id cr = k"
  shows "active_rows (c\<lparr>t_creatives := hm_insert k (cr, False, t) (t_creatives c)\<rparr>)
    = {x \<in> active_rows c. cr_id x \<noteq> k}"
proof (intro set_eqI iffI)
  fix x assume "x \<in> {x \<in> active_rows c. cr_id x \<noteq> k}"
  then obtain k' created where g: "hm_get (t_creatives c) k' = Some (x, True, created)" "cr_id x \<noteq> k"
    by (auto simp: active_rows_def)
  moreover have "cr_id x = k'" using assms g(1) by blast
  ultimately show "x \<in> active_rows (c\<lparr>t_creatives := hm_insert k (cr, False, t) (t_creatives c)\<rparr>)"
    by (auto simp: active_rows_def maps)
next
  fix x assume "x \<in> active_rows (c\<lparr>t_creatives := hm_insert k (cr, False, t) (t_creatives c)\<rparr>)"
  then obtain k' created where "hm_get (t_creatives c) k' = Some (x, True, created)" "k' \<noteq> k"
    by (auto simp: active_rows_def maps split: if_splits)
  with assms show "x \<in> {x \<in> active_rows c. cr_id x \<noteq> k}" by (auto simp: active_rows_def)
qed

lemma create_ok:
  assumes "fst (admin_create_creative C hs r1 r2 req now s) = Inr a"
  obtains cr where "a = to_admin True cr" "cr_id cr = new_creative_id C r1"
    "cr_short_code cr = new_short_code r2"
    "snd (admin_create_creative C hs r1 r2 req now s)
      = (with_db (insert_creative cr True now) s)\<lparr>creatives := creatives s @ [cr]\<rparr>"
  using assms unfolding admin_create_creative_def
  by (auto simp: Let_def split: sum.splits if_splits)

lemma create_pool:
  assumes "pool_ok s" "fst (admin_create_creative C hs r1 r2 req now s) = Inr a"
    and "\<And>c. db s = Some c \<Longrightarrow> hm_get (t_creatives c) (new_creative_id C r1) = None"
  shows "pool_ok (snd (admin_create_creative C hs r1 r2 req now s))"
proof -
  obtain cr where cr: "cr_id cr = new_creative_id C r1"
    "snd (admin_create_creative C hs r1 r2 req now s)
      = (with_db (insert_creative cr True now) s)\<lparr>creatives := creatives s @ [cr]\<rparr>"
    using assms(2) by (rule create_ok)
  obtain c where c: "db s = Some c" using assms(1) by (auto simp: pool_ok_def split: option.splits)
  have fresh: "hm_get (t_creatives c) (cr_id cr) = None" using assms(3)[OF c] cr(1) by simp
  have h: "healthy c" using assms(1) c by (simp add: pool_ok_def)
  show ?thesis
    unfolding cr(2) using assms(1) c fresh h
    by (auto simp: pool_ok_def with_db_def insert_creative_fresh maps wf_intros active_rows_insert
        split: if_splits)
qed

lemma delete_ok:
  assumes "pool_ok s" "db s = Some c" "fst (admin_delete_creative hs cid s) = Inr u"
  obtains cr created where "hm_get (t_creatives c) cid = Some (cr, True, created)"
    "snd (admin_delete_creative hs cid s) = s\<lparr>db := Some (c\<lparr>t_creatives :=
        hm_insert cid (cr, False, created) (t_creatives c)\<rparr>),
      creatives := filter (\<lambda>c. cr_id c \<noteq> cid) (creatives s)\<rparr>"
proof -
  have h: "healthy c" using assms(1,2) by (simp add: pool_ok_def)
  obtain cr created where g: "hm_get (t_creatives c) cid = Some (cr, True, created)"
    using assms(2,3) unfolding admin_delete_creative_def
    by (auto simp: delete_creative_healthy[OF h] Let_def split: sum.splits option.splits prod.splits bool.splits)
  then have "snd (admin_delete_creative hs cid s) = s\<lparr>db := Some (c\<lparr>t_creatives :=
        hm_insert cid (cr, False, created) (t_creatives c)\<rparr>),
      creatives := filter (\<lambda>c. cr_id c \<noteq> cid) (creatives s)\<rparr>"
    using assms(2,3) unfolding admin_delete_creative_def
    by (auto simp: delete_creative_healthy[OF h] Let_def split: sum.splits)
  with g that show thesis by blast
qed

lemma delete_pool:
  assumes "pool_ok s" "fst (admin_delete_creative hs cid s) = Inr u"
  shows "pool_ok (snd (admin_delete_creative hs cid s))"
proof -
  obtain c where c: "db s = Some c" using assms(1) by (auto simp: pool_ok_def split: option.splits)
  obtain cr created where d: "hm_get (t_creatives c) cid = Some (cr, True, created)"
    "snd (admin_delete_creative hs cid s) = s\<lparr>db := Some (c\<lparr>t_creatives :=
        hm_insert cid (cr, False, created) (t_creatives c)\<rparr>),
      creatives := filter (\<lambda>c. cr_id c \<noteq> cid) (creatives s)\<rparr>"
    using assms(1) c assms(2) by (rule delete_ok)
  have "cr_id cr = cid" using assms(1) c d(1) by (auto simp: pool_ok_def)
  then show ?thesis
    unfolding d(2) using assms(1) c d(1) active_rows_deactivate[of c cid cr created]
    by (auto simp: pool_ok_def maps wf_intros split: if_splits)
qed

lemma load_creatives_rows:
  assumes "healthy c" "hm_wf (t_creatives c)"
  shows "\<exists>rows. load_creatives c = (Inr rows, c) \<and> (rows = [] \<longleftrightarrow> t_creatives c = [])
    \<and> lc_creative ` set (filter lc_active rows) = active_rows c"
proof -
  let ?rows = "sort_key (\<lambda>(_, _, _, created). sint created) (sort_key fst (t_creatives c))"
  let ?lc = "\<lambda>(_, cr, active, _). \<lparr>lc_creative = cr, lc_active = active\<rparr>"
  have "load_creatives c = (Inr (map ?lc ?rows), c)"
    using assms(1) by (simp add: load_creatives_def)
  moreover have "map ?lc ?rows = [] \<longleftrightarrow> t_creatives c = []"
    by (metis (no_types, lifting) length_0_conv length_map length_sort)
  moreover have "lc_creative ` set (filter lc_active (map ?lc ?rows)) = active_rows c"
    using assms(2) by (force simp: active_rows_def hm_get_def hm_wf_def)
  ultimately show ?thesis by blast
qed

lemma restart_pool:
  assumes "pool_ok s" "db s = Some c" "load C c = (Inr l, c)" "fst (open_state C now env c) = Inr s'"
  shows "set (creatives s') = set (creatives s)"
proof -
  have c: "healthy c" "hm_wf (t_creatives c)" "t_creatives c \<noteq> []" "set (creatives s) = active_rows c"
    using assms(1,2) by (simp_all add: pool_ok_def)
  obtain rows where r: "load_creatives c = (Inr rows, c)" "rows \<noteq> []"
      "lc_creative ` set (filter lc_active rows) = active_rows c"
    using load_creatives_rows[OF c(1,2)] c(3) by blast
  with assms(3,4) c(4) show ?thesis
    by (auto simp: open_state_def bind_r_def Let_def)
qed

lemma delete_succeeds:
  assumes "pool_ok s" "check_admin s hs = Inr ()" "cr \<in> set (creatives s)"
  shows "fst (admin_delete_creative hs (cr_id cr) s) = Inr ()"
proof -
  obtain c where c: "db s = Some c" using assms(1) by (auto simp: pool_ok_def split: option.splits)
  then have h: "healthy c" and "cr \<in> active_rows c"
    and k: "\<forall>k cr a created. hm_get (t_creatives c) k = Some (cr, a, created) \<longrightarrow> cr_id cr = k"
    using assms(1,3) by (simp_all add: pool_ok_def)
  then obtain created where "hm_get (t_creatives c) (cr_id cr) = Some (cr, True, created)"
    by (auto simp: active_rows_def) blast
  then show ?thesis
    using assms(2) c by (simp add: admin_delete_creative_def delete_creative_healthy[OF h] Let_def)
qed

text \<open>
  The operator's handlers do nothing without the token: with no token configured every one of
  them answers 503, and with a missing or different token 401, and the state stays as it was.
\<close>

lemma admin_needs_token:
  assumes "presented = (case header_str hs ''x-admin-token'' of Some t \<Rightarrow> t | None \<Rightarrow> [])"
    and "admin_token s \<noteq> Some presented"
  shows "\<exists>e. e = (if admin_token s = None then (503, ''admin token not configured'')
                 else (401, ''invalid admin token''))
    \<and> admin_list_creatives hs s = (Inl e, s)
    \<and> admin_create_creative C hs r1 r2 req now s = (Inl e, s)
    \<and> admin_delete_creative hs cid s = (Inl e, s)
    \<and> admin_list_devices hs s = (Inl e, s)"
  using assms
  by (cases "admin_token s")
    (auto simp: admin_list_creatives_def admin_create_creative_def admin_delete_creative_def
      admin_list_devices_def check_admin_def Let_def)

lemma admin_needs_token_witness:
  "admin_delete_creative [(''x-admin-token'', ''wrong'')] ''cr_house_1'' (seeded\<lparr>admin_token := Some ''t''\<rparr>)
   = (Inl (401, ''invalid admin token''), seeded\<lparr>admin_token := Some ''t''\<rparr>)"
proof -
  have h: "header_str [(''x-admin-token'', ''wrong'')] ''x-admin-token'' = Some ''wrong''"
    by (simp add: header_str_def byte_val_def)
  show ?thesis
    using admin_needs_token[where hs = "[(''x-admin-token'', ''wrong'')]" and presented = "''wrong''"
      and s = "seeded\<lparr>admin_token := Some ''t''\<rparr>" and cid = "''cr_house_1''"] h by auto
qed

text \<open>
  C36: the life of a creative. Created under a fresh id it is served and listed, the table's active
  rows are still the serving pool, and so they are after its deletion, when nothing with its id is
  served any more.
\<close>

theorem creative_lifecycle:
  assumes "pool_ok s" "db s = Some c" "hm_get (t_creatives c) (new_creative_id C r1) = None"
    and "fst (admin_create_creative C hs r1 r2 req now s) = Inr a"
    and "s1 = snd (admin_create_creative C hs r1 r2 req now s)"
    and "fst (admin_delete_creative hs (adc_id a) s1) = Inr u"
    and "s2 = snd (admin_delete_creative hs (adc_id a) s1)"
  shows "pool_ok s1 \<and> adc_id a = new_creative_id C r1
    \<and> \<lparr>sc_id = adc_id a, sc_text = adc_text a, sc_short_code = adc_short_code a, sc_url = adc_url a\<rparr>
        \<in> set (snd (serve s1))
    \<and> pool_ok s2 \<and> adc_id a \<notin> sc_id ` set (snd (serve s2))"
proof -
  obtain cr where cr: "a = to_admin True cr" "cr_id cr = new_creative_id C r1"
    "s1 = (with_db (insert_creative cr True now) s)\<lparr>creatives := creatives s @ [cr]\<rparr>"
    using assms(4) unfolding assms(5) by (rule create_ok)
  have p1: "pool_ok s1"
    unfolding assms(5) using assms(2,3) by (intro create_pool[OF assms(1,4)]) simp
  then obtain c1 where c1: "db s1 = Some c1" by (auto simp: pool_ok_def split: option.splits)
  have "pool_ok s2" unfolding assms(7) by (rule delete_pool[OF p1 assms(6)])
  moreover have "creatives s2 = filter (\<lambda>c. cr_id c \<noteq> adc_id a) (creatives s1)"
    unfolding assms(7) by (rule delete_ok[OF p1 c1 assms(6)]) simp
  then have "adc_id a \<notin> sc_id ` set (snd (serve s2))"
    by (auto simp: serve_def Let_def to_serve_def)
  moreover have "to_serve cr \<in> set (snd (serve s1))"
    by (simp add: serve_def Let_def cr(3))
  ultimately show ?thesis
    using p1 cr(1,2) by (simp add: to_admin_def to_serve_def)
qed

definition demo_conn :: conn where
  "demo_conn = empty_conn\<lparr>t_creatives := map (\<lambda>cr. (cr_id cr, cr, True, 0)) house_creatives\<rparr>"

definition demo_admin :: app_state where
  "demo_admin = seeded\<lparr>admin_token := Some ''t'', db := Some demo_conn\<rparr>"

definition demo_headers :: headers where
  "demo_headers = [(''x-admin-token'', ''t'')]"

definition demo_new :: new_creative_req where
  "demo_new = \<lparr>nc_text = ''Ad'', nc_url = ''u'', nc_advertiser = None\<rparr>"

definition demo_ad :: admin_creative where
  "demo_ad = \<lparr>adc_id = ''cr_61626364'', adc_text = ''Ad'', adc_url = ''u'', adc_short_code = ''jklmno'',
     adc_advertiser = ''acct:advertiser'', adc_active = True\<rparr>"

lemma demo_admin_pool: "pool_ok demo_admin"
proof -
  have t: "t_creatives demo_conn = map (\<lambda>cr. (cr_id cr, cr, True, 0)) house_creatives"
    by (simp add: demo_conn_def)
  have wf: "hm_wf (t_creatives demo_conn)"
    by (simp add: t hm_wf_def house_creatives_def)
  have get: "hm_get (t_creatives demo_conn) k = Some row \<longleftrightarrow> (k, row) \<in> set (t_creatives demo_conn)" for k row
    using wf by (simp add: hm_get_def hm_wf_def)
  have "active_rows demo_conn = set house_creatives"
    unfolding active_rows_def get unfolding t by auto
  moreover have "\<forall>k cr a created. hm_get (t_creatives demo_conn) k = Some (cr, a, created) \<longrightarrow> cr_id cr = k"
    unfolding get unfolding t by auto
  moreover have "healthy demo_conn" "t_creatives demo_conn \<noteq> []"
    by (simp_all add: healthy_def demo_conn_def empty_conn_def house_creatives_def)
  ultimately show ?thesis
    using wf by (simp add: pool_ok_def demo_admin_def seeded_def)
qed

lemma demo_created:
  "fst (admin_create_creative demo_crypto demo_headers ''abcd'' ''abcdef'' demo_new 1 demo_admin) = Inr demo_ad"
proof -
  have "header_str demo_headers ''x-admin-token'' = Some ''t''"
    by (simp add: demo_headers_def header_str_def byte_val_def)
  then have ok: "check_admin demo_admin demo_headers = Inr ()"
    by (simp add: check_admin_def demo_admin_def)
  have "list_all solid ''Ad''" "list_all solid ''u''"
    by (auto intro!: solid_ascii simp: byte_val_def)
  then have "trim ''Ad'' = ''Ad''" "trim ''u'' = ''u''" by (simp_all only: trim_all_solid)
  moreover have "new_creative_id demo_crypto ''abcd'' = ''cr_61626364''"
    by (simp add: new_creative_id_def demo_crypto_def byte_val_def)
  moreover have "new_short_code ''abcdef'' = ''jklmno''"
    by (simp add: new_short_code_def ALPHABET_def byte_val_def)
  ultimately show ?thesis
    by (simp add: admin_create_creative_def ok Let_def demo_new_def demo_ad_def advertiser_of_def to_admin_def)
qed

lemma creative_lifecycle_witness:
  "''cr_61626364'' \<notin> sc_id ` set (snd (serve (snd (admin_delete_creative demo_headers ''cr_61626364''
     (snd (admin_create_creative demo_crypto demo_headers ''abcd'' ''abcdef'' demo_new 1 demo_admin))))))"
proof -
  let ?s1 = "snd (admin_create_creative demo_crypto demo_headers ''abcd'' ''abcdef'' demo_new 1 demo_admin)"
  have cid: "new_creative_id demo_crypto ''abcd'' = ''cr_61626364''"
    by (simp add: new_creative_id_def demo_crypto_def byte_val_def)
  have fresh: "hm_get (t_creatives demo_conn) (new_creative_id demo_crypto ''abcd'') = None"
    by (simp add: cid demo_conn_def house_creatives_def hm_get_def)
  have db: "db demo_admin = Some demo_conn" by (simp add: demo_admin_def)
  obtain cr where cr: "demo_ad = to_admin True cr"
    "?s1 = (with_db (insert_creative cr True 1) demo_admin)\<lparr>creatives := creatives demo_admin @ [cr]\<rparr>"
    using demo_created by (rule create_ok)
  have "adc_id demo_ad = cr_id cr" by (simp add: cr(1) to_admin_def)
  moreover have "check_admin ?s1 demo_headers = Inr ()"
  proof -
    have "admin_token ?s1 = Some ''t''" unfolding cr(2) by (simp add: demo_admin_def)
    moreover have "header_str demo_headers ''x-admin-token'' = Some ''t''"
      by (simp add: demo_headers_def header_str_def byte_val_def)
    ultimately show ?thesis by (simp add: check_admin_def)
  qed
  moreover have "pool_ok ?s1"
    using fresh db by (intro create_pool[OF demo_admin_pool demo_created]) simp
  ultimately have del: "fst (admin_delete_creative demo_headers (adc_id demo_ad) ?s1) = Inr ()"
    using delete_succeeds[of ?s1 demo_headers cr] by (simp add: cr(2))
  have i: "adc_id demo_ad = ''cr_61626364''" by (simp add: demo_ad_def)
  show ?thesis
    using creative_lifecycle[OF demo_admin_pool db fresh demo_created refl del refl, unfolded i]
    by (elim conjE)
qed

end
