(* ===== verification/Server_Auth.thy ===== *)
theory Server_Auth
  imports Server_Books
begin

section \<open>Accounts and sessions (spnr-server, auth handlers)\<close>

text \<open>
  Signup, login, me and logout, with the e-mail check and the bearer token. Argon2 is outside the
  repository: hashing and verifying are the fields of \<open>argon\<close>, of which \<open>argon_ok\<close> states that a
  password verifies against its own hash. Random bytes and the clock are arguments. Lemmas: a
  signed-up user is recognised until the logout and can log in with that password; a signup is not
  atomic.
\<close>

record argon =
  ar_hash :: "bytes \<Rightarrow> string \<Rightarrow> string option"
  ar_verify :: "string \<Rightarrow> string \<Rightarrow> bool"

definition argon_ok :: "argon \<Rightarrow> bool" where
  "argon_ok A \<longleftrightarrow> (\<forall>salt p h. ar_hash A salt p = Some h \<longrightarrow> ar_verify A p h)"

record auth_req =
  aq_email :: string
  aq_password :: string

record auth_resp =
  as_token :: string
  as_account_id :: string
  as_email :: string

type_synonym auth_refusal = "nat \<times> string"

definition email_looks_valid :: "string \<Rightarrow> bool" where
  "email_looks_valid email =
     (case split_once CHR ''@'' email of
        Some (local_part, domain) \<Rightarrow>
          local_part \<noteq> [] \<and> str_contains ''.'' domain
          \<and> \<not> starts_with ''.'' domain \<and> \<not> ends_with ''.'' domain
      | None \<Rightarrow> False)"

definition new_token :: "crypto \<Rightarrow> bytes \<Rightarrow> string" where
  "new_token C rnd = hex_encode C (take 32 rnd)"

definition short_id :: "crypto \<Rightarrow> bytes \<Rightarrow> string" where
  "short_id C rnd = hex_encode C (take 8 rnd)"

definition bearer_token :: "headers \<Rightarrow> string option" where
  "bearer_token hs =
     (case header_str hs ''authorization'' of
        None \<Rightarrow> None
      | Some raw \<Rightarrow>
          (case (case strip_prefix ''Bearer '' raw of
                   Some t \<Rightarrow> Some t | None \<Rightarrow> strip_prefix ''bearer '' raw) of
             None \<Rightarrow> None
           | Some t \<Rightarrow> if trim t = [] then None else Some (trim t)))"

fun is_unique_violation :: "sql_error \<Rightarrow> bool" where
  "is_unique_violation ConstraintViolation = True"
| "is_unique_violation OtherError = False"

abbreviation store_error :: auth_refusal where
  "store_error \<equiv> (500, ''auth store error'')"

definition signup :: "argon \<Rightarrow> crypto \<Rightarrow> bytes \<Rightarrow> bytes \<Rightarrow> bytes \<Rightarrow> i64 \<Rightarrow> auth_req \<Rightarrow> app_state \<Rightarrow>
    (auth_refusal + auth_resp) \<times> app_state" where
  "signup A C rnd_salt rnd_id rnd_token now req s =
     (let email = trim (aq_email req)
      in if \<not> email_looks_valid email then (Inl (400, ''invalid email''), s)
         else if length (aq_password req) < 8 then
           (Inl (400, ''password must be at least 8 characters''), s)
         else (case db s of
             None \<Rightarrow> (Inl (503, ''auth store unavailable''), s)
           | Some c \<Rightarrow>
               (case find_account_by_email email c of
                  (Inl _, c1) \<Rightarrow> (Inl store_error, s\<lparr>db := Some c1\<rparr>)
                | (Inr (Some _), c1) \<Rightarrow> (Inl (409, ''email already registered''), s\<lparr>db := Some c1\<rparr>)
                | (Inr None, c1) \<Rightarrow>
                    (case ar_hash A rnd_salt (aq_password req) of
                       None \<Rightarrow> (Inl (500, ''could not hash password''), s\<lparr>db := Some c1\<rparr>)
                     | Some phc \<Rightarrow>
                         (let account_id = ''acct:user:'' @ short_id C rnd_id;
                              token = new_token C rnd_token
                          in (case insert_account account_id email phc c1 of
                                (Inl e, c2) \<Rightarrow>
                                  (Inl (if is_unique_violation e then (409, ''email already registered'')
                                        else store_error), s\<lparr>db := Some c2\<rparr>)
                              | (Inr _, c2) \<Rightarrow>
                                  (case insert_session token account_id now c2 of
                                     (Inl _, c3) \<Rightarrow> (Inl store_error, s\<lparr>db := Some c3\<rparr>)
                                   | (Inr _, c3) \<Rightarrow>
                                       (Inr \<lparr>as_token = token, as_account_id = account_id, as_email = email\<rparr>,
                                        s\<lparr>db := Some c3\<rparr>))))))))"

definition login :: "argon \<Rightarrow> crypto \<Rightarrow> bytes \<Rightarrow> i64 \<Rightarrow> auth_req \<Rightarrow> app_state \<Rightarrow>
    (auth_refusal + auth_resp) \<times> app_state" where
  "login A C rnd_token now req s =
     (let email = trim (aq_email req)
      in (case db s of
            None \<Rightarrow> (Inl (503, ''auth store unavailable''), s)
          | Some c \<Rightarrow>
              (case find_account_by_email email c of
                 (Inl _, c1) \<Rightarrow> (Inl store_error, s\<lparr>db := Some c1\<rparr>)
               | (Inr None, c1) \<Rightarrow> (Inl (401, ''invalid credentials''), s\<lparr>db := Some c1\<rparr>)
               | (Inr (Some account), c1) \<Rightarrow>
                   if \<not> ar_verify A (aq_password req) (ac_password_phc account)
                   then (Inl (401, ''invalid credentials''), s\<lparr>db := Some c1\<rparr>)
                   else
                     (let token = new_token C rnd_token
                      in (case insert_session token (ac_id account) now c1 of
                            (Inl _, c2) \<Rightarrow> (Inl store_error, s\<lparr>db := Some c2\<rparr>)
                          | (Inr _, c2) \<Rightarrow>
                              (Inr \<lparr>as_token = token, as_account_id = ac_id account,
                                    as_email = ac_email account\<rparr>, s\<lparr>db := Some c2\<rparr>))))))"

definition me :: "headers \<Rightarrow> app_state \<Rightarrow> (auth_refusal + string \<times> string) \<times> app_state" where
  "me hs s =
     (case bearer_token hs of
        None \<Rightarrow> (Inl (401, ''missing token''), s)
      | Some token \<Rightarrow>
          (case db s of
             None \<Rightarrow> (Inl (503, ''auth store unavailable''), s)
           | Some c \<Rightarrow>
               (case find_session token c of
                  (Inl _, c1) \<Rightarrow> (Inl store_error, s\<lparr>db := Some c1\<rparr>)
                | (Inr None, c1) \<Rightarrow> (Inl (401, ''invalid token''), s\<lparr>db := Some c1\<rparr>)
                | (Inr (Some account_id), c1) \<Rightarrow>
                    (case find_account_by_id account_id c1 of
                       (Inl _, c2) \<Rightarrow> (Inl store_error, s\<lparr>db := Some c2\<rparr>)
                     | (Inr None, c2) \<Rightarrow> (Inl (401, ''invalid token''), s\<lparr>db := Some c2\<rparr>)
                     | (Inr (Some a), c2) \<Rightarrow> (Inr (ac_id a, ac_email a), s\<lparr>db := Some c2\<rparr>)))))"

definition logout :: "headers \<Rightarrow> app_state \<Rightarrow> (auth_refusal + unit) \<times> app_state" where
  "logout hs s =
     (case bearer_token hs of
        None \<Rightarrow> (Inl (401, ''missing token''), s)
      | Some token \<Rightarrow>
          (case db s of
             None \<Rightarrow> (Inl (503, ''auth store unavailable''), s)
           | Some c \<Rightarrow>
               (case delete_session token c of
                  (Inl _, c1) \<Rightarrow> (Inl store_error, s\<lparr>db := Some c1\<rparr>)
                | (Inr _, c1) \<Rightarrow> (Inr (), s\<lparr>db := Some c1\<rparr>))))"

subsection \<open>What a statement does to the tables\<close>

lemma query_tables:
  "query q c = (r, c') \<Longrightarrow> \<exists>fs. c' = c\<lparr>faults := fs\<rparr>"
  by (auto simp: query_def Let_def split: list.splits bool.splits)

lemma execute_cases:
  assumes "execute stmt c = (r, c')"
  obtains (failed) fs e where "r = Inl e" "c' = c\<lparr>faults := fs\<rparr>"
    | (effect) fs where "r = Inr ()" "stmt (c\<lparr>faults := fs\<rparr>) = Inr c'"
  using assms by (auto simp: execute_def Let_def split: list.splits bool.splits sum.splits)

subsection \<open>A session from signup to logout\<close>

lemma find_snoc: "\<not> list_ex P xs \<Longrightarrow> P x \<Longrightarrow> find P (xs @ [x]) = Some x"
  by (induction xs) auto

lemma auth_tables:
  assumes "healthy c"
  shows "find_account_by_email e c = (Inr (find (\<lambda>a. ac_email a = e) (t_accounts c)), c)"
    and "find_account_by_id i c = (Inr (find (\<lambda>a. ac_id a = i) (t_accounts c)), c)"
    and "find_session t c = (Inr (map_option fst (hm_get (t_sessions c) t)), c)"
    and "delete_session t c = (Inr (), c\<lparr>t_sessions := hm_remove t (t_sessions c)\<rparr>)"
    and "insert_session t a n c = (case hm_get (t_sessions c) t of
           Some _ \<Rightarrow> (Inl ConstraintViolation, c)
         | None \<Rightarrow> (Inr (), c\<lparr>t_sessions := hm_insert t (a, n) (t_sessions c)\<rparr>))"
    and "insert_account i m p c =
          (if list_ex (\<lambda>a. ac_id a = i \<or> ac_email a = m) (t_accounts c) then (Inl ConstraintViolation, c)
           else (Inr (), c\<lparr>t_accounts := t_accounts c @ [\<lparr>ac_id = i, ac_email = m, ac_password_phc = p\<rparr>]\<rparr>))"
  using assms
  by (simp_all add: find_account_by_email_def find_account_by_id_def find_session_def delete_session_def
      insert_session_def insert_account_def split: option.split)

lemma signup_ok:
  assumes "db s = Some c" "healthy c" "fst (signup A C r1 r2 r3 now req s) = Inr r"
  obtains phc where "ar_hash A r1 (aq_password req) = Some phc"
    "as_email r = trim (aq_email req)" "as_token r = new_token C r3"
    "\<not> list_ex (\<lambda>a. ac_id a = as_account_id r \<or> ac_email a = as_email r) (t_accounts c)"
    "hm_get (t_sessions c) (as_token r) = None"
    "snd (signup A C r1 r2 r3 now req s) = s\<lparr>db := Some (c\<lparr>t_accounts := t_accounts c @
        [\<lparr>ac_id = as_account_id r, ac_email = as_email r, ac_password_phc = phc\<rparr>],
      t_sessions := hm_insert (as_token r) (as_account_id r, now) (t_sessions c)\<rparr>)\<rparr>"
proof -
  let ?e = "trim (aq_email req)" and ?i = "''acct:user:'' @ short_id C r2" and ?t = "new_token C r3"
  note S = signup_def[of A C r1 r2 r3 now req s, unfolded Let_def assms(1) option.case]
  have v: "email_looks_valid ?e"
  proof (rule ccontr)
    assume "\<not> email_looks_valid ?e"
    with assms(3) show False unfolding S by simp
  qed
  have w: "\<not> length (aq_password req) < 8"
  proof
    assume "length (aq_password req) < 8"
    with assms(3) v show False unfolding S by simp
  qed
  note S1 = S[unfolded if_not_P[OF w] eqTrueI[OF v] not_True_eq_False if_False auth_tables(1)[OF assms(2)]
      prod.case sum.case]
  have n: "find (\<lambda>a. ac_email a = ?e) (t_accounts c) = None"
    using assms(3) unfolding S1 by (cases "find (\<lambda>a. ac_email a = ?e) (t_accounts c)") simp_all
  obtain phc where phc: "ar_hash A r1 (aq_password req) = Some phc"
    using assms(3) unfolding S1 n option.case by (cases "ar_hash A r1 (aq_password req)") simp_all
  note S2 = S1[unfolded n option.case phc auth_tables(6)[OF assms(2)]]
  have fresh: "\<not> list_ex (\<lambda>a. ac_id a = ?i \<or> ac_email a = ?e) (t_accounts c)"
  proof
    assume "list_ex (\<lambda>a. ac_id a = ?i \<or> ac_email a = ?e) (t_accounts c)"
    with assms(3) show False unfolding S2 by simp
  qed
  let ?c1 = "c\<lparr>t_accounts := t_accounts c @ [\<lparr>ac_id = ?i, ac_email = ?e, ac_password_phc = phc\<rparr>]\<rparr>"
  have "healthy ?c1" using assms(2) by simp
  note S3 = S2[unfolded if_not_P[OF fresh] prod.case sum.case auth_tables(5)[OF this]]
  have t: "hm_get (t_sessions c) ?t = None"
    using assms(3) unfolding S3 by (cases "hm_get (t_sessions c) ?t") simp_all
  then have S4: "signup A C r1 r2 r3 now req s = (Inr \<lparr>as_token = ?t, as_account_id = ?i, as_email = ?e\<rparr>,
      s\<lparr>db := Some (?c1\<lparr>t_sessions := hm_insert ?t (?i, now) (t_sessions ?c1)\<rparr>)\<rparr>)"
    unfolding S3 by simp
  then have "r = \<lparr>as_token = ?t, as_account_id = ?i, as_email = ?e\<rparr>" using assms(3) by simp
  with phc fresh t S4 that show thesis by simp
qed

text \<open>
  C35: a user who signed up is recognised by the token of the response, can log in again with that
  e-mail and password and gets a session for the same account, and is no longer recognised by the
  first token once it is logged out.
\<close>

theorem session_lifecycle:
  assumes "argon_ok A" "db s = Some c" "healthy c" "hm_wf (t_sessions c)"
    and "fst (signup A C r1 r2 r3 now req s) = Inr r" "s1 = snd (signup A C r1 r2 r3 now req s)"
    and "bearer_token hs = Some (as_token r)"
    and "hm_get (t_sessions c) (new_token C r4) = None" "new_token C r4 \<noteq> as_token r"
  shows "fst (me hs s1) = Inr (as_account_id r, as_email r)
    \<and> fst (login A C r4 now' req s1)
        = Inr \<lparr>as_token = new_token C r4, as_account_id = as_account_id r, as_email = as_email r\<rparr>
    \<and> fst (logout hs s1) = Inr ()
    \<and> fst (me hs (snd (logout hs s1))) = Inl (401, ''invalid token'')"
proof -
  obtain phc where phc: "ar_hash A r1 (aq_password req) = Some phc"
    and em: "as_email r = trim (aq_email req)" and "as_token r = new_token C r3"
    and fresh: "\<not> list_ex (\<lambda>a. ac_id a = as_account_id r \<or> ac_email a = as_email r) (t_accounts c)"
    and "hm_get (t_sessions c) (as_token r) = None"
    and s1: "s1 = s\<lparr>db := Some (c\<lparr>t_accounts := t_accounts c @
        [\<lparr>ac_id = as_account_id r, ac_email = as_email r, ac_password_phc = phc\<rparr>],
      t_sessions := hm_insert (as_token r) (as_account_id r, now) (t_sessions c)\<rparr>)\<rparr>"
    using assms(2,3,5) unfolding assms(6) by (rule signup_ok)
  define acct where "acct = \<lparr>ac_id = as_account_id r, ac_email = as_email r, ac_password_phc = phc\<rparr>"
  define c1 where "c1 = c\<lparr>t_accounts := t_accounts c @ [acct],
      t_sessions := hm_insert (as_token r) (as_account_id r, now) (t_sessions c)\<rparr>"
  have db1: "db s1 = Some c1" by (simp add: s1 c1_def acct_def)
  have h1: "healthy c1" using assms(3) by (simp add: c1_def)
  have "\<not> list_ex (\<lambda>a. ac_id a = as_account_id r) (t_accounts c)"
    "\<not> list_ex (\<lambda>a. ac_email a = as_email r) (t_accounts c)"
    using fresh by (auto simp: list_ex_iff)
  then have f: "find (\<lambda>a. ac_id a = as_account_id r) (t_accounts c1) = Some acct"
    "find (\<lambda>a. ac_email a = as_email r) (t_accounts c1) = Some acct"
    by (simp_all add: c1_def acct_def find_snoc)
  have sess: "hm_get (t_sessions c1) (as_token r) = Some (as_account_id r, now)"
    "hm_get (t_sessions c1) (new_token C r4) = None"
    using assms(8,9) by (simp_all add: c1_def maps)
  have "ar_verify A (aq_password req) phc" using assms(1) phc by (simp add: argon_ok_def)
  moreover have "fst (me hs s1) = Inr (as_account_id r, as_email r)"
    using h1 sess(1) f(1) by (simp add: me_def assms(7) db1 auth_tables) (simp add: acct_def)
  moreover have "fst (logout hs s1) = Inr ()"
    "snd (logout hs s1) = s1\<lparr>db := Some (c1\<lparr>t_sessions := hm_remove (as_token r) (t_sessions c1)\<rparr>)\<rparr>"
    using h1 by (simp_all add: logout_def assms(7) db1 auth_tables)
  moreover have "hm_get (hm_remove (as_token r) (t_sessions c1)) (as_token r) = None"
    by (simp add: maps)
  ultimately show ?thesis
    using h1 f(2) sess(2)
    by (auto simp: me_def login_def assms(7) db1 auth_tables Let_def acct_def em [symmetric])
qed

definition demo_argon :: argon where
  "demo_argon = \<lparr>ar_hash = (\<lambda>salt p. Some (''h:'' @ p)), ar_verify = (\<lambda>p h. h = ''h:'' @ p)\<rparr>"

definition demo_signup :: auth_req where
  "demo_signup = \<lparr>aq_email = ''a@b.co'', aq_password = ''password''\<rparr>"

definition empty_server :: app_state where
  "empty_server = seeded\<lparr>db := Some empty_conn\<rparr>"

lemma demo_signup_ok:
  "fst (signup demo_argon demo_crypto ''s'' ''i'' ''t'' 0 demo_signup empty_server)
   = Inr \<lparr>as_token = ''74'', as_account_id = ''acct:user:69'', as_email = ''a@b.co''\<rparr>"
proof -
  have "list_all solid ''a@b.co''" by (auto intro!: solid_ascii simp: byte_val_def)
  then have t: "trim ''a@b.co'' = ''a@b.co''" by (rule trim_all_solid)
  have v: "email_looks_valid ''a@b.co''"
    by (simp add: email_looks_valid_def str_contains_def starts_with_def ends_with_def)
  have "new_token demo_crypto ''t'' = ''74''" "short_id demo_crypto ''i'' = ''69''"
    by (simp_all add: new_token_def short_id_def demo_crypto_def byte_val_def)
  moreover have "healthy empty_conn" by (simp add: healthy_def empty_conn_def)
  ultimately show ?thesis
    using v by (simp add: signup_def demo_signup_def t Let_def empty_server_def demo_argon_def
        auth_tables) (simp add: empty_conn_def auth_tables healthy_def Let_def)
qed

lemma session_lifecycle_witness:
  "fst (me [(''authorization'', ''Bearer 74'')]
     (snd (signup demo_argon demo_crypto ''s'' ''i'' ''t'' 0 demo_signup empty_server)))
   = Inr (''acct:user:69'', ''a@b.co'')"
proof -
  let ?hs = "[(''authorization'', ''Bearer 74'')]"
  have "header_str ?hs ''authorization'' = Some ''Bearer 74''"
    by (simp add: header_str_def byte_val_def)
  moreover have "strip_prefix ''Bearer '' ''Bearer 74'' = Some ''74''"
    using strip_prefix_append[of "''Bearer ''" "''74''"] by simp
  moreover have "list_all solid ''74''" by (auto intro!: solid_ascii simp: byte_val_def)
  then have "trim ''74'' = ''74''" by (rule trim_all_solid)
  ultimately have bt: "bearer_token ?hs = Some ''74''" by (simp add: bearer_token_def)
  have "argon_ok demo_argon" by (simp add: argon_ok_def demo_argon_def)
  moreover have "new_token demo_crypto ''x'' = ''78''"
    by (simp add: new_token_def demo_crypto_def byte_val_def)
  moreover have "db empty_server = Some empty_conn" "healthy empty_conn" "hm_wf (t_sessions empty_conn)"
    "hm_get (t_sessions empty_conn) ''78'' = None"
    by (simp_all add: empty_server_def empty_conn_def healthy_def)
  ultimately show ?thesis
    using session_lifecycle[OF _ _ _ _ demo_signup_ok refl, of empty_conn ?hs "''x''" 0] bt by simp
qed

text \<open>
  A signup is not atomic: when the second insert fails the client gets an error, yet the account is
  there, and a second attempt is refused as already registered.
\<close>

lemma signup_not_atomic:
  assumes "email_looks_valid (trim (aq_email req))" "8 \<le> length (aq_password req)"
    and "ar_hash A r1 (aq_password req) = Some phc"
    and "db s = Some (empty_conn\<lparr>faults := [False, False, True]\<rparr>)"
  shows "fst (signup A C r1 r2 r3 now req s) = Inl (500, ''auth store error'')"
    and "fst (signup A C r1' r2' r3' now' req (snd (signup A C r1 r2 r3 now req s)))
           = Inl (409, ''email already registered'')"
  using assms
  by (simp_all add: signup_def Let_def find_account_by_email_def insert_account_def insert_session_def
      query_def execute_def empty_conn_def)

end
