(* ===== verification/Server_Runs.thy ===== *)
theory Server_Runs
  imports Server_Admin Server_Auth
begin

section \<open>The running server: any requests in any order, with restarts\<close>

text \<open>
  The server as a step relation: the mutex makes each handler one atomic step, and a restart opens
  the state again from its own database. A state is reachable in \<open>n\<close> steps from the first boot on
  an empty database. \<open>order\<close> is the order in which a redemption meets the map of balances. No statement
  fails in these runs: the books of the memory do not depend on failing writes, as \<open>Server_Books\<close> shows, but a
  restart after a failed write opens older tables. Rule induction shows that the books balance and
  are on disk in every reachable state.
\<close>

inductive server_step :: "crypto \<Rightarrow> argon \<Rightarrow> app_state \<Rightarrow> app_state \<Rightarrow> bool" for C A where
  step_register: "server_step C A s (snd (register C peer hs req now s))"
| step_ingest: "server_step C A s (snd (ingest C device ses s))"
| step_click: "server_step C A s (snd (click code s))"
| step_redeem: "mset (order (balances s)) = mset (balances s) \<Longrightarrow>
    server_step C A s (snd (redeem order rail amount s))"
| step_list_creatives: "server_step C A s (snd (admin_list_creatives hs s))"
| step_create: "server_step C A s (snd (admin_create_creative C hs r1 r2 new now s))"
| step_delete: "server_step C A s (snd (admin_delete_creative hs cid s))"
| step_list_devices: "server_step C A s (snd (admin_list_devices hs s))"
| step_signup: "server_step C A s (snd (signup A C r1 r2 r3 now auth s))"
| step_login: "server_step C A s (snd (login A C r3 now auth s))"
| step_me: "server_step C A s (snd (me hs s))"
| step_logout: "server_step C A s (snd (logout hs s))"
| step_restart: "db s = Some c \<Longrightarrow> fst (open_state C now env c) = Inr s' \<Longrightarrow> server_step C A s s'"

inductive reachable :: "crypto \<Rightarrow> argon \<Rightarrow> nat \<Rightarrow> app_state \<Rightarrow> bool" for C A where
  boot: "fst (open_state C now env empty_conn) = Inr s \<Longrightarrow> reachable C A 0 s"
| run: "reachable C A n s \<Longrightarrow> server_step C A s s' \<Longrightarrow> reachable C A (Suc n) s'"

inductive_cases reachable_SucE: "reachable C A (Suc n) s"
inductive_simps reachable_0: "reachable C A 0 s"

subsection \<open>Statements that leave the books alone\<close>

text \<open>The tables of devices, money, seen ids and counters.\<close>

definition same_rows :: "conn \<Rightarrow> conn \<Rightarrow> bool" where
  "same_rows c c' \<longleftrightarrow> t_devices c' = t_devices c \<and> t_ledger c' = t_ledger c
     \<and> t_redemptions c' = t_redemptions c \<and> t_seen c' = t_seen c \<and> t_balances c' = t_balances c
     \<and> t_impressions c' = t_impressions c \<and> t_kv c' = t_kv c"

text \<open>These rows are kept whether or not statements fail, and no failure is added.\<close>

definition calm :: "conn \<Rightarrow> conn \<Rightarrow> bool" where
  "calm c c' \<longleftrightarrow> same_rows c c' \<and> (healthy c \<longrightarrow> healthy c')"

lemma calm_refl [simp]: "calm c c"
  by (simp add: calm_def same_rows_def)

lemma calm_trans: "calm c c1 \<Longrightarrow> calm c1 c2 \<Longrightarrow> calm c c2"
  by (simp add: calm_def same_rows_def)

lemma mirrors_calm: "mirrors C s c \<Longrightarrow> calm c c' \<Longrightarrow> mirrors C s c'"
  by (simp add: mirrors_def calm_def same_rows_def)

lemma calm_query: "query q c = (r, c') \<Longrightarrow> calm c c'"
  by (auto simp: query_def calm_def same_rows_def healthy_def Let_def split: list.splits bool.splits)

lemma calm_execute:
  assumes "execute stmt c = (r, c')" "\<And>c1 c2. stmt c1 = Inr c2 \<Longrightarrow> same_rows c1 c2 \<and> faults c2 = faults c1"
  shows "calm c c'"
  using assms(1)
  by (auto simp: execute_def calm_def same_rows_def healthy_def Let_def
      split: list.splits bool.splits sum.splits dest!: assms(2))

named_theorems calm_statements
  \<comment> \<open>statements on the other tables\<close>

lemma calm_other [calm_statements]:
  "load_creatives c = (r1, c') \<Longrightarrow> calm c c'" "list_device_meta c = (r2, c') \<Longrightarrow> calm c c'"
  "find_account_by_email e c = (r3, c') \<Longrightarrow> calm c c'" "find_account_by_id i c = (r4, c') \<Longrightarrow> calm c c'"
  "find_session t c = (r5, c') \<Longrightarrow> calm c c'" "insert_account i e p c = (r6, c') \<Longrightarrow> calm c c'"
  "insert_session t i now c = (r7, c') \<Longrightarrow> calm c c'" "delete_session t c = (r8, c') \<Longrightarrow> calm c c'"
  unfolding load_creatives_def list_device_meta_def find_account_by_email_def find_account_by_id_def
    find_session_def insert_account_def insert_session_def delete_session_def
  by (erule calm_query calm_execute; auto simp: same_rows_def split: if_splits option.splits)+

lemma calm_insert_creative: "calm c (insert_creative cr active now c)"
proof -
  obtain r c' where e: "execute (\<lambda>c. Inr (c\<lparr>t_creatives :=
     (case hm_get (t_creatives c) (cr_id cr) of
        None \<Rightarrow> hm_insert (cr_id cr) (cr, active, now) (t_creatives c)
      | Some (_, _, created0) \<Rightarrow> hm_insert (cr_id cr) (cr, active, created0) (t_creatives c))\<rparr>)) c = (r, c')" by force
  then have "calm c c'" by (rule calm_execute) (auto simp: same_rows_def)
  with e show ?thesis by (simp add: insert_creative_def log_err_def)
qed

lemma calm_delete_creative [calm_statements]: "delete_creative cid c = (n, c') \<Longrightarrow> calm c c'"
  by (auto simp: delete_creative_def Let_def same_rows_def split: prod.splits sum.splits elim!: calm_execute)

lemma calm_seed: "calm c (fold (\<lambda>cr. insert_creative cr True now) crs c)"
  by (induction crs arbitrary: c) (auto intro: calm_trans calm_insert_creative)

text \<open>A handler that touches only other tables and the serving pool, whatever statements fail.\<close>

definition untouched :: "app_state \<Rightarrow> app_state \<Rightarrow> bool" where
  "untouched s s' \<longleftrightarrow> same_books s s' \<and>
     (case (db s, db s') of (Some c, Some c') \<Rightarrow> calm c c' | (None, None) \<Rightarrow> True | _ \<Rightarrow> False)"

lemma books_same: "same_books s s' \<Longrightarrow> books_ok s \<Longrightarrow> books_ok s'"
  by (simp add: same_books_def books_defs)

lemma durable_same:
  assumes "same_books s s'" "durable C s" "db s = Some c" "db s' = Some c'" "calm c c'"
  shows "durable C s'"
proof -
  have "mirrors C s c" using assms(2,3) durable_obtain by (metis option.inject)
  then have "mirrors C s c'" using assms(5) by (rule mirrors_calm)
  with assms show ?thesis
    by (simp add: durable_defs same_books_def)
qed

lemma untouched_durable:
  assumes "untouched s s'" "durable C s" shows "durable C s'"
proof -
  obtain c where "db s = Some c" using assms(2) durable_obtain by metis
  with assms show ?thesis
    by (auto simp: untouched_def split: option.splits intro: durable_same)
qed

lemma same_books_refl [simp]: "same_books s s"
  by (simp add: same_books_def)

lemma untouched_self [simp]: "untouched s s"
  by (simp add: untouched_def split: option.split)

lemma untouched_calm: "db s = Some c \<Longrightarrow> calm c c' \<Longrightarrow> untouched s (s\<lparr>db := Some c'\<rparr>)"
  by (simp add: untouched_def)

named_theorems quiet
  \<comment> \<open>handlers that are \<open>untouched\<close>\<close>

lemmas auth_splits = option.split sum.split prod.split sql_error.split

lemma untouched_list_creatives [quiet]: "untouched s (snd (admin_list_creatives hs s))"
  by (auto simp: admin_list_creatives_def split: auth_splits intro!: untouched_calm dest!: calm_statements)

lemma untouched_list_devices [quiet]: "untouched s (snd (admin_list_devices hs s))"
  by (auto simp: admin_list_devices_def Let_def split: auth_splits intro!: untouched_calm dest!: calm_statements)

lemma untouched_create [quiet]: "untouched s (snd (admin_create_creative C hs r1 r2 new now s))"
  using calm_insert_creative
  by (auto simp: untouched_def admin_create_creative_def Let_def with_db_def split: sum.split option.split)

lemma untouched_delete [quiet]: "untouched s (snd (admin_delete_creative hs cid s))"
proof (cases "db s")
  case (Some c)
  obtain n c' where "delete_creative cid c = (n, c')" by force
  with Some calm_delete_creative[OF this] show ?thesis
    by (auto simp: untouched_def admin_delete_creative_def split: sum.split)
qed (auto simp: untouched_def admin_delete_creative_def split: sum.split)

lemma untouched_signup [quiet]: "untouched s (snd (signup A C r1 r2 r3 now auth s))"
  by (auto simp: signup_def Let_def split: auth_splits intro!: untouched_calm dest!: calm_statements
      intro: calm_trans)

lemma untouched_login [quiet]: "untouched s (snd (login A C r3 now auth s))"
  by (auto simp: login_def Let_def split: auth_splits intro!: untouched_calm dest!: calm_statements
      intro: calm_trans)

lemma untouched_me [quiet]: "untouched s (snd (me hs s))"
  by (auto simp: me_def split: auth_splits intro!: untouched_calm dest!: calm_statements intro: calm_trans)

lemma untouched_logout [quiet]: "untouched s (snd (logout hs s))"
  by (auto simp: logout_def split: auth_splits intro!: untouched_calm dest!: calm_statements)

subsection \<open>Booting and restarting\<close>

lemma open_keeps_tables:
  assumes "healthy c" "fst (open_state C now env c) = Inr s'"
  shows "\<exists>c'. db s' = Some c' \<and> calm c c'"
  using assms calm_seed[of c]
  by (auto simp: open_state_def bind_r_def load_healthy load_creatives_def Let_def)

lemma restart_step:
  assumes "hex_ok C" "durable C s" "db s = Some c" "fst (open_state C now env c) = Inr s'"
  shows "same_books s s' \<and> durable C s'"
proof -
  have h: "healthy c" using assms(2,3) durable_obtain by (metis option.inject)
  have b: "same_books s s'"
    using restart_restores[OF assms(1-3), of now env] assms(4) by auto
  obtain c' where "db s' = Some c'" "calm c c'" using open_keeps_tables[OF h assms(4)] by blast
  with b assms(2,3) show ?thesis by (blast intro: durable_same)
qed

lemma empty_healthy [simp]: "healthy empty_conn"
  by (simp add: healthy_def empty_conn_def)

lemma seeded_durable: "durable C (seeded\<lparr>db := Some empty_conn\<rparr>)"
  by (simp add: durable_defs) (simp add: seeded_def empty_conn_def hm_get_or_def)

lemma boot_state:
  assumes "hex_ok C" "fst (open_state C now env empty_conn) = Inr s"
  shows "books_ok s \<and> durable C s \<and> redemptions s = []"
proof -
  have r: "same_books (seeded\<lparr>db := Some empty_conn\<rparr>) s \<and> durable C s"
    using restart_step[OF assms(1) seeded_durable _ assms(2)] by simp
  moreover have "books_ok (seeded\<lparr>db := Some empty_conn\<rparr>)"
    using seeded_books by (simp add: books_defs)
  ultimately have "books_ok s" using books_same by blast
  moreover have "redemptions s = []" using r by (simp add: same_books_def seeded_def)
  ultimately show ?thesis using r by blast
qed

subsection \<open>The invariant of a run\<close>

definition run_inv :: "crypto \<Rightarrow> nat \<Rightarrow> app_state \<Rightarrow> bool" where
  "run_inv C n s \<longleftrightarrow> books_ok s \<and> durable C s \<and> length (redemptions s) \<le> n"

lemma untouched_run: "run_inv C n s \<Longrightarrow> untouched s s' \<Longrightarrow> run_inv C n s'"
  unfolding run_inv_def
  by (metis books_same same_books_def untouched_def untouched_durable)

lemma redemptions_mem: "redemptions s = redemptions (mem s)"
  by simp

lemma register_redemptions [simp]: "redemptions (snd (register C peer hs req now s)) = redemptions s"
  by (subst redemptions_mem, subst register_mem) (simp split: option.split)

lemma accept_redemptions [simp]: "redemptions (snd (accept_event C device se s)) = redemptions s"
proof (cases "fst (accept_event C device se s)")
  case (Inl r)
  then show ?thesis by (simp add: accept_event_reject)
next
  case (Inr u)
  then obtain dev where "hm_get (devices s) device = Some dev"
    by (metis acceptable_def accept_event_iff old.unit.exhaust)
  from accept_event_mem[OF _ this, of C se] Inr show ?thesis
    by (subst redemptions_mem) (simp add: credit_imps_def advance_def)
qed

lemma ingest_redemptions [simp]: "redemptions (snd (ingest C device ses s)) = redemptions s"
proof -
  have one: "redemptions (snd (ingest_one C device se rs)) = redemptions (snd rs)" for se rs
  proof -
    obtain r s1 where rs: "rs = (r, s1)" by (cases rs)
    obtain x s2 where "accept_event C device se s1 = (x, s2)" by force
    then show ?thesis
      using accept_redemptions[of C device se s1]
      by (cases x) (simp_all add: rs ingest_one_def Let_def)
  qed
  have "redemptions (snd (fold (ingest_one C device) ses rs)) = redemptions (snd rs)" for rs
    by (induction ses arbitrary: rs) (simp_all add: one)
  then show ?thesis by (simp add: ingest_def)
qed

lemma click_redemptions [simp]: "redemptions (snd (click code s)) = redemptions s"
  by (simp add: click_def Let_def split: option.split)

lemma redeem_redemptions: "length (redemptions (snd (redeem order rail amount s))) \<le> Suc (length (redemptions s))"
proof (cases "fst (redeem order rail amount s)")
  case (Inl e)
  then show ?thesis by (simp add: redeem_err)
next
  case (Inr r)
  then have "redemptions (mem (snd (redeem order rail amount s)))
      = redemptions s @ [\<lparr>rdm_id = ro_id r, rdm_amount = ro_amount r, rdm_rail = rail\<rparr>]"
    by (rule redeem_mem) simp
  then show ?thesis by simp
qed

lemma run_inv_Suc: "run_inv C n s \<Longrightarrow> run_inv C (Suc n) s"
  by (simp add: run_inv_def)

lemma run_step:
  assumes "hex_ok C" "run_inv C n s" "n < 2 ^ 63" "server_step C A s s'"
  shows "run_inv C (Suc n) s'"
  using assms(4)
proof cases
  case (step_redeem order rail amount)
  then show ?thesis
    using assms(2,3) redeem_redemptions[of order rail amount s]
    by (simp add: run_inv_def redeem_books redeem_durable)
next
  case (step_restart c now env)
  then have "same_books s s'" "durable C s'"
    using restart_step[OF assms(1)] assms(2) by (auto simp: run_inv_def)
  then show ?thesis using assms(2) books_same by (auto simp: run_inv_def same_books_def)
next
  case step_register
  then show ?thesis
    using assms(2) by (simp add: run_inv_def register_books register_durable)
next
  case step_ingest
  then show ?thesis
    using assms(2) by (simp add: run_inv_def ingest_books ingest_durable)
next
  case step_click
  then show ?thesis
    using assms(2) by (simp add: run_inv_def click_books click_durable)
next
  case step_list_creatives
  then show ?thesis
    using run_inv_Suc[OF untouched_run[OF assms(2) untouched_list_creatives]] by simp
next
  case step_create
  then show ?thesis
    using run_inv_Suc[OF untouched_run[OF assms(2) untouched_create]] by simp
next
  case step_delete
  then show ?thesis
    using run_inv_Suc[OF untouched_run[OF assms(2) untouched_delete]] by simp
next
  case step_list_devices
  then show ?thesis
    using run_inv_Suc[OF untouched_run[OF assms(2) untouched_list_devices]] by simp
next
  case step_signup
  then show ?thesis
    using run_inv_Suc[OF untouched_run[OF assms(2) untouched_signup]] by simp
next
  case step_login
  then show ?thesis
    using run_inv_Suc[OF untouched_run[OF assms(2) untouched_login]] by simp
next
  case step_me
  then show ?thesis
    using run_inv_Suc[OF untouched_run[OF assms(2) untouched_me]] by simp
next
  case step_logout
  then show ?thesis
    using run_inv_Suc[OF untouched_run[OF assms(2) untouched_logout]] by simp
qed

lemma reachable_inv:
  assumes "hex_ok C" "reachable C A n s" "n \<le> 2 ^ 63"
  shows "run_inv C n s"
  using assms(2,3)
proof (induction rule: reachable.induct)
  case (boot now env s)
  then show ?case using boot_state[OF assms(1) boot(1)] by (simp add: run_inv_def)
next
  case (run n s s')
  then show ?case using run_step[OF assms(1), of n s A s'] by simp
qed

lemma boots:
  assumes "healthy c" shows "\<exists>s. fst (open_state C now env c) = Inr s"
  using assms by (simp add: open_state_def bind_r_def load_healthy load_creatives_def Let_def)

text \<open>A run for the witnesses: boot, a device registers and posts six impressions twice, a payout.\<close>

definition demo_run :: "app_state \<Rightarrow> app_state" where
  "demo_run s = snd (redeem rev ''usdc'' (Some 10000)
     (snd (ingest demo_crypto ''d1'' [demo_signed demo_event, demo_signed demo_event]
       (snd (register demo_crypto ''10.0.0.1'' [] (demo_req demo_key) 1 s)))))"

lemma demo_reachable:
  assumes "fst (open_state demo_crypto now env empty_conn) = Inr s"
  shows "reachable demo_crypto demo_argon 3 (demo_run s)"
proof -
  note run[OF run[OF run[OF boot[OF assms] server_step.step_register] server_step.step_ingest]
      server_step.step_redeem[where order = rev, OF mset_rev]]
  then have "reachable demo_crypto demo_argon (Suc (Suc (Suc 0))) (demo_run s)"
    unfolding demo_run_def .
  then show ?thesis by (simp add: eval_nat_numeral)
qed

lemma demo_run_reachable: "\<exists>s. reachable demo_crypto demo_argon 3 (demo_run s)"
  using boots[OF empty_healthy] demo_reachable by blast

subsection \<open>Properties\<close>

text \<open>
  In every state the server can reach, over any requests and restarts, each account's balance
  is 5000 micros for each of its impressions less what was paid out of it (as 64-bit numbers), and
  no event id has earned twice.
\<close>

lemma books_balance_forever:
  assumes "hex_ok C" "reachable C A n s" "n \<le> 2 ^ 63"
  shows "(\<forall>a. hm_get_or 0 (balances s) a
            = 5000 * hm_get_or 0 (impressions s) a - paid_out (ledger s) a)
    \<and> distinct (imp_refs (ledger s)) \<and> set (imp_refs (ledger s)) \<subseteq> seen_event_ids s"
  using reachable_inv[OF assms] by (simp add: run_inv_def books_defs)

lemma books_balance_forever_witness:
  "\<exists>s. reachable demo_crypto demo_argon 3 (demo_run s)
     \<and> distinct (imp_refs (ledger (demo_run s)))"
  using demo_run_reachable books_balance_forever[OF demo_crypto_ok(2), of demo_argon 3] by force

text \<open>
  C9: a restart loses nothing: from every reachable state, opening the server again on its
  database succeeds and gives the devices with their chain heads, the seen ids, the ledger, the
  balances, the impressions, the counters, the redemptions and the next redemption id it had.
\<close>

theorem restart_loses_nothing:
  assumes "hex_ok C" "reachable C A n s" "n \<le> 2 ^ 63"
  shows "\<exists>c s'. db s = Some c \<and> fst (open_state C now env c) = Inr s'
    \<and> devices s' = devices s \<and> seen_event_ids s' = seen_event_ids s \<and> ledger s' = ledger s
    \<and> balances s' = balances s \<and> impressions s' = impressions s \<and> clicks s' = clicks s
    \<and> accepted s' = accepted s \<and> rejected s' = rejected s \<and> redemptions s' = redemptions s
    \<and> next_redemption_id s' = next_redemption_id s"
proof -
  have d: "durable C s" using reachable_inv[OF assms] by (simp add: run_inv_def)
  then obtain c where c: "db s = Some c" using durable_obtain by metis
  from restart_restores[OF assms(1) d c, of now env] c show ?thesis
    by (auto simp: same_books_def)
qed

lemma restart_loses_nothing_witness:
  "\<exists>s c s'. reachable demo_crypto demo_argon 3 (demo_run s) \<and> db (demo_run s) = Some c
     \<and> fst (open_state demo_crypto 7 None c) = Inr s' \<and> ledger s' = ledger (demo_run s)"
proof -
  obtain s where "reachable demo_crypto demo_argon 3 (demo_run s)" using demo_run_reachable by blast
  with restart_loses_nothing[OF demo_crypto_ok(2) this, of 7 None] show ?thesis by fastforce
qed

end
