(* ===== verification/Settings.thy ===== *)
theory Settings
  imports Json_Value
begin

section \<open>The host's settings file (spnr-settings)\<close>

text \<open>
  The file system as the crate uses it: whole files by path, with the faults to come for reads and
  writes. \<^verbatim>\<open>serde_json\<close> is outside the repository: parsing and pretty-printing are the record
  \<open>json_lib\<close>, of which \<open>json_lib_ok\<close> states that printing a value without floats gives bytes that
  parse back to it, and that what parses has distinct keys, valid
  UTF-8, negative numbers only as such, and at most 127 levels (the library's recursion limit).
  Lemmas: a call leaves the files as they were or replaces one whole file; an injection changes only
  its own keys; what is printed parses back.
\<close>

record json_lib =
  parse_json :: "bytes \<Rightarrow> json option"
  print_json :: "json \<Rightarrow> bytes option"

fun no_floats :: "json \<Rightarrow> bool" where
  "no_floats (JNumber (Float _)) = False"
| "no_floats (JArray xs) = list_all no_floats xs"
| "no_floats (JObject m) = list_all (\<lambda>kv. no_floats (snd kv)) m"
| "no_floats _ = True"

fun json_depth :: "json \<Rightarrow> nat" where
  "json_depth (JArray xs) = Suc (fold max (map json_depth xs) 0)"
| "json_depth (JObject m) = Suc (fold max (map (\<lambda>kv. json_depth (snd kv)) m) 0)"
| "json_depth _ = 0"

definition newline :: char where "newline = CHR 10"

definition plain_json :: "json \<Rightarrow> bool" where
  "plain_json v \<longleftrightarrow> json_wf v \<and> json_depth v < 128 \<and> no_floats v"

definition json_lib_ok :: "json_lib \<Rightarrow> bool" where
  "json_lib_ok L \<longleftrightarrow>
     (\<forall>v. plain_json v \<longrightarrow> (\<exists>b. print_json L v = Some b \<and> parse_json L (b @ [newline]) = Some v))
   \<and> (\<forall>b v. parse_json L b = Some v \<longrightarrow> json_wf v \<and> json_depth v < 128)"

subsection \<open>The disk\<close>

text \<open>
  Where an atomic write can fail. A call consumes one fault; with none left it goes well.
  \<open>ReadError\<close> is a read that fails although the file is there.
\<close>

datatype write_fault = WFine | TempFails | WriteFails | FsyncFails | RenameFails

datatype read_fault = RFine | ReadError

record disk =
  files :: "(string, bytes) hmap"
  reads :: "read_fault list"
  writes :: "write_fault list"

datatype settings_error = Io | Parse | SnapshotMissing | SchemaDrift string

datatype settings_state = StIdle | StSnapshot | StInjected | StReMerge | StPaused | StRestored

datatype read_result = Content bytes | NotFound | Unreadable

definition read_file :: "string \<Rightarrow> disk \<Rightarrow> read_result \<times> disk" where
  "read_file path d =
     (let d1 = d\<lparr>reads := tl (reads d)\<rparr>
      in (case hm_get (files d) path of
            None \<Rightarrow> (NotFound, d1)
          | Some b \<Rightarrow> (case reads d of ReadError # _ \<Rightarrow> (Unreadable, d1) | _ \<Rightarrow> (Content b, d1))))"

text \<open>A temporary file that is not persisted is deleted when it is dropped.\<close>

definition atomic_write :: "string \<Rightarrow> bytes \<Rightarrow> disk \<Rightarrow> (settings_error + unit) \<times> disk" where
  "atomic_write target b d =
     (let d1 = d\<lparr>writes := tl (writes d)\<rparr>
      in (case (case writes d of [] \<Rightarrow> WFine | f # _ \<Rightarrow> f) of
            WFine \<Rightarrow> (Inr (), d1\<lparr>files := hm_insert target b (files d1)\<rparr>)
          | _ \<Rightarrow> (Inl Io, d1)))"

text \<open>
  The same call step by step: the system calls it makes, by the place where it fails, the dropping
  of the temporary file included; a failing \<^verbatim>\<open>write_all\<close> has written \<open>k\<close> bytes. A state is the files
  and the one whose bytes are not synced.
\<close>

datatype fs_op = CreateTemp | PutByte char | SyncTemp | RenameTemp | DropTemp

fun fs_step :: "string \<Rightarrow> string \<Rightarrow> fs_op \<Rightarrow> (string, bytes) hmap \<times> string option \<Rightarrow>
    (string, bytes) hmap \<times> string option" where
  "fs_step target tmp CreateTemp (fs, u) = (hm_insert tmp [] fs, Some tmp)"
| "fs_step target tmp (PutByte c) (fs, u) = (hm_insert tmp (hm_get_or [] fs tmp @ [c]) fs, Some tmp)"
| "fs_step target tmp SyncTemp (fs, u) = (fs, None)"
| "fs_step target tmp RenameTemp (fs, u) =
     (hm_insert target (hm_get_or [] fs tmp) (hm_remove tmp fs), if u = Some tmp then Some target else u)"
| "fs_step target tmp DropTemp (fs, u) = (hm_remove tmp fs, if u = Some tmp then None else u)"

fun atomic_ops :: "write_fault \<Rightarrow> nat \<Rightarrow> bytes \<Rightarrow> fs_op list" where
  "atomic_ops TempFails k b = []"
| "atomic_ops WriteFails k b = CreateTemp # map PutByte (take k b) @ [DropTemp]"
| "atomic_ops FsyncFails k b = CreateTemp # map PutByte b @ [DropTemp]"
| "atomic_ops RenameFails k b = CreateTemp # map PutByte b @ [SyncTemp, DropTemp]"
| "atomic_ops WFine k b = CreateTemp # map PutByte b @ [SyncTemp, RenameTemp]"

fun fs_states :: "string \<Rightarrow> string \<Rightarrow> fs_op list \<Rightarrow> (string, bytes) hmap \<times> string option \<Rightarrow>
    ((string, bytes) hmap \<times> string option) list" where
  "fs_states target tmp [] s = [s]"
| "fs_states target tmp (op # ops) s = s # fs_states target tmp ops (fs_step target tmp op s)"

text \<open>What a crash leaves: of a file that is not synced any beginning.\<close>

definition crashed :: "nat \<Rightarrow> (string, bytes) hmap \<times> string option \<Rightarrow> (string, bytes) hmap" where
  "crashed j s =
     (case snd s of None \<Rightarrow> fst s | Some n \<Rightarrow> hm_insert n (take j (hm_get_or [] (fst s) n)) (fst s))"

definition next_fault :: "disk \<Rightarrow> write_fault" where
  "next_fault d = (case writes d of [] \<Rightarrow> WFine | f # _ \<Rightarrow> f)"

subsection \<open>Reading and writing objects\<close>

fun type_name :: "json \<Rightarrow> string" where
  "type_name JNull = ''null''"
| "type_name (JBool _) = ''bool''"
| "type_name (JNumber _) = ''number''"
| "type_name (JString _) = ''string''"
| "type_name (JArray _) = ''array''"
| "type_name (JObject _) = ''object''"

definition read_object :: "json_lib \<Rightarrow> string \<Rightarrow> disk \<Rightarrow> (settings_error + json_map) \<times> disk" where
  "read_object L path d =
     (case read_file path d of
        (Content b, d1) \<Rightarrow>
          (case parse_json L b of
             None \<Rightarrow> (Inl Parse, d1)
           | Some (JObject m) \<Rightarrow> (Inr m, d1)
           | Some other \<Rightarrow>
               (Inl (SchemaDrift (path @ '' is a JSON '' @ type_name other @ '', expected an object'')), d1))
      | (NotFound, d1) \<Rightarrow> (Inr [], d1)
      | (Unreadable, d1) \<Rightarrow> (Inl Io, d1))"

definition serialize :: "json_lib \<Rightarrow> json_map \<Rightarrow> settings_error + bytes" where
  "serialize L m =
     (case print_json L (JObject m) of None \<Rightarrow> Inl Io | Some b \<Rightarrow> Inr (b @ [newline]))"

text \<open>\<^verbatim>\<open>atomic_write(path, &serialize(&map)?)\<close>\<close>

definition write_object :: "json_lib \<Rightarrow> string \<Rightarrow> json_map \<Rightarrow> disk \<Rightarrow> (settings_error + unit) \<times> disk" where
  "write_object L path m d =
     (case serialize L m of Inl e \<Rightarrow> (Inl e, d) | Inr b \<Rightarrow> atomic_write path b d)"

subsection \<open>Snapshot, inject, restore\<close>

definition SPNR_OWNED_KEYS :: "string list" where
  "SPNR_OWNED_KEYS = [''spinnerVerbs'', ''statusLine'']"

definition snapshot :: "json_lib \<Rightarrow> string \<Rightarrow> string \<Rightarrow> disk \<Rightarrow> (settings_error + unit) \<times> disk" where
  "snapshot L settings_path backup_path d =
     (case hm_get (files d) backup_path of
        Some _ \<Rightarrow> (Inr (), d)
      | None \<Rightarrow>
          (case read_object L settings_path d of
             (Inl e, d1) \<Rightarrow> (Inl e, d1)
           | (Inr original, d1) \<Rightarrow> write_object L backup_path original d1))"

definition injected_map :: "string list \<Rightarrow> string option \<Rightarrow> json_map \<Rightarrow> json_map" where
  "injected_map verbs statusline m =
     (let m1 = hm_insert ''spinnerVerbs''
            (JObject [(''mode'', JString ''replace''), (''verbs'', JArray (map JString verbs))]) m
      in (case statusline of
            None \<Rightarrow> m1
          | Some cmd \<Rightarrow> hm_insert ''statusLine''
              (JObject [(''type'', JString ''command''), (''command'', JString cmd),
                 (''refreshInterval'', json_uint 1)]) m1))"

definition inject :: "json_lib \<Rightarrow> string \<Rightarrow> string list \<Rightarrow> string option \<Rightarrow> disk \<Rightarrow> (settings_error + unit) \<times> disk" where
  "inject L settings_path verbs statusline d =
     (case read_object L settings_path d of
        (Inl e, d1) \<Rightarrow> (Inl e, d1)
      | (Inr m, d1) \<Rightarrow> write_object L settings_path (injected_map verbs statusline m) d1)"

text \<open>The fallback without a snapshot: every owned key is removed; was there any?\<close>

definition strip_owned :: "json_map \<Rightarrow> json_map \<times> bool" where
  "strip_owned m = fold (\<lambda>k (m, had_any).
     case hm_get m k of None \<Rightarrow> (m, had_any) | Some _ \<Rightarrow> (map_remove k m, True)) SPNR_OWNED_KEYS (m, False)"

definition restore :: "json_lib \<Rightarrow> string \<Rightarrow> string \<Rightarrow> disk \<Rightarrow> (settings_error + unit) \<times> disk" where
  "restore L settings_path backup_path d =
     (case read_file backup_path d of
        (Unreadable, d1) \<Rightarrow> (Inl Io, d1)
      | (NotFound, d1) \<Rightarrow>
          (case read_object L settings_path d1 of
             (Inl e, d2) \<Rightarrow> (Inl e, d2)
           | (Inr m, d2) \<Rightarrow>
               (case strip_owned m of (m', had_any) \<Rightarrow>
                  if had_any then
                    (case write_object L settings_path m' d2 of
                       (Inl e, d3) \<Rightarrow> (Inl e, d3) | (Inr _, d3) \<Rightarrow> (Inl SnapshotMissing, d3))
                  else (Inl SnapshotMissing, d2)))
      | (Content snap, d1) \<Rightarrow>
          (case parse_json L snap of
             None \<Rightarrow> (Inl SnapshotMissing, d1)
           | Some _ \<Rightarrow> atomic_write settings_path snap d1))"

subsection \<open>Hook groups\<close>

definition SPNR_HOOK_EVENTS :: "string list" where
  "SPNR_HOOK_EVENTS = [''UserPromptSubmit'', ''Stop'', ''SessionEnd'']"

text \<open>The commands of a matcher-group.\<close>

definition group_commands :: "json \<Rightarrow> string list" where
  "group_commands g =
     (case json_get g ''hooks'' of
        None \<Rightarrow> []
      | Some hs \<Rightarrow>
          (case as_array hs of
             None \<Rightarrow> []
           | Some hooks \<Rightarrow> List.map_filter
               (\<lambda>h. case json_get h ''command'' of None \<Rightarrow> None | Some c \<Rightarrow> as_str c) hooks))"

definition group_has_exact_command :: "json \<Rightarrow> string \<Rightarrow> bool" where
  "group_has_exact_command g command = list_ex (\<lambda>c. c = command) (group_commands g)"

definition is_spnr_hook_command :: "string \<Rightarrow> bool" where
  "is_spnr_hook_command command \<longleftrightarrow> command = ''spnr-hook'' \<or> ends_with ''/spnr-hook'' command"

definition group_is_spnr_hook :: "json \<Rightarrow> bool" where
  "group_is_spnr_hook g = list_ex is_spnr_hook_command (group_commands g)"

definition spnr_group :: "string \<Rightarrow> json" where
  "spnr_group command = JObject [(''matcher'', JString []),
     (''hooks'', JArray [JObject [(''type'', JString ''command''), (''command'', JString command)]])]"

text \<open>One turn of the loop over the events, on the \<^verbatim>\<open>hooks\<close> object.\<close>

definition wire_event :: "string \<Rightarrow> string \<Rightarrow> json_map \<Rightarrow> settings_error + json_map" where
  "wire_event command event hooks =
     (case hm_get_or (JArray []) hooks event of
        JArray a \<Rightarrow> Inr (hm_insert event
          (JArray (if list_ex (\<lambda>g. group_has_exact_command g command) a then a
                   else a @ [spnr_group command])) hooks)
      | other \<Rightarrow> Inl (SchemaDrift (''hooks.'' @ event @ '' is a JSON '' @ type_name other
                    @ '', expected an array'')))"

fun wire_events :: "string \<Rightarrow> string list \<Rightarrow> json_map \<Rightarrow> settings_error + json_map" where
  "wire_events command [] hooks = Inr hooks"
| "wire_events command (e # es) hooks =
     (case wire_event command e hooks of Inl err \<Rightarrow> Inl err | Inr hooks' \<Rightarrow> wire_events command es hooks')"

definition wire_hooks :: "string \<Rightarrow> json_map \<Rightarrow> settings_error + json_map" where
  "wire_hooks command m =
     (case hm_get_or (JObject []) m ''hooks'' of
        JObject hooks \<Rightarrow>
          (case wire_events command SPNR_HOOK_EVENTS hooks of
             Inl e \<Rightarrow> Inl e
           | Inr hooks' \<Rightarrow> Inr (hm_insert ''hooks'' (JObject hooks') m))
      | other \<Rightarrow> Inl (SchemaDrift (''hooks is a JSON '' @ type_name other @ '', expected an object'')))"

definition inject_hooks :: "json_lib \<Rightarrow> string \<Rightarrow> string \<Rightarrow> disk \<Rightarrow> (settings_error + unit) \<times> disk" where
  "inject_hooks L settings_path command d =
     (case read_object L settings_path d of
        (Inl e, d1) \<Rightarrow> (Inl e, d1)
      | (Inr m, d1) \<Rightarrow>
          (case wire_hooks command m of
             Inl e \<Rightarrow> (Inl e, d1)
           | Inr m' \<Rightarrow> write_object L settings_path m' d1))"

definition retain_foreign :: "string \<Rightarrow> json_map \<Rightarrow> json_map" where
  "retain_foreign event hooks =
     (case hm_get hooks event of
        Some (JArray a) \<Rightarrow> hm_insert event (JArray (filter (\<lambda>g. \<not> group_is_spnr_hook g) a)) hooks
      | _ \<Rightarrow> hooks)"

definition prune_event :: "string \<Rightarrow> json_map \<Rightarrow> json_map" where
  "prune_event event hooks =
     (if hm_get hooks event = Some (JArray []) then map_remove event hooks else hooks)"

text \<open>\<^const>\<open>None\<close>: there is no object \<^verbatim>\<open>hooks\<close>, and nothing is written.\<close>

definition unwire_hooks :: "json_map \<Rightarrow> json_map option" where
  "unwire_hooks m =
     (case hm_get m ''hooks'' of
        Some (JObject hooks) \<Rightarrow>
          (let hooks' = fold prune_event SPNR_HOOK_EVENTS (fold retain_foreign SPNR_HOOK_EVENTS hooks);
               m' = hm_insert ''hooks'' (JObject hooks') m
           in Some (if hooks' = [] then map_remove ''hooks'' m' else m'))
      | _ \<Rightarrow> None)"

definition remove_hooks :: "json_lib \<Rightarrow> string \<Rightarrow> disk \<Rightarrow> (settings_error + unit) \<times> disk" where
  "remove_hooks L settings_path d =
     (case read_object L settings_path d of
        (Inl e, d1) \<Rightarrow> (Inl e, d1)
      | (Inr m, d1) \<Rightarrow>
          (case unwire_hooks m of
             None \<Rightarrow> (Inr (), d1)
           | Some m' \<Rightarrow> write_object L settings_path m' d1))"

subsection \<open>What a call does to the files\<close>

lemma read_file_files [simp]: "files (snd (read_file p d)) = files d"
  by (simp add: read_file_def Let_def split: option.split list.split read_fault.split)

lemma read_object_disk [simp]: "snd (read_object L p d) = snd (read_file p d)"
  by (simp add: read_object_def split: prod.split read_result.split option.split json.split)

lemma read_object_files: "read_object L p d = (r, d1) \<Longrightarrow> files d1 = files d"
  using read_object_disk[of L p d] by simp

lemma atomic_write_cases:
  assumes "atomic_write t b d = (r, d')"
  obtains "r = Inr ()" "files d' = hm_insert t b (files d)" | "r = Inl Io" "files d' = files d"
  using assms by (auto simp: atomic_write_def Let_def split: list.splits write_fault.splits)

lemma write_object_cases:
  assumes "write_object L p m d = (r, d')"
  obtains b where "r = Inr ()" "serialize L m = Inr b" "files d' = hm_insert p b (files d)"
  | e where "r = Inl e" "files d' = files d"
  using assms unfolding write_object_def by (auto split: sum.splits elim: atomic_write_cases)

text \<open>The steps of a write end where the call ends, and no crash on the way shows in another file.\<close>

lemma temp_put:
  "hm_get fs tmp = None \<Longrightarrow> fs_step p tmp (PutByte x) (fs @ [(tmp, c)], u) = (fs @ [(tmp, c @ [x])], Some tmp)"
  "hm_get fs tmp = None \<Longrightarrow> hm_remove tmp (fs @ [(tmp, c)]) = fs"
  "hm_get fs tmp = None \<Longrightarrow> hm_get_or [] (fs @ [(tmp, c)]) tmp = c"
  by (induction fs) (auto simp: hm_insert_def hm_remove_def hm_get_or_def hm_get_def split: if_splits)

lemma fs_states_nonempty [simp]: "fs_states p tmp ops s \<noteq> []"
  by (cases ops) simp_all

lemma fs_states_last: "last (fs_states p tmp ops s) = fold (fs_step p tmp) ops s"
  by (induction ops arbitrary: s) simp_all

lemma fold_puts:
  "hm_get fs tmp = None \<Longrightarrow> fold (fs_step p tmp) (map PutByte xs) (fs @ [(tmp, c)], Some tmp) = (fs @ [(tmp, c @ xs)], Some tmp)"
  by (induction xs arbitrary: c) (simp_all add: temp_put del: fs_step.simps)

lemma fs_states_puts:
  assumes "hm_get fs tmp = None"
  shows "s \<in> set (fs_states p tmp (map PutByte xs @ ops) (fs @ [(tmp, c)], Some tmp)) \<Longrightarrow>
    (\<exists>c'. s = (fs @ [(tmp, c')], Some tmp)) \<or> s \<in> set (fs_states p tmp ops (fs @ [(tmp, c @ xs)], Some tmp))"
proof (induction xs arbitrary: c)
  case (Cons x xs)
  then show ?case using Cons.IH[of "c @ [x]"] by (auto simp: temp_put[OF assms] simp del: fs_step.simps)
qed simp

lemma atomic_write_run:
  assumes "hm_get (files d) tmp = None"
  shows "last (fs_states p tmp (atomic_ops (next_fault d) k b) (files d, None)) = (files (snd (atomic_write p b d)), None)"
proof -
  have "next_fault d = (case writes d of [] \<Rightarrow> WFine | f # _ \<Rightarrow> f)" by (simp add: next_fault_def)
  then show ?thesis
    by (cases "next_fault d")
      (simp_all add: fs_states_last atomic_write_def Let_def hm_insert_fresh[OF assms] fold_puts[OF assms, of _ _ "[]", simplified] temp_put[OF assms])
qed

lemma atomic_write_crash:
  assumes "hm_get fs tmp = None" "q \<noteq> tmp" "s \<in> set (fs_states p tmp (atomic_ops w k b) (fs, None))"
  shows "hm_get (crashed j s) q = hm_get fs q \<or> (q = p \<and> hm_get (crashed j s) q = Some b)"
proof -
  have tmp: "hm_get (crashed j (fs @ [(tmp, c)], u)) q = hm_get fs q" if "u = None \<or> u = Some tmp" for c u
  proof -
    have "hm_get (fs @ [(tmp, c)]) q = hm_get fs q" using assms(2) by (simp add: hm_get_def map_add_def split: option.split)
    then show ?thesis using that assms(2) by (auto simp: crashed_def maps)
  qed
  have here: "hm_get (crashed j (fs, None)) q = hm_get fs q"
    "hm_get (crashed j (hm_insert p b fs, None)) q = (if q = p then Some b else hm_get fs q)"
    by (simp_all add: crashed_def maps)
  show ?thesis
    using assms(3) tmp here
    by (cases w) (auto simp: hm_insert_fresh[OF assms(1)] temp_put[OF assms(1)] split: if_splits dest!: fs_states_puts[OF assms(1)])
qed

text \<open>
  A call fails and leaves the files as they were, or it succeeds and has written the printed text of
  the object it was to write, the file complete and no other changed; it may have had none to write.
\<close>

definition whole_write :: "json_lib \<Rightarrow> string \<Rightarrow> json_map option \<Rightarrow> disk \<Rightarrow> (settings_error + unit) \<times> disk \<Rightarrow> bool" where
  "whole_write L path object d res \<longleftrightarrow>
     (case (fst res, object) of
        (Inr _, Some m) \<Rightarrow> (\<exists>b. print_json L (JObject m) = Some b \<and> files (snd res) = hm_insert path (b @ [newline]) (files d))
      | _ \<Rightarrow> files (snd res) = files d)"

text \<open>The object at a path, and the object each operation is to write.\<close>

definition object_at :: "json_lib \<Rightarrow> string \<Rightarrow> disk \<Rightarrow> json_map option" where
  "object_at L p d = (case fst (read_object L p d) of Inl _ \<Rightarrow> None | Inr m \<Rightarrow> Some m)"

definition snapshot_object :: "json_lib \<Rightarrow> string \<Rightarrow> string \<Rightarrow> disk \<Rightarrow> json_map option" where
  "snapshot_object L p b d = (if hm_get (files d) b = None then object_at L p d else None)"

definition wired_object :: "string \<Rightarrow> json_map \<Rightarrow> json_map option" where
  "wired_object cmd m = (case wire_hooks cmd m of Inl _ \<Rightarrow> None | Inr m' \<Rightarrow> Some m')"

lemma write_object_whole:
  assumes "files d0 = files d" shows "whole_write L p (Some m) d (write_object L p m d0)"
proof -
  obtain r d' where w: "write_object L p m d0 = (r, d')" by force
  then show ?thesis
    by (rule write_object_cases) (use assms w in \<open>auto simp: whole_write_def serialize_def split: option.splits\<close>)
qed

lemma inject_whole: "whole_write L p (map_option (injected_map verbs sl) (object_at L p d)) d (inject L p verbs sl d)"
proof -
  obtain r d1 where "read_object L p d = (r, d1)" by force
  with read_object_files[OF this] show ?thesis
    by (auto simp: inject_def object_at_def write_object_whole split: sum.split) (simp add: whole_write_def)
qed

lemma snapshot_whole: "whole_write L b (snapshot_object L p b d) d (snapshot L p b d)"
proof -
  obtain r d1 where "read_object L p d = (r, d1)" by force
  with read_object_files[OF this] show ?thesis
    by (auto simp: snapshot_def snapshot_object_def object_at_def write_object_whole split: sum.split option.split)
      (simp_all add: whole_write_def)
qed

lemma inject_hooks_whole: "whole_write L p (Option.bind (object_at L p d) (wired_object c)) d (inject_hooks L p c d)"
proof -
  obtain r d1 where "read_object L p d = (r, d1)" by force
  with read_object_files[OF this] show ?thesis
    by (auto simp: inject_hooks_def object_at_def wired_object_def write_object_whole split: sum.split)
      (simp_all add: whole_write_def)
qed

lemma remove_hooks_whole: "whole_write L p (Option.bind (object_at L p d) unwire_hooks) d (remove_hooks L p d)"
proof -
  obtain r d1 where "read_object L p d = (r, d1)" by force
  with read_object_files[OF this] show ?thesis
    by (auto simp: remove_hooks_def object_at_def write_object_whole split: sum.split option.split)
      (simp_all add: whole_write_def)
qed

text \<open>\<^verbatim>\<open>restore\<close> answers \<^verbatim>\<open>SnapshotMissing\<close> also when its fallback has written the file.\<close>

lemma read_file_cases:
  assumes "read_file p d = (r, d1)"
  obtains b where "r = Content b" "hm_get (files d) p = Some b" "files d1 = files d"
  | "r = NotFound" "hm_get (files d) p = None" "files d1 = files d"
  | "r = Unreadable" "files d1 = files d"
  using assms by (auto simp: read_file_def Let_def split: option.splits list.splits read_fault.splits)

lemma restore_files:
  assumes "restore L p b d = (r, d')"
  obtains "files d' = files d" "r \<noteq> Inr ()"
  | snap where "r = Inr ()" "hm_get (files d) b = Some snap" "parse_json L snap \<noteq> None"
      "files d' = hm_insert p snap (files d)"
  | m c where "r = Inl SnapshotMissing" "hm_get (files d) b = None"
      "object_at L p (snd (read_file b d)) = Some m" "serialize L (fst (strip_owned m)) = Inr c"
      "files d' = hm_insert p c (files d)"
proof -
  obtain rr d1 where rf: "read_file b d = (rr, d1)" by force
  show thesis
  proof (rule read_file_cases[OF rf])
    fix snap assume s: "rr = Content snap" "hm_get (files d) b = Some snap" "files d1 = files d"
    show thesis
    proof (cases "parse_json L snap")
      case None
      with assms rf s that(1) show thesis by (auto simp: restore_def)
    next
      case (Some v)
      then have "atomic_write p snap d1 = (r, d')" using assms rf s by (simp add: restore_def)
      then show thesis
        by (rule atomic_write_cases) (use that(1,2) s Some in auto)
    qed
  next
    assume s: "rr = NotFound" "hm_get (files d) b = None" "files d1 = files d"
    obtain ro d2 where ro: "read_object L p d1 = (ro, d2)" by force
    then have d2: "files d2 = files d" using read_object_files s(3) by metis
    show thesis
    proof (cases ro)
      case (Inl e)
      with assms rf s ro that(1) d2 show thesis by (auto simp: restore_def)
    next
      case (Inr m)
      obtain m' had where st: "strip_owned m = (m', had)" by force
      show thesis
      proof (cases had)
        case False
        with assms rf s ro Inr st that(1) d2 show thesis by (auto simp: restore_def)
      next
        case True
        obtain w d3 where w: "write_object L p m' d2 = (w, d3)" by force
        have r: "d' = d3" "r = (case w of Inl e \<Rightarrow> Inl e | Inr _ \<Rightarrow> Inl SnapshotMissing)"
          using assms rf s ro Inr st True w by (auto simp: restore_def split: sum.splits)
        from w show thesis
          by (rule write_object_cases) (use that(1,3) r s d2 rf ro Inr st in \<open>auto simp: object_at_def\<close>)
      qed
    qed
  next
    assume "rr = Unreadable" "files d1 = files d"
    with assms rf that(1) show thesis by (auto simp: restore_def)
  qed
qed

subsection \<open>Injected objects\<close>

lemma hm_insert_filter:
  "k \<in> K \<Longrightarrow> filter (\<lambda>kv. fst kv \<notin> K) (hm_insert k v m) = filter (\<lambda>kv. fst kv \<notin> K) m"
  unfolding hm_insert_def by (induction m) auto

lemma owned_keys: "''spinnerVerbs'' \<in> set SPNR_OWNED_KEYS" "''statusLine'' \<in> set SPNR_OWNED_KEYS"
  by (simp_all add: SPNR_OWNED_KEYS_def)

lemma injected_get:
  "hm_get (injected_map verbs sl m) k =
     (if k = ''statusLine'' \<and> sl \<noteq> None
      then Some (JObject [(''type'', JString ''command''), (''command'', JString (the sl)),
             (''refreshInterval'', json_uint 1)])
      else if k = ''spinnerVerbs''
      then Some (JObject [(''mode'', JString ''replace''), (''verbs'', JArray (map JString verbs))])
      else hm_get m k)"
  by (simp add: injected_map_def Let_def maps split: option.split)

lemma injected_foreign:
  "filter (\<lambda>kv. fst kv \<notin> set SPNR_OWNED_KEYS) (injected_map verbs sl m)
     = filter (\<lambda>kv. fst kv \<notin> set SPNR_OWNED_KEYS) m"
  by (simp add: injected_map_def Let_def hm_insert_filter owned_keys split: option.split)

lemma injected_idem: "injected_map verbs sl (injected_map verbs sl m) = injected_map verbs sl m"
proof -
  have same: "hm_get m k = Some v \<Longrightarrow> hm_insert k v m = m" for k v and m :: json_map
    unfolding hm_get_def hm_insert_def by (induction m) (auto split: if_splits)
  have comm: "hm_get m k \<noteq> None \<Longrightarrow> k \<noteq> k' \<Longrightarrow>
      hm_insert k v (hm_insert k' v' m) = hm_insert k' v' (hm_insert k v m)" for k k' v v' and m :: json_map
    unfolding hm_get_def hm_insert_def by (induction m) (auto split: if_splits)
  show ?thesis
    by (simp add: injected_map_def Let_def same maps split: option.split)
qed

text \<open>Plain values with at most \<open>n\<close> levels.\<close>

definition plain_upto :: "nat \<Rightarrow> json \<Rightarrow> bool" where
  "plain_upto n v \<longleftrightarrow> json_wf v \<and> no_floats v \<and> json_depth v \<le> n"

definition plain_member :: "nat \<Rightarrow> string \<times> json \<Rightarrow> bool" where
  "plain_member n kv \<longleftrightarrow> utf8_ok (fst kv) \<and> plain_upto n (snd kv)"

lemma plain_json_upto: "plain_json v \<longleftrightarrow> plain_upto 127 v"
  by (auto simp: plain_json_def plain_upto_def)

lemma fold_max_le: "fold max xs a \<le> b \<longleftrightarrow> a \<le> (b::nat) \<and> list_all (\<lambda>x. x \<le> b) xs"
  by (induction xs arbitrary: a) auto

lemma plain_upto_simps:
  "plain_upto (Suc n) (JArray xs) \<longleftrightarrow> list_all (plain_upto n) xs"
  "plain_upto (Suc n) (JObject m) \<longleftrightarrow> hm_wf m \<and> list_all (plain_member n) m"
  "plain_upto n (JString s) \<longleftrightarrow> utf8_ok s"
  "plain_upto n (JNumber (PosInt w))"
  by (auto simp: plain_upto_def plain_member_def fold_max_le list_all_iff)

lemma plain_upto_mono: "plain_upto n v \<Longrightarrow> n \<le> n' \<Longrightarrow> plain_upto n' v"
  by (simp add: plain_upto_def)

lemma list_all_insert:
  "list_all P m \<Longrightarrow> P (k, v) \<Longrightarrow> list_all P (hm_insert k v m)"
  unfolding hm_insert_def by (induction m) auto

lemma plain_insert:
  "plain_upto (Suc n) (JObject m) \<Longrightarrow> utf8_ok k \<Longrightarrow> plain_upto n v \<Longrightarrow>
     plain_upto (Suc n) (JObject (hm_insert k v m))"
  by (simp add: plain_upto_simps wf_intros list_all_insert plain_member_def)

lemma plain_lookup:
  "plain_upto (Suc n) (JObject m) \<Longrightarrow> hm_get m k = Some v \<Longrightarrow> plain_upto n v"
  by (auto simp: plain_upto_simps hm_get_def plain_member_def list_all_iff dest!: map_of_SomeD)

declare utf8_ok.simps(2) [simp del]

lemmas utf8_literal = ascii_utf8_ok byte_val_def

lemma plain_injected:
  assumes "plain_json (JObject m)" "list_all utf8_ok verbs" "pred_option utf8_ok sl"
  shows "plain_json (JObject (injected_map verbs sl m))"
proof -
  have m: "plain_upto (Suc 126) (JObject m)" using assms(1) by (simp add: plain_json_upto)
  have "plain_upto (Suc (Suc n)) (JObject [(''mode'', JString ''replace''), (''verbs'', JArray (map JString verbs))])" for n
    using assms(2) by (simp add: plain_upto_simps plain_member_def hm_wf_def list_all_iff utf8_literal)
  from this[of 124] have m1: "plain_upto (Suc 126) (JObject (hm_insert ''spinnerVerbs''
      (JObject [(''mode'', JString ''replace''), (''verbs'', JArray (map JString verbs))]) m))"
    by (intro plain_insert m) (simp_all add: utf8_literal)
  have "plain_upto (Suc n) (JObject [(''type'', JString ''command''), (''command'', JString cmd),
      (''refreshInterval'', json_uint 1)])" if "sl = Some cmd" for cmd n
    using assms(3) that by (simp add: plain_upto_simps plain_member_def hm_wf_def json_uint_def utf8_literal)
  from this[where n = 125] show ?thesis
    using m1 plain_insert[OF m1, of "''statusLine''"]
    by (auto simp: injected_map_def Let_def plain_json_upto utf8_literal split: option.split)
qed

lemma serialize_parses:
  assumes "json_lib_ok L" "plain_json (JObject m)"
  shows "\<exists>b. serialize L m = Inr b \<and> parse_json L b = Some (JObject m)"
  using assms by (fastforce simp: json_lib_ok_def serialize_def)

end
