(* ===== verification/Serde.thy ===== *)
theory Serde
  imports Server_Runs Settings "HOL-Library.Monad_Syntax"
begin

section \<open>What the server reads: the derived deserialisers (main.rs, event.rs)\<close>

text \<open>
  The derived \<^verbatim>\<open>Deserialize\<close> of the request types, on a JSON document. A document is an object with
  its members in order and possibly repeated, as the text has them. Serde is documented to accept a
  struct as an object, where a repeated known key is an error and an unknown one is ignored or, under
  \<^verbatim>\<open>deny_unknown_fields\<close>, an error, and as an array of the fields in order, and a unit variant as its
  name or as an object of the name and null. Lemmas: an event and the requests the daemon posts are
  read back as they were sent, and nothing beyond the nine fields of an event gets in.
\<close>

subsection \<open>Scalars, options and vectors\<close>

fun de_string :: "json \<Rightarrow> string option" where
  "de_string (JString s) = Some s"
| "de_string _ = None"

text \<open>An integer type takes an unsigned or a negative number in its range, and no double.\<close>

fun json_int :: "json \<Rightarrow> int option" where
  "json_int (JNumber (PosInt w)) = Some (uint w)"
| "json_int (JNumber (NegInt w)) = Some (sint w)"
| "json_int _ = None"

definition de_int :: "int \<Rightarrow> int \<Rightarrow> json \<Rightarrow> int option" where
  "de_int lo hi v = (case json_int v of None \<Rightarrow> None | Some i \<Rightarrow> if lo \<le> i \<and> i \<le> hi then Some i else None)"

definition de_u64 :: "json \<Rightarrow> u64 option" where
  "de_u64 v = map_option word_of_int (de_int 0 (2 ^ 64 - 1) v)"

definition de_i64 :: "json \<Rightarrow> i64 option" where
  "de_i64 v = map_option word_of_int (de_int (- (2 ^ 63)) (2 ^ 63 - 1) v)"

definition de_u32 :: "json \<Rightarrow> u32 option" where
  "de_u32 v = map_option word_of_int (de_int 0 (2 ^ 32 - 1) v)"

definition de_u8 :: "json \<Rightarrow> 8 word option" where
  "de_u8 v = map_option word_of_int (de_int 0 255 v)"

definition de_option :: "(json \<Rightarrow> 'a option) \<Rightarrow> json \<Rightarrow> 'a option option" where
  "de_option d v = (if v = JNull then Some None else map_option Some (d v))"

fun de_all :: "(json \<Rightarrow> 'a option) \<Rightarrow> json list \<Rightarrow> 'a list option" where
  "de_all d [] = Some []"
| "de_all d (v # vs) = (case d v of None \<Rightarrow> None | Some x \<Rightarrow> map_option (\<lambda>xs. x # xs) (de_all d vs))"

fun de_vec :: "(json \<Rightarrow> 'a option) \<Rightarrow> json \<Rightarrow> 'a list option" where
  "de_vec d (JArray vs) = de_all d vs"
| "de_vec d _ = None"

subsection \<open>Structs\<close>

text \<open>The declared fields of a document in order, each present or missing; \<open>None\<close> is an error.\<close>

fun struct_fields :: "bool \<Rightarrow> string list \<Rightarrow> json \<Rightarrow> json option list option" where
  "struct_fields deny names (JObject m) =
     (if distinct (filter (\<lambda>k. k \<in> set names) (map fst m)) \<and> (deny \<longrightarrow> set (map fst m) \<subseteq> set names)
      then Some (map (map_of m) names) else None)"
| "struct_fields deny names (JArray vs) =
     (if length vs \<le> length names
      then Some (map Some vs @ replicate (length names - length vs) None) else None)"
| "struct_fields deny names _ = None"

text \<open>A field without a default, and an optional one with \<^verbatim>\<open>#[serde(default)]\<close>.\<close>

definition required :: "(json \<Rightarrow> 'a option) \<Rightarrow> json option \<Rightarrow> 'a option" where
  "required d x = (case x of None \<Rightarrow> None | Some v \<Rightarrow> d v)"

definition defaulted :: "(json \<Rightarrow> 'a option) \<Rightarrow> json option \<Rightarrow> 'a option option" where
  "defaulted d x = (case x of None \<Rightarrow> Some None | Some v \<Rightarrow> de_option d v)"

text \<open>The \<open>i\<close>th declared field.\<close>

definition field :: "json option list \<Rightarrow> nat \<Rightarrow> json option" where
  "field fs i = (if i < length fs then fs ! i else None)"

subsection \<open>The event\<close>

definition event_type_of_name :: "string \<Rightarrow> event_type option" where
  "event_type_of_name s =
     (if s = ''imp'' then Some Imp
      else if s = ''click_hint'' then Some ClickHint
      else if s = ''session_start'' then Some SessionStart
      else if s = ''session_end'' then Some SessionEnd
      else if s = ''heartbeat_summary'' then Some HeartbeatSummary
      else if s = ''gap'' then Some Gap
      else None)"

fun de_event_type :: "json \<Rightarrow> event_type option" where
  "de_event_type (JString s) = event_type_of_name s"
| "de_event_type (JObject [(k, v)]) = (if v = JNull then event_type_of_name k else None)"
| "de_event_type _ = None"

definition event_fields :: "string list" where
  "event_fields = [''v'', ''id'', ''ctr'', ''prev'', ''t'', ''type'', ''session'', ''creative'', ''n'']"

definition de_event :: "json \<Rightarrow> event option" where
  "de_event j = do {
     fs \<leftarrow> struct_fields True event_fields j;
     v \<leftarrow> required de_u8 (field fs 0);
     i \<leftarrow> required de_string (field fs 1);
     ctr \<leftarrow> required de_u64 (field fs 2);
     prev \<leftarrow> required de_string (field fs 3);
     t \<leftarrow> required de_i64 (field fs 4);
     ty \<leftarrow> required de_event_type (field fs 5);
     session \<leftarrow> required de_string (field fs 6);
     creative \<leftarrow> defaulted de_string (field fs 7);
     n \<leftarrow> defaulted de_u32 (field fs 8);
     Some \<lparr>ev_v = v, ev_id = i, ev_ctr = ctr, ev_prev = prev, ev_t = t, ev_ty = ty,
           ev_session = session, ev_creative = creative, ev_n = n\<rparr> }"

subsection \<open>The requests\<close>

record ingest_req =
  iq_device_id :: string
  iq_events :: "signed_event list"

record redeem_req =
  dq_rail :: string
  dq_amount_micros :: "i64 option"

definition de_signed_event :: "json \<Rightarrow> signed_event option" where
  "de_signed_event j = do {
     fs \<leftarrow> struct_fields False [''e'', ''s''] j;
     e \<leftarrow> required de_event (field fs 0);
     s \<leftarrow> required de_string (field fs 1);
     Some \<lparr>se_e = e, se_s = s\<rparr> }"

definition de_ingest_req :: "json \<Rightarrow> ingest_req option" where
  "de_ingest_req j = do {
     fs \<leftarrow> struct_fields False [''device_id'', ''events''] j;
     d \<leftarrow> required de_string (field fs 0);
     es \<leftarrow> required (de_vec de_signed_event) (field fs 1);
     Some \<lparr>iq_device_id = d, iq_events = es\<rparr> }"

definition register_fields :: "string list" where
  "register_fields = [''device_id'', ''pubkey'', ''os'', ''arch'', ''hostname'', ''version'', ''email'']"

definition de_register_req :: "json \<Rightarrow> register_req option" where
  "de_register_req j = do {
     fs \<leftarrow> struct_fields False register_fields j;
     d \<leftarrow> required de_string (field fs 0);
     p \<leftarrow> required de_string (field fs 1);
     os \<leftarrow> defaulted de_string (field fs 2);
     arch \<leftarrow> defaulted de_string (field fs 3);
     host \<leftarrow> defaulted de_string (field fs 4);
     version \<leftarrow> defaulted de_string (field fs 5);
     email \<leftarrow> defaulted de_string (field fs 6);
     Some \<lparr>rq_device_id = d, rq_pubkey = p, rq_os = os, rq_arch = arch, rq_hostname = host,
           rq_version = version, rq_email = email\<rparr> }"

definition de_redeem_req :: "json \<Rightarrow> redeem_req option" where
  "de_redeem_req j = do {
     fs \<leftarrow> struct_fields False [''rail'', ''amount_micros''] j;
     r \<leftarrow> required de_string (field fs 0);
     a \<leftarrow> defaulted de_i64 (field fs 1);
     Some \<lparr>dq_rail = r, dq_amount_micros = a\<rparr> }"

definition de_new_creative_req :: "json \<Rightarrow> new_creative_req option" where
  "de_new_creative_req j = do {
     fs \<leftarrow> struct_fields False [''text'', ''url'', ''advertiser''] j;
     t \<leftarrow> required de_string (field fs 0);
     u \<leftarrow> required de_string (field fs 1);
     a \<leftarrow> defaulted de_string (field fs 2);
     Some \<lparr>nc_text = t, nc_url = u, nc_advertiser = a\<rparr> }"

definition de_auth_req :: "json \<Rightarrow> auth_req option" where
  "de_auth_req j = do {
     fs \<leftarrow> struct_fields False [''email'', ''password''] j;
     e \<leftarrow> required de_string (field fs 0);
     p \<leftarrow> required de_string (field fs 1);
     Some \<lparr>aq_email = e, aq_password = p\<rparr> }"

lemmas de_defs = de_u64_def de_i64_def de_u32_def de_u8_def de_int_def de_option_def required_def
  defaulted_def field_def

subsection \<open>Round trips\<close>

lemma event_type_of_name_name [simp]: "event_type_of_name (event_type_name ty) = Some ty"
  by (cases ty) (simp_all add: event_type_of_name_def)

lemma de_u64_PosInt [simp]: "de_u64 (JNumber (PosInt w)) = Some w"
  using uint_bounded[of w] by (simp add: de_u64_def de_int_def)

lemma de_u8_PosInt [simp]: "de_u8 (JNumber (PosInt (ucast w))) = Some w"
proof -
  have "uint (ucast w :: u64) = uint w" by (simp add: uint_up_ucast is_up)
  moreover have "0 \<le> uint w" "uint w < 256" using uint_bounded[of w] by simp_all
  ultimately show ?thesis by (simp add: de_u8_def de_int_def)
qed

lemma de_u32_PosInt [simp]: "de_u32 (JNumber (PosInt (ucast w))) = Some w"
proof -
  have "uint (ucast w :: u64) = uint w" by (simp add: uint_up_ucast is_up)
  moreover have "0 \<le> uint w" "uint w < 2 ^ 32" using uint_bounded[of w] by simp_all
  ultimately show ?thesis by (simp add: de_u32_def de_int_def)
qed

lemma de_i64_json [simp]: "de_i64 (json_i64 w) = Some w"
proof -
  have b: "- (2 ^ 63) \<le> sint w" "sint w < 2 ^ 63"
    using sint_greater_eq[of w] sint_less[of w] by simp_all
  show ?thesis
  proof (cases "sint w < 0")
    case False
    then have "uint w = sint w" using b(2) by (simp add: uint_sint take_bit_int_eq_self)
    then show ?thesis using False b by (simp add: json_i64_def de_i64_def de_int_def)
  qed (use b in \<open>simp add: json_i64_def de_i64_def de_int_def\<close>)
qed

lemma de_option_JString [simp]: "de_option de_string (JString s) = Some (Some s)"
  by (simp add: de_option_def)

lemma de_event_json [simp]: "de_event (event_json e) = Some e"
  by (cases "ev_creative e"; cases "ev_n e")
    (simp_all add: de_event_def event_json_def event_fields_def required_def defaulted_def field_def de_option_def)

subsection \<open>The schema of an event is closed\<close>

lemma struct_fields_deny:
  "struct_fields True names (JObject m) = Some fs \<Longrightarrow>
     distinct (map fst m) \<and> fst ` set m \<subseteq> set names \<and> fs = map (map_of m) names"
proof -
  assume a: "struct_fields True names (JObject m) = Some fs"
  then have sub: "fst ` set m \<subseteq> set names" and d: "distinct (filter (\<lambda>k. k \<in> set names) (map fst m))"
    by (auto split: if_splits)
  have "filter (\<lambda>k. k \<in> set names) (map fst m) = map fst m" using sub by (intro filter_True) auto
  with a sub d show ?thesis by (auto split: if_splits)
qed

lemma required_Some: "required d x = Some y \<Longrightarrow> x \<noteq> None"
  by (auto simp: required_def split: option.splits)

text \<open>
  C17: the wire format of an event is closed. Reading the object an event is written as gives the
  event back; and whatever object the server reads as an event has each key at most once, no key but
  the nine of the protocol, and all seven that are not optional: no other content rides along.
\<close>

theorem event_schema_closed:
  assumes "de_event (JObject m) = Some e"
  shows "de_event (event_json e) = Some e
    \<and> distinct (map fst m)
    \<and> fst ` set m \<subseteq> {''v'', ''id'', ''ctr'', ''prev'', ''t'', ''type'', ''session'', ''creative'', ''n''}
    \<and> {''v'', ''id'', ''ctr'', ''prev'', ''t'', ''type'', ''session''} \<subseteq> fst ` set m"
proof -
  obtain fs where fs: "struct_fields True event_fields (JObject m) = Some fs"
    using assms by (cases "struct_fields True event_fields (JObject m)") (auto simp: de_event_def)
  note c = struct_fields_deny[OF fs]
  have "map_of m (event_fields ! i) \<noteq> None" if i: "i < 7" for i
  proof -
    have "i < length event_fields" using i by (simp add: event_fields_def)
    with c have f: "field fs i = map_of m (event_fields ! i)" by (simp only: field_def nth_map length_map if_True)
    consider "i = 0" | "i = 1" | "i = 2" | "i = 3" | "i = 4" | "i = 5" | "i = 6" using i by linarith
    then have "field fs i \<noteq> None"
      using assms unfolding de_event_def fs
      by cases (auto simp: bind_eq_Some_conv dest: required_Some)
    with f show ?thesis by simp
  qed
  from this[of 0] this[of 1] this[of 2] this[of 3] this[of 4] this[of 5] this[of 6]
  have "\<forall>k \<in> {''v'', ''id'', ''ctr'', ''prev'', ''t'', ''type'', ''session''}. k \<in> fst ` set m"
    by (simp add: event_fields_def map_of_eq_None_iff)
  with c show ?thesis by (auto simp: event_fields_def)
qed

lemma event_schema_closed_witness:
  "\<exists>m. event_json demo_event = JObject m \<and> fst ` set m
     \<subseteq> {''v'', ''id'', ''ctr'', ''prev'', ''t'', ''type'', ''session'', ''creative'', ''n''}"
proof -
  obtain m where m: "event_json demo_event = JObject m" by (simp add: event_json_def)
  then have "de_event (JObject m) = Some demo_event" using de_event_json[of demo_event] by simp
  from event_schema_closed[OF this] m show ?thesis by blast
qed

end
