(* ===== verification/Usd.thy ===== *)
theory Usd
  imports Complex_Main Server "HOL-Library.Log_Nat"
begin

section \<open>Dollars and percentages: the floating-point text of the server (main.rs)\<close>

text \<open>
  The server keeps money as \<^verbatim>\<open>i64\<close> micros and formats it through \<^verbatim>\<open>f64\<close>. A finite double is the
  rational it stands for: a cast, a division and a product round to the nearest of 53 significant
  bits, ties to even, which is IEEE 754 on the range in use (between \<open>2 ^ -64\<close> and \<open>2 ^ 71\<close>, so
  neither overflow nor subnormal numbers occur). Formatting with a precision rounds the exact value,
  ties to even. Lemmas: the rounding error, and that the dollars shown are a nearest mill of the micros.
\<close>

subsection \<open>Rounding\<close>

definition round_even :: "rat \<Rightarrow> int" where
  "round_even x =
     (let f = \<lfloor>x\<rfloor>; d = x - of_int f
      in if d < 1 / 2 then f else if 1 / 2 < d then f + 1 else if even f then f else f + 1)"

definition ilog2 :: "rat \<Rightarrow> int" where
  "ilog2 x = (case quotient_of x of (a, b) \<Rightarrow>
     (let e = bitlen a - bitlen b in if 2 powi e \<le> x then e else e - 1))"

definition f64 :: "rat \<Rightarrow> rat" where
  "f64 x = (if x = 0 then 0 else
     (let u = 2 powi (ilog2 \<bar>x\<bar> - 52) in of_int (round_even (x / u)) * u))"

subsection \<open>The formatted amounts\<close>

text \<open>\<^verbatim>\<open>{:.p}\<close>: the sign, the integral part and \<open>p\<close> digits.\<close>

definition pad_zeros :: "nat \<Rightarrow> string \<Rightarrow> string" where
  "pad_zeros p ds = replicate (p - length ds) CHR ''0'' @ ds"

definition fixed_digits :: "nat \<Rightarrow> nat \<Rightarrow> string" where
  "fixed_digits p k = show_nat (k div 10 ^ p) @ ''.'' @ pad_zeros p (show_nat (k mod 10 ^ p))"

definition show_fixed :: "nat \<Rightarrow> rat \<Rightarrow> string" where
  "show_fixed p x = (if x < 0 then ''-'' else []) @ fixed_digits p (nat (round_even (\<bar>x\<bar> * 10 ^ p)))"

definition usd :: "i64 \<Rightarrow> string" where
  "usd micros = CHR ''$'' # show_fixed 3 (f64 (f64 (of_int (sint micros)) / 1000000))"

definition attestation_pct :: "app_state \<Rightarrow> rat" where
  "attestation_pct s =
     (let total = accepted s + rejected s
      in if total = 0 then 100
         else f64 (f64 (f64 (of_nat (unat (accepted s))) / f64 (of_nat (unat total))) * 100))"

subsection \<open>The rounding error\<close>

lemma round_even_near: "\<bar>of_int (round_even x) - x\<bar> \<le> 1 / 2"
proof -
  have "of_int \<lfloor>x\<rfloor> \<le> x" "x < of_int \<lfloor>x\<rfloor> + 1" by linarith+
  then show ?thesis by (auto simp: round_even_def Let_def abs_le_iff)
qed

lemma round_even_int [simp]: "round_even (of_int n) = n"
  by (simp add: round_even_def)

lemma ilog2_bounds:
  assumes "0 < x" shows "2 powi (ilog2 x) \<le> x" "x < 2 powi (ilog2 x + 1)"
proof -
  obtain a b where q: "quotient_of x = (a, b)" by force
  have x: "x = of_int a / of_int b" using quotient_of_div[OF q] .
  have b: "0 < b" using quotient_of_denom_pos[OF q] .
  with assms x have a: "0 < a" by (simp add: zero_less_divide_iff)
  have pos: "1 \<le> bitlen a" "1 \<le> bitlen b" using a b by (simp_all add: bitlen_alt_def)
  define A B where "A = nat (bitlen a - 1)" and "B = nat (bitlen b - 1)"
  have AB: "bitlen a = int A + 1" "bitlen b = int B + 1" using pos by (simp_all add: A_def B_def)
  have ia: "2 ^ A \<le> a" "a < 2 ^ Suc A" using bitlen_bounds[OF a] AB by (simp_all add: nat_add_distrib)
  have ib: "2 ^ B \<le> b" "b < 2 ^ Suc B" using bitlen_bounds[OF b] AB by (simp_all add: nat_add_distrib)
  have ra: "(2::rat) ^ A \<le> of_int a" "of_int a < (2::rat) ^ Suc A"
    using of_int_le_iff[of "2 ^ A" a, where ?'a = rat] of_int_less_iff[of a "2 ^ Suc A", where ?'a = rat] ia
    by simp_all
  have rb: "(2::rat) ^ B \<le> of_int b" "of_int b < (2::rat) ^ Suc B"
    using of_int_le_iff[of "2 ^ B" b, where ?'a = rat] of_int_less_iff[of b "2 ^ Suc B", where ?'a = rat] ib
    by simp_all
  have e: "bitlen a - bitlen b = int A - int B" by (simp add: AB)
  have bp: "0 < (of_int b :: rat)" using b by simp
  have "x < 2 ^ Suc A / 2 ^ B"
    unfolding x using ra rb bp a by (intro frac_less) auto
  also have "\<dots> = 2 powi (int A - int B + 1)"
    by (simp add: power_int_diff power_int_add field_simps)
  finally have up: "x < 2 powi (int A - int B + 1)" .
  have "2 powi (int A - int B - 1) = (2::rat) ^ A / 2 ^ Suc B"
    by (simp add: power_int_diff power_int_add field_simps)
  also have "\<dots> \<le> x"
    unfolding x using ra rb bp a by (intro frac_le) auto
  finally have lo: "2 powi (int A - int B - 1) \<le> x" .
  show "2 powi (ilog2 x) \<le> x" "x < 2 powi (ilog2 x + 1)"
    using up lo by (simp_all add: ilog2_def q Let_def e)
qed

lemma f64_error: "\<bar>f64 x - x\<bar> \<le> \<bar>x\<bar> / 2 ^ 53"
proof (cases "x = 0")
  case False
  define u :: rat where "u = 2 powi (ilog2 \<bar>x\<bar> - 52)"
  have u: "0 < u" by (simp add: u_def)
  have "f64 x - x = (of_int (round_even (x / u)) - x / u) * u"
    using False u by (simp add: f64_def u_def[symmetric] Let_def field_simps)
  then have "\<bar>f64 x - x\<bar> \<le> 1 / 2 * u"
    using round_even_near[of "x / u"] u by (simp add: abs_mult)
  also have "1 / 2 * u = 2 powi (ilog2 \<bar>x\<bar>) / 2 ^ 53"
    by (simp add: u_def power_int_diff)
  also have "\<dots> \<le> \<bar>x\<bar> / 2 ^ 53"
    using ilog2_bounds(1)[of "\<bar>x\<bar>"] False by (simp add: divide_right_mono)
  finally show ?thesis .
qed (simp add: f64_def)

text \<open>Every integer of at most 53 bits is a double.\<close>

lemma f64_int:
  assumes "\<bar>n\<bar> < 2 ^ 53" shows "f64 (of_int n) = of_int n"
proof (cases "n = 0")
  case False
  define e where "e = ilog2 \<bar>of_int n :: rat\<bar>"
  have p: "0 < \<bar>of_int n :: rat\<bar>" using False by simp
  have n: "\<bar>of_int n :: rat\<bar> < 2 powi 53"
    using assms of_int_less_iff[of "\<bar>n\<bar>" "2 ^ 53", where ?'a = rat] by (simp add: power_int_def)
  with ilog2_bounds(1)[OF p] have "(2::rat) powi e < 2 powi 53" by (simp add: e_def)
  then have "e < 53" using power_int_increasing[of 53 e "2::rat"] by linarith
  then obtain k where "52 - e = int k" using zero_le_imp_eq_int[of "52 - e"] by auto
  then have k: "e - 52 = - int k" by simp
  have "(of_int n :: rat) / 2 powi (e - 52) = of_int (n * 2 ^ k)"
    by (simp add: k power_int_minus divide_inverse)
  then show ?thesis
    using False by (simp only: f64_def e_def[symmetric] Let_def round_even_int) (simp add: k power_int_minus)
qed (simp add: f64_def)

lemma f64_sign: "f64 x < 0 \<longleftrightarrow> x < 0"
  using f64_error[of x] by (auto simp: abs_le_iff abs_if split: if_splits)

text \<open>
  C26: the dollars the server prints are the balance to a nearest mill. For every amount below
  \<open>2 ^ 53\<close> micros (nine billion dollars) the text is the sign and the decimal of a number of mills
  that is at most half a mill from the micros, in spite of the two roundings to \<^verbatim>\<open>f64\<close>; a whole number
  of mills is printed exactly.
\<close>

theorem usd_nearest:
  assumes "\<bar>sint m\<bar> < 2 ^ 53"
  shows "\<exists>k. usd m = CHR ''$'' # (if sint m < 0 then ''-'' else []) @ fixed_digits 3 k
    \<and> \<bar>\<bar>sint m\<bar> - 1000 * int k\<bar> \<le> 500 \<and> (1000 dvd sint m \<longrightarrow> 1000 * int k = \<bar>sint m\<bar>)"
proof -
  define n where "n = sint m"
  define v :: rat where "v = of_int n / 1000000"
  define y where "y = \<bar>f64 v\<bar> * 10 ^ 3"
  define k where "k = nat (round_even y)"
  have f: "f64 (of_int n) = of_int n" using f64_int assms by (simp only: n_def)
  have N: "of_int \<bar>n\<bar> < (2::rat) ^ 53"
    using assms of_int_less_iff[of "\<bar>n\<bar>" "2 ^ 53", where ?'a = rat] by (simp add: n_def)
  have "\<bar>f64 v - v\<bar> \<le> \<bar>v\<bar> / 2 ^ 53" by (rule f64_error)
  also have "\<dots> < 1 / 1000000" using N by (simp add: v_def divide_less_eq)
  finally have close: "\<bar>y - of_int \<bar>n\<bar> / 1000\<bar> < 1 / 1000"
    by (auto simp: y_def v_def abs_if split: if_splits)
  have "\<bar>of_int (round_even y) - y\<bar> \<le> 1 / 2" by (rule round_even_near)
  with close have "\<bar>of_int (round_even y) - of_int \<bar>n\<bar> / 1000\<bar> < 1 / 2 + (1 / 1000 :: rat)" by linarith
  then have "of_int (round_even y) - of_int \<bar>n\<bar> / 1000 < (501 / 1000 :: rat)"
    "of_int \<bar>n\<bar> / 1000 - of_int (round_even y) < (501 / 1000 :: rat)"
    by (simp_all only: abs_less_iff) linarith+
  then have "of_int (1000 * round_even y - \<bar>n\<bar>) < (501 :: rat)"
    "of_int (\<bar>n\<bar> - 1000 * round_even y) < (501 :: rat)"
    by (simp_all only: of_int_diff of_int_mult of_int_numeral)
  then have near: "\<bar>1000 * round_even y - \<bar>n\<bar>\<bar> \<le> 500"
    by (simp only: of_int_less_numeral_iff)
  then have k: "1000 * int k = 1000 * round_even y" by (auto simp: k_def)
  have sgn: "f64 v < 0 \<longleftrightarrow> n < 0" by (simp add: f64_sign v_def divide_less_0_iff)
  have "usd m = CHR ''$'' # (if n < 0 then ''-'' else []) @ fixed_digits 3 k"
    using sgn by (simp only: usd_def show_fixed_def k_def y_def f flip: n_def v_def)
  moreover have "1000 * int k = \<bar>n\<bar>" if "1000 dvd n"
  proof -
    from that have "1000 dvd \<bar>n\<bar>" by simp
    then obtain q where q: "\<bar>n\<bar> = 1000 * q" by blast
    then have "\<bar>1000 * (int k - q)\<bar> \<le> 500" using near k by simp
    with q show ?thesis by simp
  qed
  ultimately show ?thesis using near k by (metis abs_minus_commute n_def)
qed

lemma usd_nearest_witness:
  "(\<exists>k. usd 1234000 = CHR ''$'' # fixed_digits 3 k \<and> 1000 * int k = 1234000)
   \<and> usd 1234000 = ''$1.234'' \<and> usd 62500 = ''$0.062'' \<and> usd (- 5) = ''$-0.000''"
proof -
  have "\<bar>sint (1234000 :: i64)\<bar> < 2 ^ 53" by simp
  from usd_nearest[OF this] have "\<exists>k. usd 1234000 = CHR ''$'' # fixed_digits 3 k \<and> 1000 * int k = 1234000"
    by auto
  moreover have "usd 1234000 = ''$1.234''" by code_simp
  moreover have "usd 62500 = ''$0.062''" by code_simp
  moreover have "usd (- 5) = ''$-0.000''" by code_simp
  ultimately show ?thesis by blast
qed

end
