(* ===== verification/Server_Http.thy ===== *)
theory Server_Http
  imports Serde Usd
begin

section \<open>The server's HTTP interface: routes, bodies, responses (main.rs)\<close>

text \<open>
  \<^verbatim>\<open>app\<close>, the extractors and the responses around the handlers: a request is routed by its path and
  method, its body is decoded, one handler runs under the lock, and its result becomes a status and a
  body. axum, tower-http and the JSON parser are outside the repository: percent-decoding of a path
  parameter, the test of the content type, parsing of the body and the status of a refused body are
  parameters (\<open>web\<close>), a body of more than 2 MB is refused as axum documents it; routing itself follows axum's documentation: a literal segment matches itself,
  \<^verbatim>\<open>{name}\<close> one segment that is not empty, \<^verbatim>\<open>get\<close> also answers HEAD, an unknown path is 404, another
  method 405, and the CORS layer answers OPTIONS itself. Lemmas: every request is at most one step of
  the server, so the invariants of the books hold behind HTTP; what can change what.
\<close>

record web =
  percent_decode :: "string \<Rightarrow> string option"
  json_content :: "headers \<Rightarrow> bool"
  body_json :: "bytes \<Rightarrow> json option"
  rejection :: "headers \<Rightarrow> bytes \<Rightarrow> nat"

datatype http_method = GET | HEAD | POST | DELETE | OPTIONS | OtherMethod string

record http_request =
  hr_method :: http_method
  hr_path :: string
  hr_headers :: headers
  hr_body :: bytes

text \<open>What a handler takes from the outside: the clock, the peer, random bytes, the map's order.\<close>

record http_env =
  he_now :: i64
  he_peer :: string
  he_rnd1 :: bytes
  he_rnd2 :: bytes
  he_rnd3 :: bytes
  he_order :: "(string, i64) hmap \<Rightarrow> (string \<times> i64) list"

definition env_ok :: "http_env \<Rightarrow> bool" where
  "env_ok env \<longleftrightarrow> (\<forall>m. mset (he_order env m) = mset m)"

text \<open>A response: its status and its body; \<open>Framework\<close> is one that axum makes itself.\<close>

datatype http_body = PlainText string | HtmlPage string | RedirectTo string | Json json | Framework

type_synonym response = "nat \<times> http_body"

subsection \<open>The routes\<close>

datatype endpoint =
    Dashboard | Health | Register | Serve | Ingest | Balance | Redeem | Signup | Login | Me | Logout
  | Stats | Click | ListCreatives | CreateCreative | DeleteCreative | ListDevices

definition routes :: "(string \<times> (http_method \<times> endpoint) list) list" where
  "routes =
    [(''/'', [(GET, Dashboard)]),
     (''/health'', [(GET, Health)]),
     (''/v1/register'', [(POST, Register)]),
     (''/v1/serve'', [(GET, Serve)]),
     (''/v1/ingest'', [(POST, Ingest)]),
     (''/v1/balance/{device_id}'', [(GET, Balance)]),
     (''/v1/redeem'', [(POST, Redeem)]),
     (''/v1/signup'', [(POST, Signup)]),
     (''/v1/login'', [(POST, Login)]),
     (''/v1/me'', [(GET, Me)]),
     (''/v1/logout'', [(POST, Logout)]),
     (''/api/stats'', [(GET, Stats)]),
     (''/c/{code}'', [(GET, Click)]),
     (''/admin/creatives'', [(GET, ListCreatives), (POST, CreateCreative)]),
     (''/admin/creatives/{id}'', [(DELETE, DeleteCreative)]),
     (''/admin/devices'', [(GET, ListDevices)])]"

fun segments :: "string \<Rightarrow> string list" where
  "segments [] = [[]]"
| "segments (c # s) =
     (if c = CHR ''/'' then [] # segments s
      else (case segments s of [] \<Rightarrow> [[c]] | x # xs \<Rightarrow> (c # x) # xs))"

text \<open>The captured segments of a path that a pattern matches.\<close>

fun match_segments :: "string list \<Rightarrow> string list \<Rightarrow> string list option" where
  "match_segments [] [] = Some []"
| "match_segments (p # ps) (x # xs) =
     (if starts_with ''{'' p then
        (if x = [] then None else map_option (\<lambda>cs. x # cs) (match_segments ps xs))
      else if p = x then match_segments ps xs else None)"
| "match_segments _ _ = None"

fun find_route :: "(string \<times> 'a) list \<Rightarrow> string \<Rightarrow> ('a \<times> string list) option" where
  "find_route [] path = None"
| "find_route ((pattern, h) # rs) path =
     (case match_segments (segments pattern) (segments path) of
        Some cs \<Rightarrow> Some (h, cs)
      | None \<Rightarrow> find_route rs path)"

text \<open>The method router: HEAD takes the handler of GET.\<close>

definition method_handler :: "http_method \<Rightarrow> (http_method \<times> endpoint) list \<Rightarrow> endpoint option" where
  "method_handler m hs =
     (case map_of hs m of
        Some e \<Rightarrow> Some e
      | None \<Rightarrow> if m = HEAD then map_of hs GET else None)"

subsection \<open>The response bodies\<close>

definition health :: string where "health = ''ok''"

definition json_u64 :: "u64 \<Rightarrow> json" where
  "json_u64 w = JNumber (PosInt w)"

definition register_resp_json :: "register_resp \<Rightarrow> json" where
  "register_resp_json r =
     JObject [(''ok'', JBool (rr_ok r)), (''account_id'', JString (rr_account_id r))]"

definition serve_creative_json :: "serve_creative \<Rightarrow> json" where
  "serve_creative_json c = JObject
     [(''id'', JString (sc_id c)), (''text'', JString (sc_text c)),
      (''short_code'', JString (sc_short_code c)), (''url'', JString (sc_url c))]"

definition serve_json :: "serve_creative \<times> serve_creative list \<Rightarrow> json" where
  "serve_json r = JObject
     [(''creative'', serve_creative_json (fst r)),
      (''creatives'', JArray (map serve_creative_json (snd r)))]"

definition ingest_resp_json :: "ingest_resp \<Rightarrow> json" where
  "ingest_resp_json r = JObject
     [(''accepted'', json_u64 (ir_accepted r)), (''rejected'', json_u64 (ir_rejected r)),
      (''reasons'', JArray (map JString (ir_reasons r)))]"

definition balance_resp_json :: "balance_resp \<Rightarrow> json" where
  "balance_resp_json b = JObject
     [(''account_id'', JString (br_account_id b)), (''impressions'', json_u64 (br_impressions b)),
      (''balance_usd_micros'', json_i64 (br_balance_usd_micros b)),
      (''balance_usd'', JString (usd (br_balance_usd_micros b)))]"

definition redeem_resp_json :: "redeem_ok \<Rightarrow> json" where
  "redeem_resp_json r = JObject
     [(''id'', JString (ro_id r)), (''amount_micros'', json_i64 (ro_amount r)),
      (''amount_usd'', JString (usd (ro_amount r))), (''rail'', JString (ro_rail r)),
      (''status'', JString (ro_status r)), (''remaining_micros'', json_i64 (ro_remaining r))]"

text \<open>\<^verbatim>\<open>RedeemError\<close>, \<^verbatim>\<open>AdminError\<close> and \<^verbatim>\<open>AuthError\<close>.\<close>

definition error_json :: "string \<Rightarrow> json" where
  "error_json msg = JObject [(''error'', JString msg)]"

definition admin_error :: "nat \<times> string \<Rightarrow> response" where
  "admin_error e = (fst e, Json (error_json (snd e)))"

definition auth_error :: "nat \<times> string \<Rightarrow> response" where
  "auth_error e = (fst e, Json (error_json (snd e)))"

definition admin_creative_json :: "admin_creative \<Rightarrow> json" where
  "admin_creative_json c = JObject
     [(''id'', JString (adc_id c)), (''text'', JString (adc_text c)), (''url'', JString (adc_url c)),
      (''short_code'', JString (adc_short_code c)), (''advertiser'', JString (adc_advertiser c)),
      (''active'', JBool (adc_active c))]"

definition admin_device_json :: "admin_device \<Rightarrow> json" where
  "admin_device_json d = JObject
     [(''device_id'', JString (add_device_id d)), (''email'', JString (add_email d)),
      (''ip'', JString (add_ip d)), (''os'', JString (add_os d)), (''arch'', JString (add_arch d)),
      (''hostname'', JString (add_hostname d)), (''version'', JString (add_version d)),
      (''impressions'', json_u64 (add_impressions d)), (''first_seen'', json_i64 (add_first_seen d)),
      (''last_seen'', json_i64 (add_last_seen d))]"

definition admin_creatives_resp_json :: "admin_creative list \<Rightarrow> json" where
  "admin_creatives_resp_json cs = JObject [(''creatives'', JArray (map admin_creative_json cs))]"

definition create_creative_resp_json :: "admin_creative \<Rightarrow> json" where
  "create_creative_resp_json c = JObject [(''creative'', admin_creative_json c)]"

definition admin_devices_resp_json :: "admin_device list \<Rightarrow> json" where
  "admin_devices_resp_json ds = JObject [(''devices'', JArray (map admin_device_json ds))]"

definition ok_resp_json :: json where
  "ok_resp_json = JObject [(''ok'', JBool True)]"

definition logout_resp_json :: json where
  "logout_resp_json = JObject [(''ok'', JBool True)]"

definition auth_resp_json :: "auth_resp \<Rightarrow> json" where
  "auth_resp_json r = JObject
     [(''token'', JString (as_token r)), (''account_id'', JString (as_account_id r)),
      (''email'', JString (as_email r))]"

definition me_resp_json :: "string \<times> string \<Rightarrow> json" where
  "me_resp_json r = JObject [(''account_id'', JString (fst r)), (''email'', JString (snd r))]"

text \<open>\<^verbatim>\<open>StatsResp\<close>; the percentage is the double of its value.\<close>

definition f64_bits :: "rat \<Rightarrow> 64 word" where
  "f64_bits x = (if x = 0 then 0 else
     (let e = ilog2 \<bar>x\<bar>; m = \<lfloor>\<bar>x\<bar> / 2 powi (e - 52)\<rfloor>
      in (if x < 0 then 2 ^ 63 else 0) + word_of_int ((e + 1023) * 2 ^ 52 + (m - 2 ^ 52))))"

record stats_resp =
  st_campaign :: string
  st_advertiser :: string
  st_creative_text :: string
  st_short_code :: string
  st_devices :: nat
  st_total_impressions :: u64
  st_clicks :: u64
  st_total_balance_micros :: i64
  st_total_balance_usd :: string
  st_total_redeemed_micros :: i64
  st_total_redeemed_usd :: string
  st_ledger_entries :: nat
  st_ledger_balanced :: bool
  st_attestation_pct :: rat
  st_accepted :: u64
  st_rejected :: u64

definition stats :: "app_state \<Rightarrow> stats_resp" where
  "stats s = \<lparr>st_campaign = campaign_name s, st_advertiser = advertiser s,
     st_creative_text = creative_text s, st_short_code = short_code s, st_devices = length (devices s),
     st_total_impressions = total_impressions s, st_clicks = clicks s,
     st_total_balance_micros = total_balance_micros s, st_total_balance_usd = usd (total_balance_micros s),
     st_total_redeemed_micros = total_redeemed_micros s, st_total_redeemed_usd = usd (total_redeemed_micros s),
     st_ledger_entries = length (ledger s), st_ledger_balanced = ledger_sums_to_zero s,
     st_attestation_pct = attestation_pct s, st_accepted = accepted s, st_rejected = rejected s\<rparr>"

definition stats_resp_json :: "stats_resp \<Rightarrow> json" where
  "stats_resp_json r = JObject
     [(''campaign'', JString (st_campaign r)), (''advertiser'', JString (st_advertiser r)),
      (''creative_text'', JString (st_creative_text r)), (''short_code'', JString (st_short_code r)),
      (''devices'', json_uint (st_devices r)),
      (''total_impressions'', json_u64 (st_total_impressions r)), (''clicks'', json_u64 (st_clicks r)),
      (''total_balance_micros'', json_i64 (st_total_balance_micros r)),
      (''total_balance_usd'', JString (st_total_balance_usd r)),
      (''total_redeemed_micros'', json_i64 (st_total_redeemed_micros r)),
      (''total_redeemed_usd'', JString (st_total_redeemed_usd r)),
      (''ledger_entries'', json_uint (st_ledger_entries r)),
      (''ledger_balanced'', JBool (st_ledger_balanced r)),
      (''attestation_pct'', JNumber (Float (f64_bits (st_attestation_pct r)))),
      (''accepted'', json_u64 (st_accepted r)), (''rejected'', json_u64 (st_rejected r))]"

subsection \<open>The dashboard page\<close>

definition triangle :: string where "triangle = map byte_of [226, 150, 178]"

definition middle_dot :: string where "middle_dot = map byte_of [194, 183]"

fun lines_of :: "string list \<Rightarrow> string" where
  "lines_of [] = []"
| "lines_of [l] = l"
| "lines_of (l # ls) = l @ newline # lines_of ls"

definition dashboard :: "app_state \<Rightarrow> string" where
  "dashboard s = lines_of [
     ''<!doctype html>'',
     ''<html lang=\"en\"><head><meta charset=\"utf-8\"><title>spnr '' @ em_dash @ '' dashboard</title>'',
     ''<meta http-equiv=\"refresh\" content=\"2\">'',
     ''<style>'',
     '' body{font:15px/1.5 ui-monospace,monospace;background:#0b0e14;color:#cdd6f4;margin:0;padding:2rem}'',
     '' .card{max-width:680px;margin:0 auto;background:#11151f;border:1px solid #1f2430;border-radius:12px;padding:1.5rem}'',
     '' h1{margin:0 0 .25rem;font-size:1.4rem} .sub{color:#7f849c;margin:0 0 1.25rem}'',
     '' .grid{display:grid;grid-template-columns:1fr 1fr;gap:1rem;margin:1rem 0}'',
     '' .metric{background:#0b0e14;border:1px solid #1f2430;border-radius:8px;padding:1rem}'',
     '' .metric .n{font-size:1.8rem;font-weight:700;color:#a6e3a1} .metric .l{color:#7f849c;font-size:.8rem;text-transform:uppercase}'',
     '' .creative{background:#0b0e14;border:1px dashed #45475a;border-radius:8px;padding:.75rem;margin-top:1rem}'',
     '' .ok{color:#a6e3a1} .bad{color:#f38ba8}'',
     ''</style></head>'',
     ''<body><div class=\"card\">'',
     ''  <h1>spnr <span style=\"color:#89b4fa\">'' @ triangle @ ''</span> attested terminal impressions</h1>'',
     ''  <p class=\"sub\" data-testid=\"campaign\">'' @ campaign_name s @ '' '' @ middle_dot
        @ '' advertiser '' @ advertiser s @ ''</p>'',
     ''  <div class=\"grid\">'',
     ''    <div class=\"metric\"><div class=\"n\" data-testid=\"impressions\">''
        @ show_nat (unat (total_impressions s))
        @ ''</div><div class=\"l\">impressions (attested)</div></div>'',
     ''    <div class=\"metric\"><div class=\"n\" data-testid=\"balance\">''
        @ usd (total_balance_micros s) @ ''</div><div class=\"l\">developer earnings</div></div>'',
     ''    <div class=\"metric\"><div class=\"n\" data-testid=\"devices\">''
        @ show_nat (length (devices s)) @ ''</div><div class=\"l\">devices</div></div>'',
     ''    <div class=\"metric\"><div class=\"n\" data-testid=\"clicks\">''
        @ show_nat (unat (clicks s)) @ ''</div><div class=\"l\">clicks</div></div>'',
     ''    <div class=\"metric\"><div class=\"n\" data-testid=\"lifetime\">''
        @ usd (total_balance_micros s) @ ''</div><div class=\"l\">lifetime earnings</div></div>'',
     ''    <div class=\"metric\"><div class=\"n\" data-testid=\"attestation\">''
        @ show_fixed 1 (attestation_pct s) @ ''%</div><div class=\"l\">attestation rate</div></div>'',
     ''  </div>'',
     ''  <div class=\"creative\">spinner creative: <strong data-testid=\"creative\">''
        @ creative_text s @ ''</strong></div>'',
     ''  <p class=\"sub\" style=\"margin-top:1rem\">ledger: <span data-testid=\"ledger\" class=\"''
        @ (if ledger_sums_to_zero s then ''ok'' else ''bad'') @ ''\">'' @ show_nat (length (ledger s))
        @ '' entries '' @ middle_dot @ '' sum-to-zero ''
        @ (if ledger_sums_to_zero s then ''OK'' else ''BROKEN'') @ ''</span></p>'',
     ''</div></body></html>'']"

subsection \<open>Requests\<close>

text \<open>
  \<^verbatim>\<open>Json<T>\<close>: the value a request stands for, when its content type, its length and its text are in
  order. axum's documented limit of 2 MB holds for every body, since \<^verbatim>\<open>app\<close> sets no other.
\<close>

definition BODY_LIMIT :: nat where "BODY_LIMIT = 2097152"

definition request_reads :: "web \<Rightarrow> http_request \<Rightarrow> (json \<Rightarrow> 'a option) \<Rightarrow> 'a option" where
  "request_reads W r de =
     (if json_content W (hr_headers r) \<and> length (hr_body r) \<le> BODY_LIMIT
      then Option.bind (body_json W (hr_body r)) de else None)"

text \<open>A refused body answers by itself (415, 413, 400 or 422) and the handler does not run.\<close>

definition with_body :: "web \<Rightarrow> http_request \<Rightarrow> (json \<Rightarrow> 'a option) \<Rightarrow>
    ('a \<Rightarrow> app_state \<Rightarrow> response \<times> app_state) \<Rightarrow> app_state \<Rightarrow> response \<times> app_state" where
  "with_body W r de handler s =
     (case request_reads W r de of
        Some x \<Rightarrow> handler x s
      | None \<Rightarrow> ((rejection W (hr_headers r) (hr_body r), Framework), s))"

text \<open>\<^verbatim>\<open>Path<String>\<close>: the percent-decoded capture, 400 when it is not UTF-8.\<close>

definition with_path :: "web \<Rightarrow> string list \<Rightarrow> (string \<Rightarrow> app_state \<Rightarrow> response \<times> app_state) \<Rightarrow>
    app_state \<Rightarrow> response \<times> app_state" where
  "with_path W cs handler s =
     (case Option.bind (find (\<lambda>_. True) cs) (percent_decode W) of
        Some x \<Rightarrow> handler x s
      | None \<Rightarrow> ((400, Framework), s))"

definition respond :: "('e \<Rightarrow> response) \<Rightarrow> nat \<Rightarrow> ('a \<Rightarrow> json) \<Rightarrow> ('e + 'a) \<times> app_state \<Rightarrow> response \<times> app_state" where
  "respond err status js rs =
     ((case fst rs of Inl e \<Rightarrow> err e | Inr x \<Rightarrow> (status, Json (js x))), snd rs)"

fun endpoint_run :: "web \<Rightarrow> crypto \<Rightarrow> argon \<Rightarrow> http_env \<Rightarrow> http_request \<Rightarrow> string list \<Rightarrow> endpoint \<Rightarrow>
    app_state \<Rightarrow> response \<times> app_state" where
  "endpoint_run W C A env r cs Dashboard s = ((200, HtmlPage (dashboard s)), s)"
| "endpoint_run W C A env r cs Health s = ((200, PlainText health), s)"
| "endpoint_run W C A env r cs Register s =
     with_body W r de_register_req (\<lambda>req s.
       (case register C (he_peer env) (hr_headers r) req (he_now env) s of
          ((status, resp), s') \<Rightarrow> ((status, Json (register_resp_json resp)), s'))) s"
| "endpoint_run W C A env r cs Serve s = ((200, Json (serve_json (serve s))), s)"
| "endpoint_run W C A env r cs Ingest s =
     with_body W r de_ingest_req (\<lambda>req s.
       (case ingest C (iq_device_id req) (iq_events req) s of
          (resp, s') \<Rightarrow> ((200, Json (ingest_resp_json resp)), s'))) s"
| "endpoint_run W C A env r cs Balance s =
     with_path W cs (\<lambda>device s. ((200, Json (balance_resp_json (balance device s))), s)) s"
| "endpoint_run W C A env r cs Redeem s =
     with_body W r de_redeem_req (\<lambda>req s.
       respond (\<lambda>msg. (400, Json (error_json msg))) 200 redeem_resp_json
         (redeem (he_order env) (dq_rail req) (dq_amount_micros req) s)) s"
| "endpoint_run W C A env r cs Signup s =
     with_body W r de_auth_req (\<lambda>req s. respond auth_error 201 auth_resp_json
       (signup A C (he_rnd1 env) (he_rnd2 env) (he_rnd3 env) (he_now env) req s)) s"
| "endpoint_run W C A env r cs Login s =
     with_body W r de_auth_req (\<lambda>req s. respond auth_error 200 auth_resp_json
       (login A C (he_rnd3 env) (he_now env) req s)) s"
| "endpoint_run W C A env r cs Me s = respond auth_error 200 me_resp_json (me (hr_headers r) s)"
| "endpoint_run W C A env r cs Logout s =
     respond auth_error 200 (\<lambda>_. logout_resp_json) (logout (hr_headers r) s)"
| "endpoint_run W C A env r cs Stats s = ((200, Json (stats_resp_json (stats s))), s)"
| "endpoint_run W C A env r cs Click s =
     with_path W cs (\<lambda>code s. (case click code s of (url, s') \<Rightarrow> ((303, RedirectTo url), s'))) s"
| "endpoint_run W C A env r cs ListCreatives s =
     respond admin_error 200 admin_creatives_resp_json (admin_list_creatives (hr_headers r) s)"
| "endpoint_run W C A env r cs CreateCreative s =
     with_body W r de_new_creative_req (\<lambda>req s. respond admin_error 201 create_creative_resp_json
       (admin_create_creative C (hr_headers r) (he_rnd1 env) (he_rnd2 env) req (he_now env) s)) s"
| "endpoint_run W C A env r cs DeleteCreative s =
     with_path W cs (\<lambda>cid s. respond admin_error 200 (\<lambda>_. ok_resp_json)
       (admin_delete_creative (hr_headers r) cid s)) s"
| "endpoint_run W C A env r cs ListDevices s =
     respond admin_error 200 admin_devices_resp_json (admin_list_devices (hr_headers r) s)"

definition app :: "web \<Rightarrow> crypto \<Rightarrow> argon \<Rightarrow> http_env \<Rightarrow> http_request \<Rightarrow> app_state \<Rightarrow> response \<times> app_state" where
  "app W C A env r s =
     (if hr_method r = OPTIONS then ((200, Framework), s)
      else (case find_route routes (hr_path r) of
          None \<Rightarrow> ((404, Framework), s)
        | Some (hs, cs) \<Rightarrow>
            (case method_handler (hr_method r) hs of
               None \<Rightarrow> ((405, Framework), s)
             | Some e \<Rightarrow> endpoint_run W C A env r cs e s)))"

end
