(* ===== verification/Engine.thy ===== *)
theory Engine
  imports Prelude
begin

section \<open>The impression engine (spnrd, engine.rs)\<close>

text \<open>
  The per-session state machine that turns a wait into impressions. Times are unix
  milliseconds; a \<^verbatim>\<open>u64\<close> is a \<^typ>\<open>nat\<close> here, since every sum stays below the close time of the
  interval it is formed from (\<^verbatim>\<open>countable_le_wall\<close>). Lemmas: the loop over the ticks counts
  exactly the ticks a fresh heartbeat covers; what an interval returns with and without tool
  time; and over whole traces the bound of the impressions by the elapsed time.
\<close>

definition GATE_WINDOW_MS :: nat where "GATE_WINDOW_MS = 2000"
definition IMPRESSION_SECONDS :: nat where "IMPRESSION_SECONDS = 5"
definition MAX_IMPRESSIONS_PER_INTERVAL :: nat where "MAX_IMPRESSIONS_PER_INTERVAL = 60"

lemmas engine_consts = GATE_WINDOW_MS_def IMPRESSION_SECONDS_def MAX_IMPRESSIONS_PER_INTERVAL_def

datatype phase = Idle | Waiting | ToolRunning

record session =
  phase :: phase
  subspan_open_ms :: "nat option"
  countable_seconds :: nat
  heartbeats :: "nat list"
  paused :: bool
  tty_attested :: bool

definition default_session :: session where
  "default_session = \<lparr>phase = Idle, subspan_open_ms = None, countable_seconds = 0,
     heartbeats = [], paused = False, tty_attested = True\<rparr>"

subsection \<open>Counting the seconds of a sub-span\<close>

text \<open>\<^verbatim>\<open>heartbeats.iter().filter(|h| h <= tick).max()\<close>\<close>

fun max_opt :: "nat list \<Rightarrow> nat option" where
  "max_opt [] = None"
| "max_opt (x # xs) = (case max_opt xs of None \<Rightarrow> Some x | Some m \<Rightarrow> Some (max x m))"

definition countable_seconds_in :: "nat \<Rightarrow> nat \<Rightarrow> nat list \<Rightarrow> nat \<Rightarrow> bool \<Rightarrow> bool \<Rightarrow> nat" where
  "countable_seconds_in open_ms close_ms hbs gate_window_ms is_paused attested =
     (if is_paused \<or> \<not> attested \<or> close_ms \<le> open_ms then 0
      else
        (let whole = (close_ms - open_ms) div 1000
         in fold (\<lambda>k count.
              let tick = open_ms + k * 1000;
                  recent = max_opt (filter (\<lambda>h. h \<le> tick) hbs)
              in (case recent of
                    Some h \<Rightarrow> if tick - h \<le> gate_window_ms then count + 1 else count
                  | None \<Rightarrow> count)) [1..<whole + 1] 0))"

subsection \<open>The operations\<close>

definition set_paused :: "bool \<Rightarrow> session \<Rightarrow> session" where
  "set_paused b s = s\<lparr>paused := b\<rparr>"

definition set_tty_attested :: "bool \<Rightarrow> session \<Rightarrow> session" where
  "set_tty_attested b s = s\<lparr>tty_attested := b\<rparr>"

definition on_heartbeat :: "nat \<Rightarrow> session \<Rightarrow> session" where
  "on_heartbeat ts s = s\<lparr>heartbeats := heartbeats s @ [ts]\<rparr>"

definition reset_interval :: "session \<Rightarrow> session" where
  "reset_interval s = s\<lparr>phase := Idle, subspan_open_ms := None, countable_seconds := 0,
     heartbeats := []\<rparr>"

definition close_subspan :: "nat \<Rightarrow> session \<Rightarrow> session" where
  "close_subspan close_ms s =
     (case subspan_open_ms s of
        None \<Rightarrow> s
      | Some open_ms \<Rightarrow>
          s\<lparr>subspan_open_ms := None,
            countable_seconds := countable_seconds s +
              countable_seconds_in open_ms close_ms (heartbeats s) GATE_WINDOW_MS
                (paused s) (tty_attested s)\<rparr>)"

definition on_prompt_submit :: "nat \<Rightarrow> session \<Rightarrow> session" where
  "on_prompt_submit ts s = (reset_interval s)\<lparr>phase := Waiting, subspan_open_ms := Some ts\<rparr>"

definition on_pre_tool :: "nat \<Rightarrow> session \<Rightarrow> session" where
  "on_pre_tool ts s =
     (if phase s = Waiting then (close_subspan ts s)\<lparr>phase := ToolRunning\<rparr> else s)"

definition on_post_tool :: "nat \<Rightarrow> session \<Rightarrow> session" where
  "on_post_tool ts s =
     (if phase s = ToolRunning then s\<lparr>phase := Waiting, subspan_open_ms := Some ts\<rparr> else s)"

text \<open>\<^verbatim>\<open>on_stop\<close> returns the impressions of the interval and resets it.\<close>

definition on_stop :: "nat \<Rightarrow> session \<Rightarrow> nat \<times> session" where
  "on_stop ts s =
     (let s1 = (if phase s = Waiting then close_subspan ts s else s);
          impressions = min (countable_seconds s1 div IMPRESSION_SECONDS) MAX_IMPRESSIONS_PER_INTERVAL
      in (impressions, reset_interval s1))"

lemmas engine_ops = set_paused_def set_tty_attested_def on_heartbeat_def reset_interval_def
  close_subspan_def on_prompt_submit_def on_pre_tool_def on_post_tool_def on_stop_def

subsection \<open>What the tick loop counts\<close>

lemma max_opt_None [simp]: "max_opt xs = None \<longleftrightarrow> xs = []"
  by (cases xs) (auto split: option.splits)

lemma max_opt_Some: "max_opt xs = Some m \<Longrightarrow> m \<in> set xs \<and> (\<forall>x \<in> set xs. x \<le> m)"
proof (induction xs arbitrary: m)
  case Nil
  then show ?case by simp
next
  case (Cons x xs)
  then show ?case by (cases "max_opt xs") (force simp: max_def)+
qed

text \<open>A tick is fresh when some heartbeat at or before it is within the gate window.\<close>

definition fresh_tick :: "nat list \<Rightarrow> nat \<Rightarrow> nat \<Rightarrow> bool" where
  "fresh_tick hbs gate tick \<longleftrightarrow> (\<exists>h \<in> set hbs. h \<le> tick \<and> tick \<le> h + gate)"

lemma recent_fresh:
  "(case max_opt (filter (\<lambda>h. h \<le> tick) hbs) of
      Some h \<Rightarrow> tick - h \<le> gate | None \<Rightarrow> False) \<longleftrightarrow> fresh_tick hbs gate tick"
proof (cases "max_opt (filter (\<lambda>h. h \<le> tick) hbs)")
  case None
  then have "filter (\<lambda>h. h \<le> tick) hbs = []" by simp
  with None show ?thesis by (auto simp: fresh_tick_def filter_empty_conv)
next
  case (Some m)
  with max_opt_Some[OF Some] show ?thesis by (force simp: fresh_tick_def)
qed

lemma fold_count_if:
  "fold (\<lambda>k count. if P k then count + 1 else count) ks (n::nat) = n + length (filter P ks)"
  by (induction ks arbitrary: n) auto

lemma countable_filter:
  "countable_seconds_in opn c hbs gate p a =
     (if p \<or> \<not> a \<or> c \<le> opn then 0
      else length (filter (\<lambda>k. fresh_tick hbs gate (opn + k * 1000)) [1..<(c - opn) div 1000 + 1]))"
proof -
  have step: "(\<lambda>k count. let tick = opn + k * 1000; recent = max_opt (filter (\<lambda>h. h \<le> tick) hbs)
       in (case recent of Some h \<Rightarrow> if tick - h \<le> gate then count + 1 else count | None \<Rightarrow> count))
     = (\<lambda>k count. if fresh_tick hbs gate (opn + k * 1000) then count + 1 else (count::nat))"
    by (auto simp: fun_eq_iff Let_def simp flip: recent_fresh split: option.splits)
  show ?thesis
    unfolding countable_seconds_in_def Let_def[of "(c - opn) div 1000"] step fold_count_if by simp
qed

lemma countable_card:
  "countable_seconds_in opn c hbs gate p a =
     (if p \<or> \<not> a then 0
      else card {k. 1 \<le> k \<and> opn + k * 1000 \<le> c \<and> fresh_tick hbs gate (opn + k * 1000)})"
proof (cases "p \<or> \<not> a")
  case False
  let ?P = "\<lambda>k. fresh_tick hbs gate (opn + k * 1000)"
  have "length (filter ?P [1..<(c - opn) div 1000 + 1]) = card (set (filter ?P [1..<(c - opn) div 1000 + 1]))"
    by (rule distinct_card [symmetric]) simp
  also have "set (filter ?P [1..<(c - opn) div 1000 + 1]) = {k. 1 \<le> k \<and> opn + k * 1000 \<le> c \<and> ?P k}"
    if "opn < c" using that by (auto simp: less_Suc_eq_le less_eq_div_iff_mult_less_eq)
  finally have main: "opn < c \<Longrightarrow> length (filter ?P [1..<(c - opn) div 1000 + 1])
      = card {k. 1 \<le> k \<and> opn + k * 1000 \<le> c \<and> ?P k}" .
  show ?thesis
  proof (cases "c \<le> opn")
    case True
    then have "{k. 1 \<le> k \<and> opn + k * 1000 \<le> c \<and> ?P k} = {}" by auto
    with True show ?thesis by (simp only: countable_filter card.empty) simp
  next
    case c: False
    with main have "length (filter ?P [1..<(c - opn) div 1000 + 1])
      = card {k. 1 \<le> k \<and> opn + k * 1000 \<le> c \<and> ?P k}" by linarith
    with False c show ?thesis by (simp only: countable_filter) simp
  qed
next
  case True
  then show ?thesis by (auto simp: countable_filter simp del: upt_Suc)
qed

lemma countable_le_wall: "1000 * countable_seconds_in opn c hbs gate p a \<le> c - opn"
proof -
  have "length (filter (\<lambda>k. fresh_tick hbs gate (opn + k * 1000)) [1..<(c - opn) div 1000 + 1])
      \<le> (c - opn) div 1000"
    using length_filter_le[of "\<lambda>k. fresh_tick hbs gate (opn + k * 1000)" "[1..<(c - opn) div 1000 + 1]"]
    by (simp del: upt_Suc)
  then have "1000 * length (filter (\<lambda>k. fresh_tick hbs gate (opn + k * 1000)) [1..<(c - opn) div 1000 + 1])
      \<le> c - opn" by linarith
  then show ?thesis by (simp add: countable_filter del: upt_Suc)
qed

text \<open>A heartbeat opens a gate of three ticks at the most, so accrual is bounded by heartbeats.\<close>

lemma countable_le_heartbeats:
  "countable_seconds_in opn c hbs 2000 p a \<le> 3 * card (set hbs)"
proof -
  let ?T = "\<lambda>h. {k. 1 \<le> k \<and> opn + k * 1000 \<le> c \<and> h \<le> opn + k * 1000 \<and> opn + k * 1000 \<le> h + 2000}"
  have T: "card (?T h) \<le> 3" for h
  proof (cases "?T h = {}")
    case False
    then obtain k where k: "k \<in> ?T h" by blast
    define m where "m = (LEAST k. k \<in> ?T h)"
    have m: "m \<in> ?T h" unfolding m_def using k by (rule LeastI)
    have "m \<le> k'" if "k' \<in> ?T h" for k' unfolding m_def using that by (rule Least_le)
    then have "?T h \<subseteq> {m..m + 2}" using m by fastforce
    then have "card (?T h) \<le> card {m..m + 2}" by (rule card_mono[rotated]) simp
    then show ?thesis by simp
  next
    case True
    then show ?thesis by (simp only: card.empty)
  qed
  have "{k. 1 \<le> k \<and> opn + k * 1000 \<le> c \<and> fresh_tick hbs 2000 (opn + k * 1000)} = (\<Union>h \<in> set hbs. ?T h)"
    by (auto simp: fresh_tick_def)
  moreover have "card (\<Union>h \<in> set hbs. ?T h) \<le> (\<Sum>h \<in> set hbs. card (?T h))"
    by (rule card_UN_le) simp
  moreover have "(\<Sum>h \<in> set hbs. card (?T h)) \<le> card (set hbs) * 3"
    using sum_bounded_above[of "set hbs" "\<lambda>h. card (?T h)" 3] T by simp
  ultimately show ?thesis by (simp add: countable_card)
qed

subsection \<open>Traces\<close>

text \<open>The calls the daemon makes on a session, and a run of them with the impressions earned.\<close>

datatype engine_event =
    EvPrompt | EvPreTool | EvPostTool | EvStop | EvBeat | EvPaused bool | EvTty bool

fun engine_step :: "session \<Rightarrow> nat \<Rightarrow> engine_event \<Rightarrow> nat \<times> session" where
  "engine_step s t EvPrompt = (0, on_prompt_submit t s)"
| "engine_step s t EvPreTool = (0, on_pre_tool t s)"
| "engine_step s t EvPostTool = (0, on_post_tool t s)"
| "engine_step s t EvStop = on_stop t s"
| "engine_step s t EvBeat = (0, on_heartbeat t s)"
| "engine_step s t (EvPaused b) = (0, set_paused b s)"
| "engine_step s t (EvTty b) = (0, set_tty_attested b s)"

fun engine_run :: "session \<Rightarrow> (nat \<times> engine_event) list \<Rightarrow> nat" where
  "engine_run s [] = 0"
| "engine_run s ((t, e) # es) =
     fst (engine_step s t e) + engine_run (snd (engine_step s t e)) es"

text \<open>A sub-span is open exactly in the waiting phase.\<close>

definition session_wf :: "session \<Rightarrow> bool" where
  "session_wf s \<longleftrightarrow> (phase s = Waiting \<longleftrightarrow> subspan_open_ms s \<noteq> None)"

lemma default_session_wf [simp, wf_intros]: "session_wf default_session"
  by (simp add: session_wf_def default_session_def)

lemma engine_step_wf [wf_intros]: "session_wf s \<Longrightarrow> session_wf (snd (engine_step s t e))"
  by (cases e) (auto simp: session_wf_def engine_ops Let_def split: option.splits)

text \<open>
  The accounting invariant: \<open>b\<close> is the point in time up to which impressions have been paid for.
  The seconds counted so far fit between \<open>b\<close> and the start of the open sub-span (or the last
  event, when none is open).
\<close>

definition accounted :: "session \<Rightarrow> nat \<Rightarrow> nat \<Rightarrow> bool" where
  "accounted s t b \<longleftrightarrow> session_wf s
     \<and> (case subspan_open_ms s of
          Some opn \<Rightarrow> opn \<le> t \<and> b + 1000 * countable_seconds s \<le> opn
        | None \<Rightarrow> b + 1000 * countable_seconds s \<le> t)"

lemma accounted_close:
  assumes "accounted s t b" "t \<le> t'" "phase s = Waiting"
  shows "b + 1000 * countable_seconds (close_subspan t' s) \<le> t'"
proof -
  obtain opn where opn: "subspan_open_ms s = Some opn" "opn \<le> t" "b + 1000 * countable_seconds s \<le> opn"
    using assms(1,3) by (auto simp: accounted_def session_wf_def)
  with countable_le_wall[of opn t' "heartbeats s" GATE_WINDOW_MS "paused s" "tty_attested s"] assms(2)
  show ?thesis by (simp add: close_subspan_def)
qed

lemma accounted_step:
  assumes "accounted s t b" "t \<le> t'"
  shows "accounted (snd (engine_step s t' e)) t' (b + 5000 * fst (engine_step s t' e))"
proof -
  have wf: "session_wf (snd (engine_step s t' e))"
    using assms(1) engine_step_wf by (auto simp: accounted_def)
  have le: "b + 1000 * countable_seconds s \<le> t'"
    using assms by (auto simp: accounted_def split: option.splits)
  show ?thesis
  proof (cases e)
    case EvStop
    define s1 where "s1 = (if phase s = Waiting then close_subspan t' s else s)"
    have "b + 1000 * countable_seconds s1 \<le> t'"
      using accounted_close[OF assms] le by (simp add: s1_def)
    then have "b + 5000 * fst (on_stop t' s) \<le> t'"
      by (simp add: on_stop_def engine_consts Let_def flip: s1_def)
    then show ?thesis using wf EvStop
      by (simp add: accounted_def on_stop_def reset_interval_def Let_def)
  next
    case EvPreTool
    then show ?thesis
      using wf assms accounted_close[OF assms] le
      by (auto simp: accounted_def on_pre_tool_def session_wf_def split: option.splits)
  qed (use wf assms le in \<open>auto simp: accounted_def engine_ops split: option.splits\<close>)
qed

lemma engine_run_bound:
  assumes "accounted s t b" "sorted (map fst es)" "\<forall>x \<in> set es. t \<le> fst x"
  shows "b + 5000 * engine_run s es \<le> fold max (map fst es) t"
  using assms
proof (induction es arbitrary: s t b)
  case Nil
  then show ?case by (auto simp: accounted_def split: option.splits)
next
  case (Cons x es)
  obtain t' e where x: "x = (t', e)" by (cases x)
  have t: "t \<le> t'" using Cons.prems(3) by (simp add: x)
  from Cons.IH[OF accounted_step[OF Cons.prems(1) t, of e]] Cons.prems(2) t
  show ?case by (simp add: x algebra_simps max_absorb2)
qed

lemma fold_max_sorted:
  "sorted (x # xs) \<Longrightarrow> fold max xs (x::nat) = last (x # xs)"
proof (induction xs arbitrary: x)
  case Nil
  then show ?case by simp
next
  case (Cons y ys)
  from Cons.IH[of y] Cons.prems show ?case by (simp add: max_absorb1 max.commute)
qed

lemma engine_run_wall:
  assumes "sorted (map fst es)" "es \<noteq> []"
  shows "fst (hd es) + 5000 * engine_run default_session es \<le> fst (last es)"
proof -
  obtain t0 e0 es' where es: "es = (t0, e0) # es'" using assms(2) by (cases es) auto
  have "accounted default_session t0 t0"
    by (simp add: accounted_def default_session_def session_wf_def)
  from engine_run_bound[OF this assms(1)] assms(1)
  have "t0 + 5000 * engine_run default_session es \<le> fold max (map fst es) t0"
    by (auto simp: es)
  also have "\<dots> = last (map fst es)"
    using fold_max_sorted[of t0 "map fst es'"] assms(1) by (simp add: es)
  also have "\<dots> = fst (last es)" using assms(2) by (rule last_map)
  finally show ?thesis by (simp add: es)
qed

subsection \<open>Intervals\<close>

lemma on_heartbeats_fold:
  "fold on_heartbeat hs s = s\<lparr>heartbeats := heartbeats s @ hs\<rparr>"
  by (induction hs arbitrary: s) (simp_all add: on_heartbeat_def)

text \<open>
  C13: the tick loop counts exactly the whole seconds of the sub-span whose end has a heartbeat
  at or before it within the gate window, and nothing when the session is paused or not
  attested. In particular no heartbeat means no countable second.
\<close>

theorem countable_seconds_spec:
  "countable_seconds_in open_ms close_ms hbs gate is_paused attested =
     (if attested \<and> \<not> is_paused
      then card {k. 1 \<le> k \<and> open_ms + k * 1000 \<le> close_ms
             \<and> (\<exists>h \<in> set hbs. h \<le> open_ms + k * 1000 \<and> open_ms + k * 1000 \<le> h + gate)}
      else 0)"
  by (simp add: countable_card fresh_tick_def)

text \<open>
  C7: over any trace of calls in time order, whatever the calls are, the impressions of a session
  times five seconds never exceed the time between the first and the last call.
\<close>

theorem impressions_never_exceed_wall_time:
  assumes "sorted (map fst es)" "es \<noteq> []"
  shows "5000 * engine_run default_session es \<le> fst (last es) - fst (hd es)"
  using engine_run_wall[OF assms] by linarith

definition demo_trace :: "(nat \<times> engine_event) list" where
  "demo_trace = [(0, EvPrompt), (1000, EvBeat), (3000, EvBeat), (5000, EvBeat), (5500, EvStop)]"

lemma impressions_never_exceed_wall_time_witness:
  "engine_run default_session demo_trace = 1
   \<and> 5000 * engine_run default_session demo_trace \<le> fst (last demo_trace) - fst (hd demo_trace)"
proof -
  have "sorted (map fst demo_trace)" "demo_trace \<noteq> []" by (simp_all add: demo_trace_def)
  from impressions_never_exceed_wall_time[OF this] show ?thesis
    by (simp add: demo_trace_def engine_ops default_session_def countable_seconds_in_def
        engine_consts upt_rec Let_def)
qed

text \<open>
  A sub-span's countable seconds are bounded by three per distinct heartbeat, so a session
  that sends few heartbeats earns little however long it waits.
\<close>

lemma heartbeats_bound_accrual:
  "countable_seconds_in open_ms close_ms hbs GATE_WINDOW_MS is_paused attested \<le> 3 * card (set hbs)"
  unfolding GATE_WINDOW_MS_def by (rule countable_le_heartbeats)

text \<open>
  C30: tool time is excluded. A prompt at \<open>t0\<close>, a tool run from \<open>t1\<close> to \<open>t2\<close> and a stop at
  \<open>t3\<close>, with heartbeats \<open>h1\<close>, \<open>h2\<close>, \<open>h3\<close> in the three spans, earn the capped quotient of the
  countable seconds of the first and the third span; whatever state the session was in before.
\<close>

theorem tool_time_excluded:
  "fst (on_stop t3 (fold on_heartbeat h3 (on_post_tool t2 (fold on_heartbeat h2
        (on_pre_tool t1 (fold on_heartbeat h1 (on_prompt_submit t0 s))))))) =
     min ((countable_seconds_in t0 t1 h1 GATE_WINDOW_MS (paused s) (tty_attested s)
           + countable_seconds_in t2 t3 (h1 @ h2 @ h3) GATE_WINDOW_MS (paused s) (tty_attested s))
          div IMPRESSION_SECONDS) MAX_IMPRESSIONS_PER_INTERVAL"
  by (simp add: on_heartbeats_fold engine_ops Let_def)

text \<open>
  The pause flag is read only when a sub-span closes. A session that is paused and resumed
  within a sub-span earns the same as one that was never paused.
\<close>

lemma pause_sampled_at_close:
  "on_stop t (set_paused False (fold on_heartbeat hs (set_paused True s)))
     = on_stop t (fold on_heartbeat hs (set_paused False s))"
  by (cases s) (simp add: on_heartbeats_fold engine_ops Let_def)

text \<open>
  The countable seconds of an interval need not be contiguous. Two waits of three seconds
  each, with a tool run between them, add up to an impression.
\<close>

lemma impression_from_split_waits:
  "engine_run default_session
     [(0, EvPrompt), (1000, EvBeat), (3000, EvBeat), (3000, EvPreTool),
      (60000, EvPostTool), (61000, EvBeat), (63000, EvBeat), (63000, EvStop)] = 1"
  by (simp add: engine_ops default_session_def countable_seconds_in_def engine_consts upt_rec Let_def)

end
