(* ===== verification/Daemon.thy ===== *)
theory Daemon
  imports Engine Sap_Event Frame_Queue Wire Skimmer
begin

section \<open>The daemon (spnrd, main.rs)\<close>

text \<open>
  The state of \<^verbatim>\<open>Daemon\<close> with the files it writes and the channel it sends on, its dispatch
  \<^verbatim>\<open>handle\<close>, the emission of impression events, the rotating status line, and the network shell
  (pool parsing, batching, request bodies). What a call takes from outside (a fresh id, the random
  seed, how the two disk writes go) is the record \<open>surroundings\<close>. Lemmas: the events ever emitted
  form one chain from the genesis value; nothing is emitted without heartbeats or while paused.
\<close>

subsection \<open>Lossy UTF-8\<close>

text \<open>
  \<^verbatim>\<open>String::from_utf8_lossy\<close>: every maximal well-formed prefix of a sequence that does not complete
  becomes one replacement character. \<open>utf8_head\<close> says whether the first character is complete and
  how many bytes are taken.
\<close>

definition utf8_second :: "char \<Rightarrow> char \<Rightarrow> bool" where
  "utf8_second a b \<longleftrightarrow>
     (if byte_val a = 224 then byte_in 160 191 b
      else if byte_val a = 237 then byte_in 128 159 b
      else if byte_val a = 240 then byte_in 144 191 b
      else if byte_val a = 244 then byte_in 128 143 b
      else utf8_cont b)"

definition utf8_tail_len :: "char \<Rightarrow> nat option" where
  "utf8_tail_len a =
     (if byte_val a < 128 then Some 0 else if byte_in 194 223 a then Some 1
      else if byte_in 224 239 a then Some 2 else if byte_in 240 244 a then Some 3 else None)"

definition utf8_head :: "char \<Rightarrow> bytes \<Rightarrow> bool \<times> nat" where
  "utf8_head a s =
     (case utf8_tail_len a of
        None \<Rightarrow> (False, 0)
      | Some n \<Rightarrow>
          (let good = (case s of [] \<Rightarrow> 0 | b # s' \<Rightarrow>
                 if n = 0 \<or> \<not> utf8_second a b then 0
                 else 1 + length (takeWhile utf8_cont (take (n - 1) s')))
           in (good = n, good)))"

function utf8_lossy :: "bytes \<Rightarrow> bytes" where
  "utf8_lossy [] = []"
| "utf8_lossy (a # s) =
     (case utf8_head a s of (ok, k) \<Rightarrow>
        (if ok then a # take k s else map byte_of [239, 191, 189]) @ utf8_lossy (drop k s))"
  by pat_completeness auto
termination
  by (relation "measure length") auto

declare utf8_lossy.simps(2) [simp del]

lemma utf8_head_ascii: "byte_val a < 128 \<Longrightarrow> utf8_head a s = (True, 0)"
  by (simp add: utf8_head_def utf8_tail_len_def Let_def split: list.split)

lemma utf8_lossy_ascii: "ascii b \<Longrightarrow> utf8_lossy b = b"
  by (induction b) (simp_all add: utf8_lossy.simps(2) utf8_head_ascii)

subsection \<open>State\<close>

record daemon =
  d_sessions :: "(string, session) hmap"
  d_paused :: bool
  d_key :: device_key
  d_salt :: bytes
  d_ctr :: u64
  d_prev :: string
  d_queue :: disk_file
  d_status_cache :: disk_file
  d_impressions_total :: u64
  d_current_creative :: "string option"
  d_server :: string
  d_ads :: "(string \<times> string) list"
  d_featured :: u64
  d_tx :: "string list option"

record surroundings =
  sur_id :: string
  sur_queue :: disk_fault
  sur_cache :: disk_fault

definition daemon_new :: "crypto \<Rightarrow> bytes \<Rightarrow> disk_file \<Rightarrow> disk_file \<Rightarrow> daemon" where
  "daemon_new C csprng queue_file cache_file =
     (let key = key_generate csprng
      in \<lparr>d_sessions = [], d_paused = False, d_key = key,
          d_salt = take 16 (verifying_key C key), d_ctr = 0, d_prev = GENESIS_PREV,
          d_queue = queue_file, d_status_cache = cache_file, d_impressions_total = 0,
          d_current_creative = None, d_server = [], d_ads = [], d_featured = 0, d_tx = None\<rparr>)"

definition fingerprint :: "crypto \<Rightarrow> daemon \<Rightarrow> string \<Rightarrow> string" where
  "fingerprint C d session_id =
     ''s:'' @ take 12 (hex_encode C (blake3 C (d_salt d @ session_id)))"

subsection \<open>The status line\<close>

text \<open>\<^verbatim>\<open>std::fs::write\<close>: truncate and write; a write that stops leaves what it wrote.\<close>

definition write_file :: "disk_fault \<Rightarrow> disk_file \<Rightarrow> bytes \<Rightarrow> disk_file" where
  "write_file fault f b =
     (case fault of OpenFails \<Rightarrow> f | WriteStops k \<Rightarrow> Some (take k b) | _ \<Rightarrow> Some b)"

definition featured_ad :: "daemon \<Rightarrow> (string \<times> string) option \<times> daemon" where
  "featured_ad d =
     (if d_server d = [] \<or> d_ads d = [] then (None, d)
      else
        (let (code, txt) = d_ads d ! (unat (d_featured d) mod length (d_ads d));
             url = trim_end_matches CHR ''/'' (d_server d) @ ''/c/'' @ code
         in (Some (url, txt), d\<lparr>d_featured := d_featured d + 1\<rparr>)))"

definition daemon_osc8 :: "string \<Rightarrow> string \<Rightarrow> string" where
  "daemon_osc8 url txt =
     byte_of 27 # '']8;;'' @ url @ [byte_of 7] @ txt @ byte_of 27 # '']8;;'' @ [byte_of 7]"

definition up_mark :: string where "up_mark = map byte_of [226, 150, 178]"
definition mid_dot :: string where "mid_dot = map byte_of [194, 183]"

definition write_status_cache :: "disk_fault \<Rightarrow> daemon \<Rightarrow> daemon" where
  "write_status_cache fault d =
     (case featured_ad d of (ad, d1) \<Rightarrow>
        (let total = show_nat (unat (d_impressions_total d1));
             line = (case ad of
                 Some (url, txt) \<Rightarrow>
                   (let label = (if 0 < d_impressions_total d1
                        then ''spnr '' @ up_mark @ total @ '' '' @ mid_dot @ '' '' @ txt
                        else ''spnr '' @ mid_dot @ '' '' @ txt)
                    in daemon_osc8 url label)
               | None \<Rightarrow> ''spnr '' @ up_mark @ '' '' @ total @ '' impressions today'')
         in d1\<lparr>d_status_cache := write_file fault (d_status_cache d1) line\<rparr>))"

subsection \<open>Emitting impressions\<close>

definition imp_event :: "crypto \<Rightarrow> surroundings \<Rightarrow> string \<Rightarrow> u64 \<Rightarrow> u64 \<Rightarrow> daemon \<Rightarrow> event" where
  "imp_event C w session_id n recv_ms d =
     \<lparr>ev_v = 1, ev_id = sur_id w, ev_ctr = d_ctr d, ev_prev = d_prev d, ev_t = recv_ms div 1000,
      ev_ty = Imp, ev_session = fingerprint C d session_id, ev_creative = d_current_creative d,
      ev_n = Some (ucast n)\<rparr>"

definition envelope :: "crypto \<Rightarrow> device_key \<Rightarrow> event \<Rightarrow> string" where
  "envelope C k e =
     ''{\"e\":'' @ utf8_lossy (canonical_bytes C e) @ '',\"s\":\"'' @ hex_encode C (key_sign C k e) @ ''\"}''"

definition emit_impressions :: "crypto \<Rightarrow> surroundings \<Rightarrow> string \<Rightarrow> u64 \<Rightarrow> u64 \<Rightarrow> daemon \<Rightarrow> daemon" where
  "emit_impressions C w session_id n recv_ms d =
     (let e = imp_event C w session_id n recv_ms d;
          d1 = d\<lparr>d_prev := chain_next C (canonical_bytes C e), d_ctr := d_ctr d + 1,
                 d_impressions_total := d_impressions_total d + n\<rparr>;
          env = envelope C (d_key d) e;
          d2 = d1\<lparr>d_queue := snd (append_rec (sur_queue w) (d_queue d1) env)\<rparr>;
          d3 = d2\<lparr>d_tx := map_option (\<lambda>sent. sent @ [env]) (d_tx d2)\<rparr>
      in write_status_cache (sur_cache w) d3)"

subsection \<open>Dispatch\<close>

definition handle :: "crypto \<Rightarrow> surroundings \<Rightarrow> socket_msg \<Rightarrow> u64 \<Rightarrow> daemon \<Rightarrow> daemon" where
  "handle C w msg recv_ms d =
     (let t = unat recv_ms
      in (case msg of
            Hook ev sid \<Rightarrow>
              (let sess = set_paused (d_paused d) (hm_get_or default_session (d_sessions d) sid);
                   store = (\<lambda>s. d\<lparr>d_sessions := hm_insert sid s (d_sessions d)\<rparr>)
               in if ev = ''UserPromptSubmit'' then store (on_prompt_submit t sess)
                  else if ev = ''PreToolUse'' then store (on_pre_tool t sess)
                  else if ev = ''PostToolUse'' then store (on_post_tool t sess)
                  else if ev = ''Stop'' then
                    (case on_stop t sess of (n, sess') \<Rightarrow>
                       if 0 < n then emit_impressions C w sid (of_nat n) recv_ms (store sess')
                       else store sess')
                  else if ev = ''SessionEnd'' then d\<lparr>d_sessions := hm_remove sid (d_sessions d)\<rparr>
                  else store sess)
          | Heartbeat sid \<Rightarrow>
              write_status_cache (sur_cache w)
                (d\<lparr>d_sessions := hm_modify sid (on_heartbeat t) (d_sessions d)\<rparr>)
          | Cmd Pause \<Rightarrow>
              d\<lparr>d_paused := True, d_sessions := map (\<lambda>(k, s). (k, set_paused True s)) (d_sessions d)\<rparr>
          | Cmd Resume \<Rightarrow>
              d\<lparr>d_paused := False, d_sessions := map (\<lambda>(k, s). (k, set_paused False s)) (d_sessions d)\<rparr>
          | Cmd Ping \<Rightarrow> d))"

text \<open>The socket loop on one datagram: at most 64 KiB are received, what does not decode is dropped.\<close>

definition receive :: "crypto \<Rightarrow> surroundings \<Rightarrow> bytes \<Rightarrow> u64 \<Rightarrow> daemon \<Rightarrow> daemon" where
  "receive C w datagram now d =
     (case decode (take 65536 datagram) of Some msg \<Rightarrow> handle C w msg now d | None \<Rightarrow> d)"

subsection \<open>The network shell\<close>

text \<open>
  A served creative as the tuple \<^verbatim>\<open>(id, text, url, short_code)\<close>, and the pool from the body of the
  response (\<^const>\<open>None\<close>: the request or reading it failed). \<open>parse\<close> is \<^verbatim>\<open>serde_json::from_str\<close>.
\<close>

type_synonym ad = "string \<times> string \<times> string \<times> string"

definition get_str :: "json \<Rightarrow> string \<Rightarrow> string option" where
  "get_str c k = (case json_get c k of None \<Rightarrow> None | Some v \<Rightarrow> as_str v)"

definition parse_creative :: "json \<Rightarrow> ad option" where
  "parse_creative c =
     (case (get_str c ''id'', get_str c ''text'', get_str c ''url'', get_str c ''short_code'') of
        (Some i, Some t, Some u, Some s) \<Rightarrow> Some (i, t, u, s)
      | _ \<Rightarrow> None)"

definition serve_creatives :: "(string \<Rightarrow> json option) \<Rightarrow> string option \<Rightarrow> ad list" where
  "serve_creatives parse body =
     (case (case body of None \<Rightarrow> None | Some b \<Rightarrow> parse b) of
        None \<Rightarrow> []
      | Some v \<Rightarrow>
          (let pool = (case (case json_get v ''creatives'' of None \<Rightarrow> None | Some c \<Rightarrow> as_array c) of
                 None \<Rightarrow> []
               | Some arr \<Rightarrow> List.map_filter parse_creative arr)
           in if pool \<noteq> [] then pool
              else (case (case json_get v ''creative'' of None \<Rightarrow> None | Some c \<Rightarrow> parse_creative c) of
                      None \<Rightarrow> [] | Some x \<Rightarrow> [x])))"

text \<open>\<^verbatim>\<open>main\<close> with a server: the pool is adopted when there is one, and the channel is opened.\<close>

definition start_networked :: "string \<Rightarrow> ad list \<Rightarrow> disk_fault \<Rightarrow> daemon \<Rightarrow> daemon" where
  "start_networked server pool fault d =
     (let d1 = (case pool of
            [] \<Rightarrow> d
          | (i, _, _, _) # _ \<Rightarrow>
              write_status_cache fault (d\<lparr>d_current_creative := Some i, d_server := server,
                d_ads := map (\<lambda>(_, txt, _, code). (code, txt)) pool\<rparr>))
      in d1\<lparr>d_tx := Some []\<rparr>)"

fun join :: "string \<Rightarrow> string list \<Rightarrow> string" where
  "join sep [] = []"
| "join sep [x] = x"
| "join sep (x # xs) = x @ sep @ join sep xs"

definition post_ingest :: "string \<Rightarrow> string list \<Rightarrow> string" where
  "post_ingest device batch =
     ''{\"device_id\":\"'' @ device @ ''\",\"events\":['' @ join '','' batch @ '']}''"

text \<open>
  \<^verbatim>\<open>flush_loop\<close>: one message is awaited and the batch takes what else is there, \<open>k\<close> more messages
  for the \<open>k\<close> of that round.
\<close>

fun flush_loop :: "nat list \<Rightarrow> string list \<Rightarrow> string list list" where
  "flush_loop ks [] = []"
| "flush_loop [] (m # ms) = [m] # flush_loop [] ms"
| "flush_loop (k # ks) (m # ms) = (m # take k ms) # flush_loop ks (drop k ms)"

text \<open>The body of the registration: environment variables and the content of /etc/hostname.\<close>

definition hostname_of :: "string option \<Rightarrow> string option \<Rightarrow> string" where
  "hostname_of env etc =
     (case (case env of Some s \<Rightarrow> if trim s \<noteq> [] then Some s else None | None \<Rightarrow> None) of
        Some s \<Rightarrow> s
      | None \<Rightarrow>
          (case etc of
             Some s \<Rightarrow> if trim s \<noteq> [] then trim s else ''unknown''
           | None \<Rightarrow> ''unknown''))"

definition register_body :: "string \<Rightarrow> string \<Rightarrow> string \<Rightarrow> string option \<Rightarrow> string option \<Rightarrow> string option \<Rightarrow>
    string \<Rightarrow> string \<Rightarrow> json" where
  "register_body os arch version host_env etc email device pubkey_hex =
     JObject ([(''device_id'', JString device), (''pubkey'', JString pubkey_hex),
       (''os'', JString os), (''arch'', JString arch), (''version'', JString version),
       (''hostname'', JString (hostname_of host_env etc))]
      @ (case email of Some e \<Rightarrow> if e \<noteq> [] then [(''email'', JString e)] else [] | None \<Rightarrow> []))"

lemma flush_loop_concat: "concat (flush_loop ks ms) = ms"
  by (induction ks ms rule: flush_loop.induct) simp_all

lemma flush_loop_nonempty: "[] \<notin> set (flush_loop ks ms)"
  by (induction ks ms rule: flush_loop.induct) simp_all

subsection \<open>What a call changes\<close>

text \<open>The event a dispatch emits, if any; the state after it is the state before plus that event.\<close>

definition stop_impressions :: "string \<Rightarrow> nat \<Rightarrow> daemon \<Rightarrow> nat" where
  "stop_impressions sid t d =
     fst (on_stop t (set_paused (d_paused d) (hm_get_or default_session (d_sessions d) sid)))"

definition emitted :: "crypto \<Rightarrow> surroundings \<Rightarrow> socket_msg \<Rightarrow> u64 \<Rightarrow> daemon \<Rightarrow> event option" where
  "emitted C w msg recv_ms d =
     (case msg of
        Hook ev sid \<Rightarrow>
          if ev = ''Stop'' \<and> 0 < stop_impressions sid (unat recv_ms) d
          then Some (imp_event C w sid (of_nat (stop_impressions sid (unat recv_ms) d)) recv_ms d) else None
      | _ \<Rightarrow> None)"

named_theorems daemon_fields
  \<comment> \<open>fields an operation of the daemon leaves alone or sets\<close>

lemma featured_ad_fields [daemon_fields]:
  "d_sessions (snd (featured_ad d)) = d_sessions d" "d_paused (snd (featured_ad d)) = d_paused d"
  "d_key (snd (featured_ad d)) = d_key d" "d_salt (snd (featured_ad d)) = d_salt d"
  "d_ctr (snd (featured_ad d)) = d_ctr d" "d_prev (snd (featured_ad d)) = d_prev d"
  "d_queue (snd (featured_ad d)) = d_queue d" "d_tx (snd (featured_ad d)) = d_tx d"
  "d_impressions_total (snd (featured_ad d)) = d_impressions_total d"
  "d_current_creative (snd (featured_ad d)) = d_current_creative d"
  by (simp_all add: featured_ad_def Let_def split: prod.split)

lemma write_status_cache_fields [daemon_fields]:
  "d_sessions (write_status_cache f d) = d_sessions d" "d_paused (write_status_cache f d) = d_paused d"
  "d_key (write_status_cache f d) = d_key d" "d_salt (write_status_cache f d) = d_salt d"
  "d_ctr (write_status_cache f d) = d_ctr d" "d_prev (write_status_cache f d) = d_prev d"
  "d_queue (write_status_cache f d) = d_queue d" "d_tx (write_status_cache f d) = d_tx d"
  "d_impressions_total (write_status_cache f d) = d_impressions_total d"
  "d_current_creative (write_status_cache f d) = d_current_creative d"
  unfolding write_status_cache_def Let_def case_prod_beta by (simp_all add: daemon_fields)

lemma emit_fields [daemon_fields]:
  "d_sessions (emit_impressions C w sid n t d) = d_sessions d"
  "d_paused (emit_impressions C w sid n t d) = d_paused d"
  "d_key (emit_impressions C w sid n t d) = d_key d"
  "d_salt (emit_impressions C w sid n t d) = d_salt d"
  "d_current_creative (emit_impressions C w sid n t d) = d_current_creative d"
  "d_ctr (emit_impressions C w sid n t d) = d_ctr d + 1"
  "d_prev (emit_impressions C w sid n t d) = chain_next C (canonical_bytes C (imp_event C w sid n t d))"
  "d_impressions_total (emit_impressions C w sid n t d) = d_impressions_total d + n"
  "d_tx (emit_impressions C w sid n t d)
     = map_option (\<lambda>sent. sent @ [envelope C (d_key d) (imp_event C w sid n t d)]) (d_tx d)"
  "d_queue (emit_impressions C w sid n t d)
     = snd (append_rec (sur_queue w) (d_queue d) (envelope C (d_key d) (imp_event C w sid n t d)))"
  by (simp_all add: emit_impressions_def Let_def daemon_fields)

lemma imp_event_sessions [simp]: "imp_event C w sid n t (d\<lparr>d_sessions := x\<rparr>) = imp_event C w sid n t d"
  by (simp add: imp_event_def fingerprint_def)

lemma handle_stop:
  "handle C w (Hook ''Stop'' sid) t d =
     (let d1 = d\<lparr>d_sessions := hm_insert sid
          (snd (on_stop (unat t) (set_paused (d_paused d) (hm_get_or default_session (d_sessions d) sid))))
          (d_sessions d)\<rparr>
      in if 0 < stop_impressions sid (unat t) d
         then emit_impressions C w sid (of_nat (stop_impressions sid (unat t) d)) t d1 else d1)"
  by (simp add: handle_def Let_def stop_impressions_def split: prod.split)

lemma handle_quiet:
  assumes "emitted C w msg t d = None"
  shows "d_ctr (handle C w msg t d) = d_ctr d" "d_prev (handle C w msg t d) = d_prev d"
    "d_impressions_total (handle C w msg t d) = d_impressions_total d"
    "d_tx (handle C w msg t d) = d_tx d" "d_queue (handle C w msg t d) = d_queue d"
proof -
  have *: "d_ctr (handle C w msg t d) = d_ctr d \<and> d_prev (handle C w msg t d) = d_prev d
    \<and> d_impressions_total (handle C w msg t d) = d_impressions_total d
    \<and> d_tx (handle C w msg t d) = d_tx d \<and> d_queue (handle C w msg t d) = d_queue d"
  proof (cases msg)
    case (Hook ev sid)
    show ?thesis
    proof (cases "ev = ''Stop''")
      case True
      with Hook assms show ?thesis by (simp add: emitted_def handle_stop Let_def split: if_splits)
    next
      case False
      then show ?thesis by (simp add: Hook handle_def Let_def)
    qed
  next
    case (Cmd c)
    then show ?thesis by (cases c) (simp_all add: handle_def Let_def)
  qed (simp add: handle_def Let_def daemon_fields)
  then show "d_ctr (handle C w msg t d) = d_ctr d" "d_prev (handle C w msg t d) = d_prev d"
    "d_impressions_total (handle C w msg t d) = d_impressions_total d"
    "d_tx (handle C w msg t d) = d_tx d" "d_queue (handle C w msg t d) = d_queue d"
    by blast+
qed

lemma handle_emits:
  assumes "emitted C w msg t d = Some e"
  shows "ev_ctr e = d_ctr d" "ev_prev e = d_prev d" "ev_ty e = Imp" "ev_creative e = d_current_creative d"
    "d_ctr (handle C w msg t d) = d_ctr d + 1"
    "d_prev (handle C w msg t d) = chain_next C (canonical_bytes C e)"
    "d_tx (handle C w msg t d) = map_option (\<lambda>sent. sent @ [envelope C (d_key d) e]) (d_tx d)"
    "d_queue (handle C w msg t d) = snd (append_rec (sur_queue w) (d_queue d) (envelope C (d_key d) e))"
proof -
  obtain sid where m: "msg = Hook ''Stop'' sid" "0 < stop_impressions sid (unat t) d"
    and e: "e = imp_event C w sid (of_nat (stop_impressions sid (unat t) d)) t d"
    using assms by (auto simp: emitted_def split: socket_msg.splits if_splits)
  then show "ev_ctr e = d_ctr d" "ev_prev e = d_prev d" "ev_ty e = Imp" "ev_creative e = d_current_creative d"
    "d_ctr (handle C w msg t d) = d_ctr d + 1"
    "d_prev (handle C w msg t d) = chain_next C (canonical_bytes C e)"
    "d_tx (handle C w msg t d) = map_option (\<lambda>sent. sent @ [envelope C (d_key d) e]) (d_tx d)"
    "d_queue (handle C w msg t d) = snd (append_rec (sur_queue w) (d_queue d) (envelope C (d_key d) e))"
    by (simp_all add: handle_stop Let_def daemon_fields) (simp_all add: imp_event_def)
qed

lemma handle_constants [daemon_fields]:
  "d_key (handle C w msg t d) = d_key d" "d_salt (handle C w msg t d) = d_salt d"
  "d_current_creative (handle C w msg t d) = d_current_creative d"
  by (cases msg; simp add: handle_def Let_def daemon_fields split: prod.split socket_cmd.split)+

lemma list_all_hm_value:
  "list_all (\<lambda>x. P (snd x)) m \<Longrightarrow> hm_get m k = Some v \<Longrightarrow> P v"
  by (auto simp: hm_get_def list_all_iff dest!: map_of_SomeD)

subsection \<open>Runs\<close>

type_synonym daemon_input = "surroundings \<times> socket_msg \<times> u64"

fun daemon_run :: "crypto \<Rightarrow> daemon \<Rightarrow> daemon_input list \<Rightarrow> daemon" where
  "daemon_run C d [] = d"
| "daemon_run C d ((w, msg, t) # xs) = daemon_run C (handle C w msg t d) xs"

fun sent_events :: "crypto \<Rightarrow> daemon \<Rightarrow> daemon_input list \<Rightarrow> event list" where
  "sent_events C d [] = []"
| "sent_events C d ((w, msg, t) # xs) =
     (case emitted C w msg t d of None \<Rightarrow> [] | Some e \<Rightarrow> [e]) @ sent_events C (handle C w msg t d) xs"

lemma sent_linked: "linked C (d_prev d) (d_ctr d) (sent_events C d xs)"
proof (induction C d xs rule: sent_events.induct)
  case (2 C d w msg t xs)
  show ?case
  proof (cases "emitted C w msg t d")
    case None
    with "2.IH" show ?thesis by (simp add: handle_quiet)
  next
    case (Some e)
    with "2.IH" handle_emits[OF Some] show ?thesis by simp
  qed
qed simp

lemma sent_channel:
  "d_tx (daemon_run C d xs) = map_option (\<lambda>sent. sent @ map (envelope C (d_key d)) (sent_events C d xs)) (d_tx d)"
proof (induction C d xs rule: sent_events.induct)
  case (2 C d w msg t xs)
  show ?case
  proof (cases "emitted C w msg t d")
    case None
    with "2.IH" show ?thesis by (simp add: handle_quiet daemon_fields)
  next
    case (Some e)
    with "2.IH" handle_emits[OF Some] show ?thesis
      by (cases "d_tx d") (simp_all add: daemon_fields)
  qed
qed (simp add: option.map_ident)

lemma sent_queue:
  "list_all (\<lambda>x. sur_queue (fst x) = NoFault) xs \<Longrightarrow>
     d_queue (daemon_run C d xs) = append_many (d_queue d) (map (envelope C (d_key d)) (sent_events C d xs))"
proof (induction C d xs rule: sent_events.induct)
  case (2 C d w msg t xs)
  show ?case
  proof (cases "emitted C w msg t d")
    case None
    with 2 show ?thesis by (simp add: handle_quiet daemon_fields)
  next
    case (Some e)
    with 2 handle_emits[OF Some] show ?thesis by (simp add: daemon_fields append_many_def)
  qed
qed (simp add: append_many_def)

lemma stop_impressions_max: "stop_impressions sid t d \<le> 60"
  by (simp add: stop_impressions_def on_stop_def engine_consts Let_def)

definition imp_ok :: "event \<Rightarrow> bool" where
  "imp_ok e \<longleftrightarrow> ev_ty e = Imp \<and> (\<exists>n. ev_n e = Some n \<and> 1 \<le> unat n \<and> unat n \<le> 60)"

lemma emitted_imp_ok:
  assumes "emitted C w msg t d = Some e" shows "imp_ok e"
proof -
  obtain sid where m: "0 < stop_impressions sid (unat t) d"
    and e: "e = imp_event C w sid (of_nat (stop_impressions sid (unat t) d)) t d"
    using assms by (auto simp: emitted_def split: socket_msg.splits if_splits)
  define n where "n = stop_impressions sid (unat t) d"
  have le: "n \<le> 60" unfolding n_def by (rule stop_impressions_max)
  then have "unat (ucast (of_nat n :: u64) :: u32) = n"
    by (simp add: unsigned_ucast_eq unat_of_nat take_bit_nat_eq_self)
  with m le show ?thesis
    by (simp add: imp_ok_def e imp_event_def flip: n_def)
qed

lemma sent_imp_ok: "list_all imp_ok (sent_events C d xs)"
  by (induction C d xs rule: sent_events.induct)
    (auto simp: list_all_iff dest: emitted_imp_ok[OF sym] split: option.splits)

subsection \<open>Sessions that earn nothing\<close>

text \<open>
  A set of session states closed under the daemon's calls, in which a stop yields nothing.
  \<open>beats\<close> says whether heartbeats may arrive, \<open>flags\<close> which values of the pause flag occur.
\<close>

locale silent_sessions =
  fixes silent :: "session \<Rightarrow> bool" and beats :: bool and flags :: "bool set"
  assumes fresh: "b \<in> flags \<Longrightarrow> silent (set_paused b default_session)"
    and flag: "b \<in> flags \<Longrightarrow> silent s \<Longrightarrow> silent (set_paused b s)"
    and prompt: "silent s \<Longrightarrow> silent (on_prompt_submit t s)"
    and pre: "silent s \<Longrightarrow> silent (on_pre_tool t s)"
    and post: "silent s \<Longrightarrow> silent (on_post_tool t s)"
    and stop: "silent s \<Longrightarrow> fst (on_stop t s) = 0 \<and> silent (snd (on_stop t s))"
    and beat: "beats \<Longrightarrow> silent s \<Longrightarrow> silent (on_heartbeat t s)"
begin

definition allowed :: "socket_msg \<Rightarrow> bool" where
  "allowed msg \<longleftrightarrow> (case msg of Heartbeat _ \<Rightarrow> beats | Cmd Pause \<Rightarrow> True \<in> flags
     | Cmd Resume \<Rightarrow> False \<in> flags | _ \<Rightarrow> True)"

definition quiet_daemon :: "daemon \<Rightarrow> bool" where
  "quiet_daemon d \<longleftrightarrow> d_paused d \<in> flags \<and> (\<forall>sid s. hm_get (d_sessions d) sid = Some s \<longrightarrow> silent s)"

lemma quiet_session:
  "quiet_daemon d \<Longrightarrow> silent (set_paused (d_paused d) (hm_get_or default_session (d_sessions d) sid))"
  by (cases "hm_get (d_sessions d) sid") (auto simp: quiet_daemon_def hm_get_or_def fresh flag)

lemma quiet_store:
  "quiet_daemon d \<Longrightarrow> silent s \<Longrightarrow> quiet_daemon (d\<lparr>d_sessions := hm_insert sid s (d_sessions d)\<rparr>)"
  by (auto simp: quiet_daemon_def maps split: if_splits)

lemma quiet_stop: "quiet_daemon d \<Longrightarrow> stop_impressions sid t d = 0"
  using stop[OF quiet_session] by (simp add: stop_impressions_def)

lemma quiet_emits_nothing: "quiet_daemon d \<Longrightarrow> emitted C w msg t d = None"
  by (auto simp: emitted_def quiet_stop split: socket_msg.split)

lemma hm_get_map_values: "hm_get (map (\<lambda>(k, s). (k, f s)) m) k = map_option f (hm_get m k)"
  by (induction m) (auto simp: hm_get_def)

lemma quiet_handle:
  assumes "quiet_daemon d" "allowed msg" shows "quiet_daemon (handle C w msg t d)"
proof (cases msg)
  case (Hook ev sid)
  define sess where "sess = set_paused (d_paused d) (hm_get_or default_session (d_sessions d) sid)"
  have q: "silent sess" unfolding sess_def by (rule quiet_session[OF assms(1)])
  have rm: "quiet_daemon (d\<lparr>d_sessions := hm_remove sid (d_sessions d)\<rparr>)"
    using assms(1) by (auto simp: quiet_daemon_def maps split: if_splits)
  show ?thesis
  proof (cases "ev = ''Stop''")
    case True
    then show ?thesis
      using quiet_store[OF assms(1), of "snd (on_stop (unat t) sess)" sid] stop[OF q] quiet_stop[OF assms(1)]
      by (simp add: Hook handle_stop Let_def flip: sess_def)
  next
    case False
    then show ?thesis
      using quiet_store[OF assms(1)] prompt[OF q] pre[OF q] post[OF q] q rm
      by (simp add: Hook handle_def Let_def flip: sess_def)
  qed
next
  case (Heartbeat sid)
  then have b: "beats" using assms(2) by (simp add: allowed_def)
  show ?thesis
    using assms(1) beat[OF b]
    by (auto simp: Heartbeat handle_def quiet_daemon_def daemon_fields maps split: if_splits option.splits)
next
  case (Cmd c)
  then show ?thesis
    using assms flag
    by (cases c) (auto simp: handle_def quiet_daemon_def allowed_def hm_get_map_values)
qed

lemma quiet_run:
  "quiet_daemon d \<Longrightarrow> list_all (\<lambda>x. allowed (fst (snd x))) xs \<Longrightarrow> sent_events C d xs = []"
  by (induction C d xs rule: sent_events.induct) (simp_all add: quiet_emits_nothing quiet_handle)

end

text \<open>Sessions that have seen no heartbeat, and sessions whose every sub-span was paused.\<close>

definition unseen :: "session \<Rightarrow> bool" where
  "unseen s \<longleftrightarrow> heartbeats s = [] \<and> countable_seconds s = 0"

definition muted :: "session \<Rightarrow> bool" where
  "muted s \<longleftrightarrow> paused s \<and> countable_seconds s = 0"

lemma countable_no_beats [simp]: "countable_seconds_in opn c [] g p a = 0"
  by (simp add: countable_card fresh_tick_def)

lemma countable_paused [simp]: "countable_seconds_in opn c hbs g True a = 0"
  by (simp add: countable_seconds_in_def)

interpretation unseen: silent_sessions unseen False UNIV
  by unfold_locales
    (auto simp: unseen_def engine_ops default_session_def Let_def split: option.splits)

interpretation muted: silent_sessions muted True "{True}"
  by unfold_locales
    (auto simp: muted_def engine_ops default_session_def Let_def split: option.splits)

subsection \<open>Properties\<close>

lemma start_fields [daemon_fields]:
  "d_sessions (start_networked server pool f d) = d_sessions d"
  "d_paused (start_networked server pool f d) = d_paused d"
  "d_key (start_networked server pool f d) = d_key d"
  "d_ctr (start_networked server pool f d) = d_ctr d"
  "d_prev (start_networked server pool f d) = d_prev d"
  "d_queue (start_networked server pool f d) = d_queue d"
  "d_tx (start_networked server pool f d) = Some []"
  by (auto simp: start_networked_def daemon_fields Let_def split: list.split)

lemma new_fields [daemon_fields]:
  "d_sessions (daemon_new C r q c) = []" "d_paused (daemon_new C r q c) = False"
  "d_key (daemon_new C r q c) = key_generate r" "d_ctr (daemon_new C r q c) = 0"
  "d_prev (daemon_new C r q c) = GENESIS_PREV" "d_queue (daemon_new C r q c) = q"
  by (simp_all add: daemon_new_def Let_def)

definition booted :: "crypto \<Rightarrow> bytes \<Rightarrow> string \<Rightarrow> ad list \<Rightarrow> daemon" where
  "booted C r server pool = start_networked server pool NoFault (daemon_new C r None None)"

text \<open>
  C10: whatever datagrams a networked daemon receives, and however its disk writes go, what it
  sends is the signed envelopes of one history: linked from the genesis value with counters from
  zero, every event an impression event for one to sixty impressions.
\<close>

theorem emitted_events_chain:
  "d_tx (daemon_run C (booted C r server pool) xs)
     = Some (map (envelope C (key_generate r)) (sent_events C (booted C r server pool) xs))
   \<and> linked C GENESIS_PREV 0 (sent_events C (booted C r server pool) xs)
   \<and> list_all imp_ok (sent_events C (booted C r server pool) xs)"
  using sent_linked[of C "booted C r server pool" xs]
  by (simp add: sent_channel sent_imp_ok booted_def daemon_fields)

text \<open>
  C31: while its appends succeed, the queue file of a fresh daemon holds exactly what was sent, and
  the command line's audit reads it back.
\<close>

theorem queue_holds_what_was_sent:
  assumes "list_all (\<lambda>x. sur_queue (fst x) = NoFault) xs"
    and "es = sent_events C (booted C r server pool) xs"
    and "records_ok (map (envelope C (key_generate r)) es)"
  shows "read_queue (d_queue (daemon_run C (booted C r server pool) xs))
    = map (envelope C (key_generate r)) es"
  using assms(3) sent_queue[OF assms(1), of C "booted C r server pool"]
  by (simp add: read_queue_eq_read_all read_all_append_many assms(2) booted_def daemon_fields)

text \<open>
  No eyes, no earnings: if no heartbeat arrives, as in a headless run, no event is ever
  emitted.
\<close>

lemma no_heartbeat_no_event:
  assumes "list_all (\<lambda>(w, msg, t). case msg of Heartbeat _ \<Rightarrow> False | _ \<Rightarrow> True) xs"
  shows "sent_events C (booted C r server pool) xs = []"
proof (rule unseen.quiet_run)
  show "unseen.quiet_daemon (booted C r server pool)"
    by (simp add: unseen.quiet_daemon_def booted_def daemon_fields)
  show "list_all (\<lambda>x. unseen.allowed (fst (snd x))) xs"
    using assms by (induction xs) (auto simp: unseen.allowed_def split: socket_msg.splits socket_cmd.split)
qed

text \<open>
  C34: a pause takes effect and lasts until a resume: when no session has counted seconds at the
  moment of the pause, nothing that arrives after it but a resume leads to an event. (Seconds of
  a sub-span that was closed before the pause are still emitted by a stop during it.)
\<close>

theorem paused_daemon_emits_nothing:
  assumes "list_all (\<lambda>x. countable_seconds (snd x) = 0) (d_sessions d)"
    and "list_all (\<lambda>(w, msg, t). msg \<noteq> Cmd Resume) xs"
  shows "sent_events C (handle C w (Cmd Pause) t d) xs = []"
proof (rule muted.quiet_run)
  have "countable_seconds s = 0" if "hm_get (d_sessions d) sid = Some s" for sid s
    using assms(1) that by (rule list_all_hm_value)
  then show "muted.quiet_daemon (handle C w (Cmd Pause) t d)"
    by (auto simp: muted.quiet_daemon_def handle_def muted.hm_get_map_values muted_def set_paused_def)
  show "list_all (\<lambda>x. muted.allowed (fst (snd x))) xs"
    using assms(2) by (induction xs) (auto simp: muted.allowed_def split: socket_msg.splits socket_cmd.split)
qed

text \<open>
  A session that ends loses what it has counted since the last stop: neither the end nor a later
  stop of that session leads to an event.
\<close>

lemma session_end_drops_interval:
  "emitted C w (Hook ''SessionEnd'' sid) t d = None"
  "emitted C w' (Hook ''Stop'' sid) t' (handle C w (Hook ''SessionEnd'' sid) t d) = None"
proof -
  have "hm_get (hm_remove sid (d_sessions d)) sid = None" by (simp add: maps)
  then show "emitted C w' (Hook ''Stop'' sid) t' (handle C w (Hook ''SessionEnd'' sid) t d) = None"
    by (simp add: emitted_def handle_def Let_def stop_impressions_def hm_get_or_def on_stop_def
        default_session_def set_paused_def)
qed (simp add: emitted_def)

text \<open>The daemon's hyperlink is the one the status binary prints.\<close>

lemma daemon_osc8_eq: "daemon_osc8 = osc8"
  by (simp add: fun_eq_iff daemon_osc8_def osc8_def)

text \<open>The status line cycles through the whole pool, one ad per refresh.\<close>

lemma featured_ad_steps:
  assumes "d_server d \<noteq> []" "d_ads d \<noteq> []"
  shows "fst (featured_ad d) = Some (let (code, txt) = d_ads d ! (unat (d_featured d) mod length (d_ads d))
           in (trim_end_matches CHR ''/'' (d_server d) @ ''/c/'' @ code, txt))"
    and "d_featured (snd (featured_ad d)) = d_featured d + 1"
    and "d_ads (snd (featured_ad d)) = d_ads d" "d_server (snd (featured_ad d)) = d_server d"
  using assms by (simp_all add: featured_ad_def Let_def split: prod.split)

subsection \<open>A run\<close>

text \<open>
  One attested turn: a prompt at 1 s, heartbeats at 1.5 s, 3.5 s and 5.5 s, a stop at 6.5 s. Five
  seconds count, so the stop emits one impression.
\<close>

definition demo_sur :: surroundings where
  "demo_sur = \<lparr>sur_id = ''01'', sur_queue = NoFault, sur_cache = NoFault\<rparr>"

definition demo_beats :: "daemon_input list" where
  "demo_beats = [(demo_sur, Hook ''UserPromptSubmit'' ''s1'', 1000), (demo_sur, Heartbeat ''s1'', 1500),
     (demo_sur, Heartbeat ''s1'', 3500), (demo_sur, Heartbeat ''s1'', 5500)]"

definition demo_turn :: "daemon_input list" where
  "demo_turn = demo_beats @ [(demo_sur, Hook ''Stop'' ''s1'', 6500)]"

lemma daemon_run_append: "daemon_run C d (xs @ ys) = daemon_run C (daemon_run C d xs) ys"
  by (induction C d xs rule: daemon_run.induct) simp_all

lemma sent_append: "sent_events C d (xs @ ys) = sent_events C d xs @ sent_events C (daemon_run C d xs) ys"
  by (induction C d xs rule: daemon_run.induct) simp_all

lemma demo_waiting:
  "d_sessions (daemon_run C (booted C r server []) demo_beats) =
     [(''s1'', \<lparr>phase = Waiting, subspan_open_ms = Some 1000, countable_seconds = 0,
        heartbeats = [1500, 3500, 5500], paused = False, tty_attested = True\<rparr>)]"
  and demo_unpaused: "d_paused (daemon_run C (booted C r server []) demo_beats) = False"
  by (simp_all add: demo_beats_def handle_def booted_def daemon_fields Let_def hm_get_or_def hm_get_def
      hm_modify_def hm_insert_def engine_ops default_session_def)

lemma demo_counts: "countable_seconds_in 1000 6500 [1500, 3500, 5500] GATE_WINDOW_MS False True = 5"
  by (simp add: countable_seconds_in_def Let_def GATE_WINDOW_MS_def upt_rec)

lemma demo_stop: "stop_impressions ''s1'' 6500 (daemon_run C (booted C r server []) demo_beats) = 1"
proof -
  have p: "d_paused (daemon_run C (booted C r server []) demo_beats) = False" by (rule demo_unpaused)
  show ?thesis
    unfolding stop_impressions_def demo_waiting p
    by (simp add: hm_get_or_def hm_get_def on_stop_def close_subspan_def set_paused_def demo_counts
        IMPRESSION_SECONDS_def MAX_IMPRESSIONS_PER_INTERVAL_def Let_def)
qed

lemma demo_beats_quiet: "sent_events C d demo_beats = []"
  by (simp add: demo_beats_def emitted_def)

lemma demo_turn_event:
  "sent_events C (booted C r server []) demo_turn =
     [imp_event C demo_sur ''s1'' 1 6500 (daemon_run C (booted C r server []) demo_beats)]"
  by (simp add: demo_turn_def sent_append demo_beats_quiet emitted_def demo_stop del: One_nat_def)

lemma length_utf8_lossy: "length (utf8_lossy b) \<le> 3 * length b"
proof (induction b rule: utf8_lossy.induct)
  case (2 a s)
  obtain v k where h: "utf8_head a s = (v, k)" by force
  have "length (utf8_lossy (drop k s)) \<le> 3 * length (drop k s)" using "2.IH"[OF h [symmetric]] by simp
  moreover have "length (if v then a # take k s else map byte_of [239, 191, 189]) \<le> 3 + length (take k s)"
    by simp
  moreover have "length (take k s) + length (drop k s) = length s"
    by (metis append_take_drop_id length_append)
  ultimately show ?case by (simp add: utf8_lossy.simps(2) h del: length_take length_drop)
qed simp

lemma length_envelope:
  "length (envelope C k e) \<le> 15 + 3 * length (canonical_bytes C e) + length (hex_encode C (key_sign C k e))"
  using length_utf8_lossy[of "canonical_bytes C e"] by (simp add: envelope_def)

lemma length_demo_code [simp]:
  "length (code_str b) = 2 * length b + 1" "length (demo_hex b) = 2 * length b"
  by (induction b) simp_all

definition demo_daemon :: daemon where
  "demo_daemon = booted demo_crypto [] ''srv'' []"

definition demo_sent :: event where
  "demo_sent = imp_event demo_crypto demo_sur ''s1'' 1 6500 (daemon_run demo_crypto demo_daemon demo_beats)"

text \<open>The event of that turn, over any crypto.\<close>

definition turn_event :: "crypto \<Rightarrow> event" where
  "turn_event C = imp_event C demo_sur ''s1'' 1 6500 (daemon_run C (booted C [] ''srv'' []) demo_beats)"

lemma turn_sent: "sent_events C (booted C [] ''srv'' []) demo_turn = [turn_event C]"
  by (simp add: demo_turn_event turn_event_def)

lemma turn_event_fields:
  "ev_v (turn_event C) = 1" "ev_id (turn_event C) = ''01''" "ev_ctr (turn_event C) = 0"
  "ev_prev (turn_event C) = GENESIS_PREV" "ev_t (turn_event C) = 6" "ev_ty (turn_event C) = Imp"
  "ev_creative (turn_event C) = None" "ev_n (turn_event C) = Some 1"
  "\<exists>b. ev_session (turn_event C) = ''s:'' @ take 12 (hex_encode C b)"
proof -
  define d where "d = daemon_run C (booted C [] ''srv'' []) demo_beats"
  have "linked C GENESIS_PREV 0 (sent_events C (booted C [] ''srv'' []) demo_turn)"
    using sent_linked[of C "booted C [] ''srv'' []" demo_turn] by (simp add: booted_def daemon_fields)
  then show "ev_ctr (turn_event C) = 0" "ev_prev (turn_event C) = GENESIS_PREV" by (simp_all add: turn_sent)
  have "d_current_creative d = None"
    by (simp add: d_def demo_beats_def daemon_fields booted_def start_networked_def daemon_new_def Let_def)
  then show "ev_creative (turn_event C) = None" by (simp add: turn_event_def imp_event_def d_def)
  show "ev_v (turn_event C) = 1" "ev_id (turn_event C) = ''01''" "ev_t (turn_event C) = 6"
    "ev_ty (turn_event C) = Imp" "ev_n (turn_event C) = Some 1"
    by (simp_all add: turn_event_def imp_event_def demo_sur_def)
  show "\<exists>b. ev_session (turn_event C) = ''s:'' @ take 12 (hex_encode C b)"
    by (auto simp: turn_event_def imp_event_def fingerprint_def)
qed

lemma demo_sent_turn: "demo_sent = turn_event demo_crypto"
  by (simp add: demo_sent_def turn_event_def demo_daemon_def)

lemma demo_sent_fields:
  "ev_v demo_sent = 1" "ev_id demo_sent = ''01''" "ev_ctr demo_sent = 0" "ev_prev demo_sent = GENESIS_PREV"
  "ev_t demo_sent = 6" "ev_ty demo_sent = Imp" "ev_creative demo_sent = None" "ev_n demo_sent = Some 1"
  "length (ev_session demo_sent) \<le> 14"
  using turn_event_fields[of demo_crypto] by (auto simp: demo_sent_turn)

lemma demo_canonical_length: "length (canonical_bytes demo_crypto demo_sent) \<le> 500"
proof -
  have "length (show_nat 0) = 1" "length (show_nat (Suc 0)) = 1" "length (show_nat 6) = 1"
    by (subst show_nat.simps; simp)+
  with demo_sent_fields(9) show ?thesis
    by (simp add: canonical_bytes_def demo_crypto_def event_json_def json_i64_def demo_sent_fields(1-8) GENESIS_PREV_def)
qed

lemma demo_records: "records_ok [envelope demo_crypto k demo_sent]"
proof -
  have "length (hex_encode demo_crypto (key_sign demo_crypto k demo_sent)) = 128"
    by (simp add: key_sign_def demo_crypto_def)
  then have "length (envelope demo_crypto k demo_sent) \<le> 1700"
    using length_envelope[of demo_crypto k demo_sent] demo_canonical_length by linarith
  then show ?thesis by (simp add: records_ok_def)
qed

lemma queue_holds_what_was_sent_witness:
  "read_queue (d_queue (daemon_run demo_crypto (booted demo_crypto [] ''srv'' []) demo_turn))
     = [envelope demo_crypto (key_generate []) demo_sent]"
proof -
  have "sent_events demo_crypto (booted demo_crypto [] ''srv'' []) demo_turn = [demo_sent]"
    by (simp add: demo_turn_event demo_sent_def demo_daemon_def)
  moreover have "list_all (\<lambda>x. sur_queue (fst x) = NoFault) demo_turn"
    by (simp add: demo_turn_def demo_beats_def demo_sur_def)
  ultimately show ?thesis
    using queue_holds_what_was_sent[OF _ refl, of demo_turn demo_crypto "[]" "''srv''" "[]"] demo_records
    by simp
qed

lemma no_heartbeat_no_event_witness:
  "sent_events demo_crypto (booted demo_crypto [] ''srv'' [])
     [(demo_sur, Hook ''UserPromptSubmit'' ''s1'', 1000), (demo_sur, Hook ''Stop'' ''s1'', 60000)] = []"
  by (rule no_heartbeat_no_event) simp

lemma paused_daemon_emits_nothing_witness:
  "sent_events demo_crypto (handle demo_crypto demo_sur (Cmd Pause) 0 (booted demo_crypto [] ''srv'' [])) demo_turn = []"
  by (rule paused_daemon_emits_nothing)
    (simp_all add: booted_def daemon_fields demo_turn_def demo_beats_def)

end
