(* ===== verification/End_To_End.thy ===== *)
theory End_To_End
  imports Server_Http Daemon
begin

section \<open>From the wait to the balance: daemon and server together\<close>

text \<open>
  The two ends of the protocol joined: the events a daemon emits, signed with its key and posted
  in any batches, are what the server's ingest takes. Lemmas: an honest daemon's events are all
  accepted and paid at the price of the server, and the balance agrees with the daemon's own
  ticker; when an event is lost on the way, nothing the device emits after it is accepted. The pool
  the server serves is the pool the daemon reads.
\<close>

text \<open>What an envelope carries: the event and its signature.\<close>

definition signed_by :: "crypto \<Rightarrow> device_key \<Rightarrow> event \<Rightarrow> signed_event" where
  "signed_by C k e = \<lparr>se_e = e, se_s = hex_encode C (key_sign C k e)\<rparr>"

definition total_imps :: "event list \<Rightarrow> u64" where
  "total_imps es = sum_list (map imp_count es)"

lemma total_imps_simps [simp]:
  "total_imps [] = 0" "total_imps (e # es) = imp_count e + total_imps es"
  "total_imps (es @ fs) = total_imps es + total_imps fs"
  by (simp_all add: total_imps_def)

subsection \<open>One honest event\<close>

lemma ingest_one_accepts:
  assumes "fst (accept_event C device se s) = Inr ()"
  shows "\<exists>s'. ingest_one C device se (r, s) = (r\<lparr>ir_accepted := ir_accepted r + 1\<rparr>, s')
    \<and> devices s' = devices (snd (accept_event C device se s))
    \<and> seen_event_ids s' = seen_event_ids (snd (accept_event C device se s))
    \<and> balances s' = balances (snd (accept_event C device se s))
    \<and> impressions s' = impressions (snd (accept_event C device se s))"
  using assms by (auto simp: ingest_one_def Let_def split: prod.splits sum.splits)

lemma accept_event_money:
  assumes "fst (accept_event C device se s) = Inr ()" "hm_get (devices s) device = Some dev"
  shows "hm_get_or 0 (balances (snd (accept_event C device se s))) = (hm_get_or 0 (balances s))
      (dv_account_id dev := hm_get_or 0 (balances s) (dv_account_id dev) + 5000 * imp_count (se_e se))"
    and "hm_get_or 0 (impressions (snd (accept_event C device se s))) = (hm_get_or 0 (impressions s))
      (dv_account_id dev := hm_get_or 0 (impressions s) (dv_account_id dev) + imp_count (se_e se))"
proof -
  let ?X = "snd (accept_event C device se s)"
  have "balances ?X = balances (mem ?X)" "impressions ?X = impressions (mem ?X)" by simp_all
  then show "hm_get_or 0 (balances ?X) = (hm_get_or 0 (balances s))
      (dv_account_id dev := hm_get_or 0 (balances s) (dv_account_id dev) + 5000 * imp_count (se_e se))"
    "hm_get_or 0 (impressions ?X) = (hm_get_or 0 (impressions s))
      (dv_account_id dev := hm_get_or 0 (impressions s) (dv_account_id dev) + imp_count (se_e se))"
    unfolding accept_event_mem[OF assms] by (simp_all add: credit_imps_def advance_def maps)
qed

text \<open>A device record whose head and counter continue at the start of a list of events.\<close>

definition expects :: "crypto \<Rightarrow> device_key \<Rightarrow> string \<Rightarrow> string \<Rightarrow> u64 \<Rightarrow> string \<Rightarrow> app_state \<Rightarrow> bool" where
  "expects C k device p c acct s \<longleftrightarrow> (\<exists>dev. hm_get (devices s) device = Some dev
     \<and> dv_pubkey dev = verifying_key C k \<and> dv_chain_head dev = p \<and> expected_ctr dev = c
     \<and> dv_account_id dev = acct)"

lemma honest_event:
  assumes "hex_ok C" "ed25519_ok C" "expects C k device (ev_prev e) (ev_ctr e) acct s"
    and "ev_id e \<notin> seen_event_ids s"
  shows "\<exists>s'. ingest_one C device (signed_by C k e) (r, s) = (r\<lparr>ir_accepted := ir_accepted r + 1\<rparr>, s')
    \<and> expects C k device (chain_next C (canonical_bytes C e)) (ev_ctr e + 1) acct s'
    \<and> seen_event_ids s' = insert (ev_id e) (seen_event_ids s)
    \<and> hm_get_or 0 (balances s') = (hm_get_or 0 (balances s))(acct := hm_get_or 0 (balances s) acct + 5000 * imp_count e)
    \<and> hm_get_or 0 (impressions s') = (hm_get_or 0 (impressions s))(acct := hm_get_or 0 (impressions s) acct + imp_count e)"
proof -
  let ?se = "signed_by C k e"
  obtain dev where dev: "hm_get (devices s) device = Some dev" "dv_pubkey dev = verifying_key C k"
    "dv_chain_head dev = ev_prev e" "expected_ctr dev = ev_ctr e" "dv_account_id dev = acct"
    using assms(3) by (auto simp: expects_def)
  have acc: "acceptable C device ?se s"
    unfolding signed_by_def using assms(1,2,4) dev by (intro signed_acceptable) auto
  then have ok: "fst (accept_event C device ?se s) = Inr ()" by (simp only: accept_event_iff)
  obtain s' where s': "ingest_one C device ?se (r, s) = (r\<lparr>ir_accepted := ir_accepted r + 1\<rparr>, s')"
    "devices s' = devices (snd (accept_event C device ?se s))"
    "seen_event_ids s' = seen_event_ids (snd (accept_event C device ?se s))"
    "balances s' = balances (snd (accept_event C device ?se s))"
    "impressions s' = impressions (snd (accept_event C device ?se s))"
    using ingest_one_accepts[OF ok] by blast
  have e: "se_e ?se = e" by (simp add: signed_by_def)
  have "expects C k device (chain_next C (canonical_bytes C e)) (ev_ctr e + 1) acct s'"
    using accept_event_device[OF acc dev(1)] dev s'(2) by (simp add: expects_def expected_ctr_def e)
  moreover have "seen_event_ids s' = insert (ev_id e) (seen_event_ids s)"
    using accept_event_fields(2)[OF ok dev(1)] by (simp add: s'(3) e)
  ultimately show ?thesis
    using s'(1) accept_event_money[OF ok dev(1)] dev(5) by (simp add: s'(4,5) e)
qed

subsection \<open>An honest history, in any batches\<close>

lemma honest_batch:
  assumes "hex_ok C" "ed25519_ok C"
  shows "expects C k device p c acct s \<Longrightarrow> linked C p c es \<Longrightarrow> distinct (map ev_id es) \<Longrightarrow>
    set (map ev_id es) \<inter> seen_event_ids s = {} \<Longrightarrow>
    \<exists>s'. fold (ingest_one C device) (map (signed_by C k) es) (r, s)
           = (r\<lparr>ir_accepted := ir_accepted r + of_nat (length es)\<rparr>, s')
      \<and> expects C k device (chain_end C p es) (c + of_nat (length es)) acct s'
      \<and> seen_event_ids s' = set (map ev_id es) \<union> seen_event_ids s
      \<and> hm_get_or 0 (balances s') = (hm_get_or 0 (balances s))(acct := hm_get_or 0 (balances s) acct + 5000 * total_imps es)
      \<and> hm_get_or 0 (impressions s') = (hm_get_or 0 (impressions s))(acct := hm_get_or 0 (impressions s) acct + total_imps es)"
proof (induction es arbitrary: s p c r)
  case Nil
  then show ?case by simp
next
  case (Cons e es)
  have ex: "expects C k device (ev_prev e) (ev_ctr e) acct s" using Cons.prems(1,2) by simp
  have "ev_id e \<notin> seen_event_ids s" using Cons.prems(4) by auto
  from honest_event[OF assms ex this, of r] obtain s1 where s1:
    "ingest_one C device (signed_by C k e) (r, s) = (r\<lparr>ir_accepted := ir_accepted r + 1\<rparr>, s1)"
    "expects C k device (chain_next C (canonical_bytes C e)) (c + 1) acct s1"
    "seen_event_ids s1 = insert (ev_id e) (seen_event_ids s)"
    "hm_get_or 0 (balances s1) = (hm_get_or 0 (balances s))(acct := hm_get_or 0 (balances s) acct + 5000 * imp_count e)"
    "hm_get_or 0 (impressions s1) = (hm_get_or 0 (impressions s))(acct := hm_get_or 0 (impressions s) acct + imp_count e)"
    using Cons.prems(2) by auto
  have "linked C (chain_next C (canonical_bytes C e)) (c + 1) es" "distinct (map ev_id es)"
    "set (map ev_id es) \<inter> seen_event_ids s1 = {}"
    using Cons.prems by (auto simp: s1(3))
  from Cons.IH[OF s1(2) this, of "r\<lparr>ir_accepted := ir_accepted r + 1\<rparr>"] show ?case
    by (auto simp: s1(1,3,4,5) fun_eq_iff algebra_simps)
qed

lemma ingest_honest:
  assumes "hex_ok C" "ed25519_ok C" "expects C k device p c acct s" "linked C p c es"
    and "distinct (map ev_id es)" "set (map ev_id es) \<inter> seen_event_ids s = {}"
  shows "fst (ingest C device (map (signed_by C k) es) s)
      = \<lparr>ir_accepted = of_nat (length es), ir_rejected = 0, ir_reasons = []\<rparr>"
    and "expects C k device (chain_end C p es) (c + of_nat (length es)) acct
      (snd (ingest C device (map (signed_by C k) es) s))"
    and "seen_event_ids (snd (ingest C device (map (signed_by C k) es) s))
      = set (map ev_id es) \<union> seen_event_ids s"
    and "hm_get_or 0 (balances (snd (ingest C device (map (signed_by C k) es) s)))
      = (hm_get_or 0 (balances s))(acct := hm_get_or 0 (balances s) acct + 5000 * total_imps es)"
    and "hm_get_or 0 (impressions (snd (ingest C device (map (signed_by C k) es) s)))
      = (hm_get_or 0 (impressions s))(acct := hm_get_or 0 (impressions s) acct + total_imps es)"
  using honest_batch[OF assms, of "\<lparr>ir_accepted = 0, ir_rejected = 0, ir_reasons = []\<rparr>"]
  unfolding ingest_def by auto

text \<open>The batches of the flush loop, posted one after the other.\<close>

fun post_all :: "crypto \<Rightarrow> string \<Rightarrow> signed_event list list \<Rightarrow> app_state \<Rightarrow> ingest_resp list \<times> app_state" where
  "post_all C device [] s = ([], s)"
| "post_all C device (b # bs) s =
     (case ingest C device b s of (r, s1) \<Rightarrow> (case post_all C device bs s1 of (rs, s2) \<Rightarrow> (r # rs, s2)))"

lemma post_all_honest:
  assumes "hex_ok C" "ed25519_ok C"
  shows "expects C k device p c acct s \<Longrightarrow> linked C p c (concat bs) \<Longrightarrow> distinct (map ev_id (concat bs)) \<Longrightarrow>
    set (map ev_id (concat bs)) \<inter> seen_event_ids s = {} \<Longrightarrow>
    list_all (\<lambda>r. ir_rejected r = 0 \<and> ir_reasons r = []) (fst (post_all C device (map (map (signed_by C k)) bs) s))
    \<and> hm_get_or 0 (balances (snd (post_all C device (map (map (signed_by C k)) bs) s)))
       = (hm_get_or 0 (balances s))(acct := hm_get_or 0 (balances s) acct + 5000 * total_imps (concat bs))
    \<and> hm_get_or 0 (impressions (snd (post_all C device (map (map (signed_by C k)) bs) s)))
       = (hm_get_or 0 (impressions s))(acct := hm_get_or 0 (impressions s) acct + total_imps (concat bs))"
proof (induction bs arbitrary: s p c)
  case Nil
  then show ?case by simp
next
  case (Cons b bs)
  define s1 where "s1 = snd (ingest C device (map (signed_by C k) b) s)"
  have b: "linked C p c b" "distinct (map ev_id b)" "set (map ev_id b) \<inter> seen_event_ids s = {}"
    using Cons.prems by (auto simp: linked_append)
  note h = ingest_honest[OF assms Cons.prems(1) b, folded s1_def]
  have "linked C (chain_end C p b) (c + of_nat (length b)) (concat bs)" "distinct (map ev_id (concat bs))"
    "set (map ev_id (concat bs)) \<inter> seen_event_ids s1 = {}"
    using Cons.prems by (auto simp: linked_append h(3))
  note t = Cons.IH[OF h(2) this]
  obtain r where "ingest C device (map (signed_by C k) b) s = (r, s1)" "ir_rejected r = 0" "ir_reasons r = []"
    using h(1) by (cases "ingest C device (map (signed_by C k) b) s") (auto simp: s1_def)
  with t h(4,5) show ?case
    by (auto simp: fun_eq_iff algebra_simps split: prod.split)
qed

text \<open>The ticker of the daemon counts the impressions of the events it has sent.\<close>

lemma unat_ucast_u32: "unat (ucast (x :: u32) :: u64) = unat x"
proof -
  have "unat x < 2 ^ LENGTH(32)" using unsigned_less[where ?'a = nat, of x] by simp
  then show ?thesis by (simp add: unsigned_ucast_eq take_bit_nat_eq_self)
qed

lemma ucast_small_imps: "n \<le> 60 \<Longrightarrow> (ucast (ucast (of_nat n :: u64) :: u32) :: u64) = of_nat n"
proof -
  assume n: "n \<le> 60"
  then have "unat (ucast (of_nat n :: u64) :: u32) = n"
    by (simp add: unsigned_ucast_eq unat_of_nat take_bit_nat_eq_self)
  then have "unat (ucast (ucast (of_nat n :: u64) :: u32) :: u64) = n" by (simp only: unat_ucast_u32)
  with n show ?thesis by (simp add: word_unat_eq_iff unat_of_nat take_bit_nat_eq_self)
qed

lemma handle_ticker:
  "d_impressions_total (handle C w msg t d) = d_impressions_total d
     + (case emitted C w msg t d of None \<Rightarrow> 0 | Some e \<Rightarrow> imp_count e)"
proof (cases "emitted C w msg t d")
  case None
  then show ?thesis by (simp add: handle_quiet)
next
  case (Some e)
  then obtain sid where m: "msg = Hook ''Stop'' sid" "0 < stop_impressions sid (unat t) d"
    and e: "e = imp_event C w sid (of_nat (stop_impressions sid (unat t) d)) t d"
    by (auto simp: emitted_def split: socket_msg.splits if_splits)
  then have "imp_count e = of_nat (stop_impressions sid (unat t) d)"
    using ucast_small_imps[OF stop_impressions_max] by (simp add: imp_count_def imp_event_def)
  with m Some show ?thesis by (simp add: handle_stop Let_def daemon_fields)
qed

lemma ticker_run: "d_impressions_total (daemon_run C d xs) = d_impressions_total d + total_imps (sent_events C d xs)"
  by (induction C d xs rule: sent_events.induct) (simp_all add: handle_ticker split: option.split)

subsection \<open>A lost event\<close>

text \<open>A batch none of whose events carries the counter that is expected changes no book.\<close>

lemma wrong_counters:
  assumes "hm_get (devices s) device = Some dev" "list_all (\<lambda>se. ev_ctr (se_e se) \<noteq> expected_ctr dev) ses"
  shows "ir_accepted (fst (fold (ingest_one C device) ses (r, s))) = ir_accepted r
    \<and> devices (snd (fold (ingest_one C device) ses (r, s))) = devices s
    \<and> balances (snd (fold (ingest_one C device) ses (r, s))) = balances s
    \<and> impressions (snd (fold (ingest_one C device) ses (r, s))) = impressions s
    \<and> ledger (snd (fold (ingest_one C device) ses (r, s))) = ledger s"
  using assms
proof (induction ses arbitrary: r s)
  case Nil
  then show ?case by simp
next
  case (Cons se ses)
  have "\<not> acceptable C device se s" using Cons.prems by (simp add: acceptable_def)
  then obtain reason where "fst (accept_event C device se s) = Inl reason"
    by (metis accept_event_iff old.sum.exhaust old.unit.exhaust)
  then have a: "accept_event C device se s = (Inl reason, s)"
    using accept_event_reject by (metis prod.collapse)
  obtain r1 s1 where o: "ingest_one C device se (r, s) = (r1, s1)" "ir_accepted r1 = ir_accepted r"
    "devices s1 = devices s" "balances s1 = balances s" "impressions s1 = impressions s" "ledger s1 = ledger s"
    by (simp add: ingest_one_def a Let_def)
  have "hm_get (devices s1) device = Some dev" "list_all (\<lambda>se. ev_ctr (se_e se) \<noteq> expected_ctr dev) ses"
    using Cons.prems by (simp_all add: o(3))
  from Cons.IH[OF this, of r1] show ?case by (simp add: o)
qed

lemma later_counters:
  assumes "linked C p (c + of_nat (Suc j)) es" "Suc j + length es < 2 ^ 64"
  shows "list_all (\<lambda>e. ev_ctr e \<noteq> c) es"
  unfolding list_all_length
proof (intro allI impI)
  fix i assume i: "i < length es"
  have "ev_ctr (es ! i) = c + of_nat (Suc j + i)"
    using linked_ctr[OF assms(1) i] by (simp add: algebra_simps)
  moreover have "(of_nat (Suc j + i) :: u64) \<noteq> 0"
  proof -
    have "unat (of_nat (Suc j + i) :: u64) = Suc j + i"
      using i assms(2) by (simp add: unat_of_nat take_bit_nat_eq_self del: of_nat_add of_nat_Suc)
    then show ?thesis by (metis add_is_0 nat.distinct(1) unsigned_0)
  qed
  ultimately show "ev_ctr (es ! i) \<noteq> c" by (simp del: of_nat_add of_nat_Suc)
qed

subsection \<open>The pool on both ends\<close>

lemma parse_creative_json:
  "parse_creative (serve_creative_json c) = Some (sc_id c, sc_text c, sc_url c, sc_short_code c)"
  by (simp add: parse_creative_def get_str_def serve_creative_json_def hm_get_def)

lemma map_filter_parse:
  "List.map_filter parse_creative (map serve_creative_json cs)
     = map (\<lambda>c. (sc_id c, sc_text c, sc_url c, sc_short_code c)) cs"
  by (induction cs) (simp_all add: List.map_filter_simps parse_creative_json)

lemma serve_roundtrip:
  assumes "parse body = Some (serve_json (c, cs))"
  shows "serve_creatives parse (Some body)
    = map (\<lambda>c. (sc_id c, sc_text c, sc_url c, sc_short_code c)) (if cs = [] then [c] else cs)"
  using assms
  by (simp add: serve_creatives_def serve_json_def hm_get_def map_filter_parse parse_creative_json)

subsection \<open>Properties\<close>

lemma register_expects:
  assumes "hex_ok C" "ed25519_ok C" "rq_pubkey req = hex_encode C (verifying_key C k)"
    and "s = snd (register C peer hs req now s0)"
  shows "expects C k (rq_device_id req) GENESIS_PREV 0 (account_of (rq_device_id req)) s"
    and "seen_event_ids s = seen_event_ids s0"
    and "hm_get_or 0 (balances s) = hm_get_or 0 (balances s0)"
    and "hm_get_or 0 (impressions s) = hm_get_or 0 (impressions s0)"
proof -
  have d: "decode_pubkey C (rq_pubkey req) = Some (verifying_key C k)"
    using assms(1,2) by (simp add: assms(3) verifying_key_decodes)
  from register_device[OF d] show "expects C k (rq_device_id req) GENESIS_PREV 0 (account_of (rq_device_id req)) s"
    by (simp add: expects_def expected_ctr_def assms(4))
  show "seen_event_ids s = seen_event_ids s0" "hm_get_or 0 (balances s) = hm_get_or 0 (balances s0)"
    "hm_get_or 0 (impressions s) = hm_get_or 0 (impressions s0)"
    by (simp_all add: assms(4) register_def d Let_def maps)
qed

lemma booted_total [daemon_fields]: "d_impressions_total (booted C r server pool) = 0"
  by (simp add: booted_def start_networked_def daemon_new_def daemon_fields Let_def split: list.split)

text \<open>The same for the records themselves, in any batches.\<close>

lemma honest_history_is_paid:
  assumes "hex_ok C" "ed25519_ok C" "d = daemon_run C (booted C r server pool) xs"
    and "es = sent_events C (booted C r server pool) xs"
    and "rq_device_id req = device_id C (key_generate r)"
    and "rq_pubkey req = hex_encode C (verifying_key C (key_generate r))"
    and "s = snd (register C peer hs req now s0)"
    and "distinct (map ev_id es)" "set (map ev_id es) \<inter> seen_event_ids s0 = {}"
    and "concat bs = es"
    and "post_all C (rq_device_id req) (map (map (signed_by C (key_generate r))) bs) s = (rs, s')"
  shows "list_all (\<lambda>r. ir_rejected r = 0 \<and> ir_reasons r = []) rs
    \<and> br_impressions (balance (rq_device_id req) s')
        = br_impressions (balance (rq_device_id req) s0) + d_impressions_total d
    \<and> br_balance_usd_micros (balance (rq_device_id req) s')
        = br_balance_usd_micros (balance (rq_device_id req) s0) + 5000 * d_impressions_total d"
proof -
  note reg = register_expects[OF assms(1,2,6,7)]
  have "linked C GENESIS_PREV 0 (concat bs)"
    using sent_linked[of C "booted C r server pool" xs] by (simp add: assms(4,10) booted_def daemon_fields)
  moreover have "d_impressions_total d = total_imps es"
    using ticker_run[of C "booted C r server pool" xs]
    by (simp add: assms(3,4) booted_total)
  ultimately show ?thesis
    using post_all_honest[OF assms(1,2) reg(1), of bs] assms(8,9) reg(2)
    by (simp add: assms(10,11) reg(3,4) balance_def Let_def)
qed

lemma demo_signed_by: "signed_by demo_crypto demo_key e = demo_signed e"
  by (simp add: signed_by_def demo_signed_def)

definition demo_daemon_req :: register_req where
  "demo_daemon_req = \<lparr>rq_device_id = device_id demo_crypto (key_generate []),
     rq_pubkey = hex_encode demo_crypto (verifying_key demo_crypto (key_generate [])),
     rq_os = None, rq_arch = None, rq_hostname = None, rq_version = None, rq_email = None\<rparr>"

text \<open>
  C27: an event lost on the way ends the earning of a device: as long as the server has not seen it,
  every event the daemon emits after it is rejected, whoever signed it and however often it is
  posted, and the device record, the balances and the ledger stay as they were.
\<close>

theorem lost_event_stops_earning:
  assumes "hm_get (devices s) device = Some dev"
    and "linked C p (case dv_ctr_head dev of Some c \<Rightarrow> c + 1 | None \<Rightarrow> 0) (lost # es)"
    and "length es < 2 ^ 64 - 1" "map se_e ses = es"
  shows "ir_accepted (fst (ingest C device ses s)) = 0
    \<and> devices (snd (ingest C device ses s)) = devices s
    \<and> balances (snd (ingest C device ses s)) = balances s
    \<and> impressions (snd (ingest C device ses s)) = impressions s
    \<and> ledger (snd (ingest C device ses s)) = ledger s"
proof -
  have "linked C (chain_next C (canonical_bytes C lost)) (expected_ctr dev + of_nat (Suc 0)) es"
    using assms(2) by (simp add: expected_ctr_def)
  then have "list_all (\<lambda>e. ev_ctr e \<noteq> expected_ctr dev) es"
    using later_counters[of C _ "expected_ctr dev" 0 es] assms(3) by simp
  then have "list_all (\<lambda>se. ev_ctr (se_e se) \<noteq> expected_ctr dev) ses"
    by (simp add: assms(4) [symmetric] list.pred_map comp_def)
  from wrong_counters[OF assms(1) this, of C "\<lparr>ir_accepted = 0, ir_rejected = 0, ir_reasons = []\<rparr>"]
  show ?thesis by (simp add: ingest_def)
qed

definition demo_later :: event where
  "demo_later = demo_event\<lparr>ev_ctr := 1, ev_prev := chain_next demo_crypto (canonical_bytes demo_crypto demo_event)\<rparr>"

lemma lost_event_stops_earning_witness:
  "ledger (snd (ingest demo_crypto ''d1'' [demo_signed demo_later] demo_server)) = ledger demo_server
   \<and> ir_accepted (fst (ingest demo_crypto ''d1'' [demo_signed demo_later] demo_server)) = 0"
proof -
  have l: "linked demo_crypto GENESIS_PREV 0 [demo_event, demo_later]"
    by (simp add: demo_later_def demo_event_def)
  show ?thesis
    using lost_event_stops_earning[OF demo_device, of demo_crypto GENESIS_PREV demo_event "[demo_later]"
        "[demo_signed demo_later]"] l
    by (simp add: demo_signed_def)
qed

text \<open>Redirection takes the first ad of the pool with the code.\<close>

lemma first_with_code:
  assumes "i < length cs"
  shows "\<exists>j \<le> i. cr_short_code (cs ! j) = cr_short_code (cs ! i)
    \<and> cr_short_code (cs ! i) \<notin> cr_short_code ` set (take j cs)
    \<and> find (\<lambda>c. cr_short_code c = cr_short_code (cs ! i)) cs = Some (cs ! j)"
proof -
  define P where "P j \<longleftrightarrow> cr_short_code (cs ! j) = cr_short_code (cs ! i)" for j
  define j where "j = (LEAST j. P j)"
  have "P i" by (simp add: P_def)
  then have j: "P j" "j \<le> i" "\<And>l. l < j \<Longrightarrow> \<not> P l"
    unfolding j_def by (auto intro: LeastI Least_le dest: not_less_Least)
  have "cr_short_code (cs ! i) \<notin> cr_short_code ` set (take j cs)"
    using j(2,3) assms by (fastforce simp: in_set_conv_nth P_def)
  moreover have "find (\<lambda>c. cr_short_code c = cr_short_code (cs ! i)) cs = Some (cs ! j)"
    unfolding find_Some_iff using j assms by (intro exI[of _ j]) (simp add: P_def)
  ultimately show ?thesis using j by (auto simp: P_def)
qed

text \<open>
  C33: an ad leads to its advertiser: the pool the daemon reads from the server's response is the
  pool the server serves, and following the link the daemon shows for an ad redirects to the address
  of the first ad in the pool with its short code. That is the ad itself when short codes are
  distinct; they are drawn at random and not compared, and of two ads with one code the link of the
  later leads to the earlier.
\<close>

theorem ad_links_to_its_advertiser:
  assumes "parse body = Some (serve_json (serve s))" "i < length (creatives s)"
    and "d = start_networked server (serve_creatives parse (Some body)) fault d0"
  shows "length (d_ads d) = length (creatives s)
    \<and> snd (d_ads d ! i) = cr_text (creatives s ! i)
    \<and> (\<exists>j \<le> i. cr_short_code (creatives s ! j) = cr_short_code (creatives s ! i)
         \<and> cr_short_code (creatives s ! i) \<notin> cr_short_code ` set (take j (creatives s))
         \<and> fst (click (fst (d_ads d ! i)) s) = cr_url (creatives s ! j)
         \<and> (distinct (map cr_short_code (creatives s)) \<longrightarrow> j = i))
    \<and> d_current_creative d = Some (cr_id (hd (creatives s)))"
proof -
  define pool where "pool = map (\<lambda>c. (cr_id c, cr_text c, cr_url c, cr_short_code c)) (creatives s)"
  have ne: "creatives s \<noteq> []" using assms(2) by auto
  obtain c cs where r: "serve s = (c, cs)" by force
  then have cs: "cs = map to_serve (creatives s)" by (simp add: serve_def Let_def)
  have "serve_creatives parse (Some body) = pool"
    using serve_roundtrip[of parse body c cs] assms(1) ne
    by (simp add: r cs pool_def to_serve_def)
  moreover have "pool \<noteq> []" using ne by (simp add: pool_def)
  ultimately have ads: "d_ads d = map (\<lambda>c. (cr_short_code c, cr_text c)) (creatives s)"
    and cur: "d_current_creative d = Some (cr_id (hd (creatives s)))"
    using ne unfolding assms(3)
    by (auto simp: start_networked_def write_status_cache_def featured_ad_def Let_def pool_def
        daemon_fields neq_Nil_conv split: prod.splits)
  from first_with_code[OF assms(2)] obtain j where j: "j \<le> i"
    "cr_short_code (creatives s ! j) = cr_short_code (creatives s ! i)"
    "cr_short_code (creatives s ! i) \<notin> cr_short_code ` set (take j (creatives s))"
    "find (\<lambda>c. cr_short_code c = cr_short_code (creatives s ! i)) (creatives s) = Some (creatives s ! j)" by blast
  have "distinct (map cr_short_code (creatives s)) \<longrightarrow> j = i"
    using j(1,2) assms(2) nth_eq_iff_index_eq[of "map cr_short_code (creatives s)" j i] by auto
  moreover have "fst (click (cr_short_code (creatives s ! i)) s) = cr_url (creatives s ! j)"
    using j(4) by (simp add: click_def Let_def)
  ultimately show ?thesis using ads cur assms(2) j(1-3) by auto
qed

lemma ad_links_to_its_advertiser_witness:
  "fst (click (fst (d_ads (start_networked ''srv'' (serve_creatives (\<lambda>_. Some (serve_json (serve seeded))) (Some []))
       NoFault demo_daemon) ! 1)) seeded) = ''https://example.com/ctxgraph''"
proof -
  have c: "creatives seeded = house_creatives" by (simp add: seeded_def)
  have "distinct (map cr_short_code (creatives seeded))" "1 < length (creatives seeded)"
    "cr_url (creatives seeded ! 1) = ''https://example.com/ctxgraph''"
    unfolding c by (simp_all add: house_creatives_def)
  then show ?thesis
    using ad_links_to_its_advertiser[where parse = "\<lambda>_. Some (serve_json (serve seeded))" and body = "[]"
      and s = seeded and i = 1 and server = "''srv''" and fault = NoFault and ?d0.0 = demo_daemon, OF refl _ refl]
    by auto
qed

end
