(* ===== verification/Network.thy ===== *)
theory Network
  imports End_To_End
begin

section \<open>A hostile network between daemon and server\<close>

text \<open>
  Whoever posts for a device, in whatever batches: events left out, repeated, in another order,
  changed, or invented. As long as what verifies under the device's key was signed by the daemon, the
  server has credited at every moment exactly the first \<open>j\<close> events the daemon emitted, for some \<open>j\<close>.
\<close>

text \<open>The device stands after the first \<open>j\<close> of the daemon's events, and was paid for those.\<close>

definition stands_at :: "crypto \<Rightarrow> device_key \<Rightarrow> string \<Rightarrow> string \<Rightarrow> event list \<Rightarrow> i64 \<Rightarrow> u64 \<Rightarrow> nat \<Rightarrow> app_state \<Rightarrow> bool" where
  "stands_at C k device acct es b0 i0 j s \<longleftrightarrow> j \<le> length es
     \<and> expects C k device (chain_end C GENESIS_PREV (take j es)) (of_nat j) acct s
     \<and> hm_get_or 0 (balances s) acct = b0 + 5000 * total_imps (take j es)
     \<and> hm_get_or 0 (impressions s) acct = i0 + total_imps (take j es)"

definition unforged :: "crypto \<Rightarrow> device_key \<Rightarrow> event list \<Rightarrow> signed_event \<Rightarrow> bool" where
  "unforged C k es se \<longleftrightarrow> (\<forall>sig. hex_decode C (se_s se) = Some sig \<longrightarrow>
     key_verify C (se_e se) sig (verifying_key C k) \<longrightarrow> se_e se \<in> set es)"

lemma stands_at_cong:
  "stands_at C k device acct es b0 i0 j s \<Longrightarrow> devices s' = devices s \<Longrightarrow> balances s' = balances s \<Longrightarrow>
     impressions s' = impressions s \<Longrightarrow> stands_at C k device acct es b0 i0 j s'"
  by (simp add: stands_at_def expects_def)

text \<open>In a linked history the counter identifies the event.\<close>

lemma counter_is_index:
  assumes "linked C p 0 es" "length es < 2 ^ 64" "e \<in> set es" "ev_ctr e = of_nat j" "j \<le> length es"
  shows "j < length es \<and> e = es ! j"
proof -
  obtain i where i: "i < length es" "e = es ! i" using assms(3) by (auto simp: in_set_conv_nth)
  have small: "unat (of_nat n :: u64) = n" if "n \<le> length es" for n
    using that assms(2) by (simp add: unat_of_nat take_bit_nat_eq_self)
  have "(of_nat i :: u64) = of_nat j" using linked_ctr[OF assms(1) i(1)] assms(4) by (simp add: i(2))
  then have "i = j" using small[of i] small[of j] i(1) assms(5) by (metis less_imp_le)
  with i show ?thesis by simp
qed

lemma accepted_is_next:
  assumes "stands_at C k device acct es b0 i0 j s" "linked C GENESIS_PREV 0 es" "length es < 2 ^ 64"
    and "unforged C k es se" "acceptable C device se s"
  shows "j < length es \<and> se_e se = es ! j"
proof -
  obtain dev where dev: "hm_get (devices s) device = Some dev" "dv_pubkey dev = verifying_key C k"
      "expected_ctr dev = of_nat j"
    using assms(1) by (auto simp: stands_at_def expects_def)
  obtain sig where "hex_decode C (se_s se) = Some sig" "key_verify C (se_e se) sig (verifying_key C k)"
    and ctr: "ev_ctr (se_e se) = of_nat j"
    using assms(5) dev by (auto simp: acceptable_def)
  then have "se_e se \<in> set es" using assms(4) by (auto simp: unforged_def)
  with counter_is_index[OF assms(2,3) this ctr] assms(1) show ?thesis by (simp add: stands_at_def)
qed

lemma stands_after_accept:
  assumes "stands_at C k device acct es b0 i0 j s" "acceptable C device se s" "j < length es" "se_e se = es ! j"
    and "s' = snd (accept_event C device se s)"
  shows "stands_at C k device acct es b0 i0 (Suc j) s'"
proof -
  obtain dev where dev: "hm_get (devices s) device = Some dev" "dv_pubkey dev = verifying_key C k"
      "expected_ctr dev = of_nat j" "dv_account_id dev = acct"
    using assms(1) by (auto simp: stands_at_def expects_def)
  have ctr: "ev_ctr (es ! j) = of_nat j" using assms(2,4) dev(1,3) by (auto simp: acceptable_def)
  have ok: "fst (accept_event C device se s) = Inr ()" using assms(2) by (simp add: accept_event_iff)
  have t: "take (Suc j) es = take j es @ [es ! j]" using assms(3) by (rule take_Suc_conv_app_nth)
  have "expects C k device (chain_end C GENESIS_PREV (take (Suc j) es)) (of_nat (Suc j)) acct s'"
    unfolding t chain_end_snoc
    using accept_event_device[OF assms(2) dev(1)] dev(2,4)
    by (simp add: assms(4,5) expects_def expected_ctr_def ctr add.commute)
  moreover have "hm_get_or 0 (balances s') acct = hm_get_or 0 (balances s) acct + 5000 * imp_count (es ! j)"
    "hm_get_or 0 (impressions s') acct = hm_get_or 0 (impressions s) acct + imp_count (es ! j)"
    using accept_event_money[OF ok dev(1)] by (simp_all add: assms(4,5) dev(4))
  ultimately show ?thesis
    using assms(1,3) by (simp add: stands_at_def t algebra_simps)
qed

lemma stands_after_one:
  assumes "linked C GENESIS_PREV 0 es" "length es < 2 ^ 64" "unforged C k es se"
    and "stands_at C k device acct es b0 i0 j (snd rs)"
  shows "\<exists>j'. stands_at C k device acct es b0 i0 j' (snd (ingest_one C device se rs))"
proof -
  obtain r s where rs: "rs = (r, s)" by (cases rs)
  obtain x s1 where a: "accept_event C device se s = (x, s1)" by force
  have same: "stands_at C k device acct es b0 i0 j' s1 \<Longrightarrow>
      stands_at C k device acct es b0 i0 j' (snd (ingest_one C device se rs))" for j'
    by (erule stands_at_cong) (cases x; simp add: rs a ingest_one_def Let_def)+
  show ?thesis
  proof (cases x)
    case (Inl reason)
    then have "s1 = s" using accept_event_reject[of C device se s reason] a by simp
    with assms(4) rs same show ?thesis by auto
  next
    case (Inr u)
    then have acc: "acceptable C device se s" using accept_event_iff[of C device se s] a by simp
    have st: "stands_at C k device acct es b0 i0 j s" using assms(4) rs by simp
    from accepted_is_next[OF st assms(1-3) acc] stands_after_accept[OF st acc] a same show ?thesis by force
  qed
qed

lemma stands_after_ingest:
  assumes "linked C GENESIS_PREV 0 es" "length es < 2 ^ 64" "list_all (unforged C k es) ses"
    and "stands_at C k device acct es b0 i0 j s"
  shows "\<exists>j'. stands_at C k device acct es b0 i0 j' (snd (ingest C device ses s))"
proof -
  have "list_all (unforged C k es) ses \<Longrightarrow> stands_at C k device acct es b0 i0 j (snd rs) \<Longrightarrow>
      \<exists>j'. stands_at C k device acct es b0 i0 j' (snd (fold (ingest_one C device) ses rs))" for j rs
  proof (induction ses arbitrary: j rs)
    case (Cons se ses)
    obtain j1 where "stands_at C k device acct es b0 i0 j1 (snd (ingest_one C device se rs))"
      using stands_after_one[OF assms(1,2) _ Cons.prems(2)] Cons.prems(1) by auto
    from Cons.IH[OF _ this] Cons.prems(1) show ?case by simp
  qed auto
  from this[OF assms(3)] assms(4) show ?thesis by (force simp: ingest_def)
qed

lemma stands_after_posts:
  assumes "linked C GENESIS_PREV 0 es" "length es < 2 ^ 64"
  shows "list_all (list_all (unforged C k es)) bs \<Longrightarrow> stands_at C k device acct es b0 i0 j s \<Longrightarrow>
    \<exists>j'. stands_at C k device acct es b0 i0 j' (snd (post_all C device bs s))"
proof (induction bs arbitrary: j s)
  case Nil
  then show ?case by auto
next
  case (Cons b bs)
  obtain j1 where "stands_at C k device acct es b0 i0 j1 (snd (ingest C device b s))"
    using stands_after_ingest[OF assms _ Cons.prems(2), of b] Cons.prems(1) by auto
  from Cons.IH[OF _ this] Cons.prems(1) show ?case by (auto split: prod.split)
qed

subsection \<open>The property\<close>

text \<open>
  C12: no network can make the server pay for more than the daemon counted. After a daemon has
  registered, whatever is posted for it by anyone (events missing, repeated, reordered, altered or
  made up, in any batches), as long as only the daemon can sign with its key, the server has credited
  exactly its first \<open>j\<close> events for some \<open>j\<close>: that many impressions, and 5000 micros for each.
\<close>

theorem network_cannot_inflate:
  assumes "hex_ok C" "ed25519_ok C" "es = sent_events C (booted C r server pool) xs" "length es < 2 ^ 64"
    and "rq_device_id req = device_id C (key_generate r)"
    and "rq_pubkey req = hex_encode C (verifying_key C (key_generate r))"
    and "s = snd (register C peer hs req now s0)"
    and "list_all (list_all (unforged C (key_generate r) es)) bs"
    and "post_all C (rq_device_id req) bs s = (rs, s')"
  shows "\<exists>j \<le> length es.
      br_impressions (balance (rq_device_id req) s')
        = br_impressions (balance (rq_device_id req) s0) + total_imps (take j es)
    \<and> br_balance_usd_micros (balance (rq_device_id req) s')
        = br_balance_usd_micros (balance (rq_device_id req) s0) + 5000 * total_imps (take j es)"
proof -
  let ?acct = "account_of (rq_device_id req)"
  note reg = register_expects[OF assms(1,2,6,7)]
  have l: "linked C GENESIS_PREV 0 es"
    using sent_linked[of C "booted C r server pool" xs] by (simp add: assms(3) booted_def daemon_fields)
  have "stands_at C (key_generate r) (rq_device_id req) ?acct es
      (hm_get_or 0 (balances s0) ?acct) (hm_get_or 0 (impressions s0) ?acct) 0 s"
    using reg(1,3,4) by (simp add: stands_at_def)
  from stands_after_posts[OF l assms(4,8) this] assms(9) show ?thesis
    by (auto simp: stands_at_def balance_def Let_def account_of_def)
qed

text \<open>The witness: the one event of a turn, posted twice.\<close>

lemma network_cannot_inflate_witness:
  "\<exists>j \<le> 1. br_balance_usd_micros (balance (rq_device_id demo_daemon_req)
      (snd (post_all demo_crypto (rq_device_id demo_daemon_req)
        [[signed_by demo_crypto (key_generate []) demo_sent, signed_by demo_crypto (key_generate []) demo_sent]]
        (snd (register demo_crypto ''10.0.0.1'' [] demo_daemon_req 0 seeded)))))
    = 5000 * total_imps (take j [demo_sent])"
proof -
  let ?bs = "[[signed_by demo_crypto (key_generate []) demo_sent, signed_by demo_crypto (key_generate []) demo_sent]]"
  let ?s = "snd (register demo_crypto ''10.0.0.1'' [] demo_daemon_req 0 seeded)"
  obtain rs s' where p: "post_all demo_crypto (rq_device_id demo_daemon_req) ?bs ?s = (rs, s')" by force
  have es: "[demo_sent] = sent_events demo_crypto (booted demo_crypto [] ''srv'' []) demo_turn"
    by (simp add: demo_turn_event demo_sent_def demo_daemon_def)
  have u: "list_all (list_all (unforged demo_crypto (key_generate []) [demo_sent])) ?bs"
    by (simp add: unforged_def signed_by_def)
  have z: "br_balance_usd_micros (balance (rq_device_id demo_daemon_req) seeded) = 0"
    by (simp add: balance_def seeded_def Let_def hm_get_or_def)
  have "length [demo_sent] < 2 ^ 64" by simp
  from network_cannot_inflate[OF demo_crypto_ok(2,1) es this _ _ refl u p] z p show ?thesis
    by (auto simp: demo_daemon_req_def)
qed

end
