(* ===== verification/Utf8_Laws.thy ===== *)
theory Utf8_Laws
  imports Daemon
begin

section \<open>UTF-8 texts character by character\<close>

text \<open>
  An induction rule for valid UTF-8, one character at a time, and what it gives: validity of a
  concatenation, and that \<^verbatim>\<open>from_utf8_lossy\<close> leaves valid text alone.
\<close>

declare utf8_ok.simps(2) [simp del]

text \<open>A character of more than one byte: all of them high, and nothing else of the text matters to it.\<close>

definition wide_char :: "bytes \<Rightarrow> bool" where
  "wide_char w \<longleftrightarrow> w \<noteq> [] \<and> list_all (\<lambda>c. 128 \<le> byte_val c) w
     \<and> (\<forall>t. utf8_ok (w @ t) = utf8_ok t \<and> utf8_head (hd w) (tl w @ t) = (True, length w - 1))"

lemma wide_chars:
  "byte_in 194 223 a \<Longrightarrow> utf8_cont b \<Longrightarrow> wide_char [a, b]"
  "byte_in 224 239 a \<Longrightarrow> (if byte_val a = 224 then byte_in 160 191 b
     else if byte_val a = 237 then byte_in 128 159 b else utf8_cont b) \<Longrightarrow> utf8_cont c \<Longrightarrow> wide_char [a, b, c]"
  "byte_in 240 244 a \<Longrightarrow> (if byte_val a = 240 then byte_in 144 191 b
     else if byte_val a = 244 then byte_in 128 143 b else utf8_cont b) \<Longrightarrow> utf8_cont c \<Longrightarrow> utf8_cont d \<Longrightarrow>
     wide_char [a, b, c, d]"
  by (auto simp: wide_char_def utf8_ok.simps(2)[of a] utf8_head_def utf8_tail_len_def utf8_second_def
      byte_in_def utf8_cont_def Let_def split: if_splits)

lemma utf8_split:
  assumes "utf8_ok (a # s)" "\<not> byte_val a < 128"
  obtains w t where "a # s = w @ t" "wide_char w" "utf8_ok t"
proof -
  consider "byte_in 194 223 a" | "\<not> byte_in 194 223 a" "byte_in 224 239 a"
    | "\<not> byte_in 194 223 a" "\<not> byte_in 224 239 a" "byte_in 240 244 a"
    using assms by (auto simp: utf8_ok.simps(2)[of a s] split: if_splits)
  then show thesis
  proof cases
    case 1
    then obtain b t where "s = b # t" "utf8_cont b" "utf8_ok t"
      using assms by (cases s) (auto simp: utf8_ok.simps(2)[of a])
    with 1 that[of "[a, b]" t] wide_chars(1) show thesis by simp
  next
    case 2
    then obtain b c t where t: "s = b # c # t" "utf8_cont c" "utf8_ok t" "if byte_val a = 224 then byte_in 160 191 b
     else if byte_val a = 237 then byte_in 128 159 b else utf8_cont b"
      using assms by (cases s; cases "tl s") (auto simp: utf8_ok.simps(2)[of a])
    from that[of "[a, b, c]" t] wide_chars(2)[OF 2(2) t(4,2)] t show thesis by simp
  next
    case 3
    then obtain b c d t where t: "s = b # c # d # t" "utf8_cont c" "utf8_cont d" "utf8_ok t"
     "if byte_val a = 240 then byte_in 144 191 b else if byte_val a = 244 then byte_in 128 143 b else utf8_cont b"
      using assms by (cases s; cases "tl s"; cases "tl (tl s)") (auto simp: utf8_ok.simps(2)[of a])
    from that[of "[a, b, c, d]" t] wide_chars(3)[OF 3(3) t(5,2,3)] t show thesis by simp
  qed
qed

lemma utf8_induct [consumes 1, case_names Nil low wide]:
  assumes "utf8_ok s" "P []" "\<And>a s. byte_val a < 128 \<Longrightarrow> utf8_ok s \<Longrightarrow> P s \<Longrightarrow> P (a # s)"
    and "\<And>w s. wide_char w \<Longrightarrow> utf8_ok s \<Longrightarrow> P s \<Longrightarrow> P (w @ s)"
  shows "P s"
  using assms(1)
proof (induction "length s" arbitrary: s rule: less_induct)
  case less
  show ?case
  proof (cases s)
    case (Cons a s')
    show ?thesis
    proof (cases "byte_val a < 128")
      case True
      then have "utf8_ok s'" using less.prems by (simp add: Cons utf8_ok.simps(2)[of a])
      with True less.hyps[of s'] show ?thesis by (simp add: Cons assms(3))
    next
      case False
      obtain w t where w: "a # s' = w @ t" "wide_char w" "utf8_ok t"
        using utf8_split[of a s'] less.prems False by (auto simp: Cons)
      have len: "length t < length s"
      proof -
        have "length s = length w + length t" using w(1) Cons by (metis length_append)
        moreover have "w \<noteq> []" using w(2) by (simp add: wide_char_def)
        ultimately show ?thesis by simp
      qed
      show ?thesis
        unfolding Cons w(1) by (rule assms(4)[OF w(2,3) less.hyps[OF len w(3)]])
    qed
  qed (simp add: assms(2))
qed

lemma utf8_append: "utf8_ok a \<Longrightarrow> utf8_ok (a @ b) = utf8_ok b"
proof (induction a rule: utf8_induct)
  case (low a s)
  then show ?case by (simp add: utf8_ok.simps(2)[of a "s @ b"])
qed (simp_all add: wide_char_def)

text \<open>So the lossy conversion of a valid text is the text.\<close>

lemma utf8_lossy_id: "utf8_ok b \<Longrightarrow> utf8_lossy b = b"
proof (induction b rule: utf8_induct)
  case (low a s)
  then show ?case by (simp add: utf8_lossy.simps(2) utf8_head_ascii)
next
  case (wide w s)
  then obtain a t where w: "w = a # t" by (cases w) (auto simp: wide_char_def)
  with wide show ?case by (simp add: utf8_lossy.simps(2) wide_char_def)
qed simp

end
