(* ===== verification/Json_Text.thy ===== *)
theory Json_Text
  imports Serde Utf8_Laws
begin

section \<open>JSON texts and what the daemon posts\<close>

text \<open>
  The compact text of a JSON value: no white space, members in order, the escapes of RFC 8259 that
  serde_json and JCS write. It is the reference the parser of the server is held to
  (\<open>json_reader_ok\<close>: it reads the text of a value back to that value) and JCS (\<open>jcs_text_ok\<close>: the canonical bytes of
  an event are the text of its members in some order). Lemmas: the bodies the daemon builds by
  formatting strings are such texts, and the server's deserialisers read from them what was sent.
\<close>

definition hexd :: "nat \<Rightarrow> char" where
  "hexd n = ''0123456789abcdef'' ! n"

definition escape_char :: "char \<Rightarrow> string" where
  "escape_char c =
     (let n = byte_val c
      in if n = 34 then [CHR 0x5C, CHR 0x22]
         else if n = 92 then [CHR 0x5C, CHR 0x5C]
         else if n = 8 then [CHR 0x5C, CHR ''b'']
         else if n = 9 then [CHR 0x5C, CHR ''t'']
         else if n = 10 then [CHR 0x5C, CHR ''n'']
         else if n = 12 then [CHR 0x5C, CHR ''f'']
         else if n = 13 then [CHR 0x5C, CHR ''r'']
         else if n < 32 then [CHR 0x5C, CHR ''u'', CHR ''0'', CHR ''0'', hexd (n div 16), hexd (n mod 16)]
         else [c])"

definition string_text :: "string \<Rightarrow> bytes" where
  "string_text s = CHR 0x22 # concat (map escape_char s) @ [CHR 0x22]"

text \<open>Doubles do not occur in what the daemon sends; their text is the argument.\<close>

fun json_text :: "(64 word \<Rightarrow> bytes) \<Rightarrow> json \<Rightarrow> bytes" where
  "json_text ft JNull = ''null''"
| "json_text ft (JBool b) = (if b then ''true'' else ''false'')"
| "json_text ft (JNumber (PosInt w)) = show_nat (unat w)"
| "json_text ft (JNumber (NegInt w)) = show_i64 w"
| "json_text ft (JNumber (Float w)) = ft w"
| "json_text ft (JString s) = string_text s"
| "json_text ft (JArray vs) = ''['' @ join '','' (map (json_text ft) vs) @ '']''"
| "json_text ft (JObject m) =
     ''{'' @ join '','' (map (\<lambda>kv. string_text (fst kv) @ '':'' @ json_text ft (snd kv)) m) @ ''}''"

definition json_reader_ok :: "(bytes \<Rightarrow> json option) \<Rightarrow> bool" where
  "json_reader_ok P \<longleftrightarrow> (\<forall>ft v. plain_json v \<longrightarrow> P (json_text ft v) = Some v)"

fun members :: "json \<Rightarrow> json_map" where
  "members (JObject m) = m"
| "members _ = []"

definition jcs_text_ok :: "crypto \<Rightarrow> bool" where
  "jcs_text_ok C \<longleftrightarrow> (\<forall>e. event_safe e \<longrightarrow>
     (\<exists>m ft. jcs C (event_json e) = Some (json_text ft (JObject m)) \<and> mset m = mset (members (event_json e))))"

text \<open>The alphabets of hex and base32.\<close>

definition is_alnum :: "char \<Rightarrow> bool" where
  "is_alnum c \<longleftrightarrow> is_digit c \<or> (65 \<le> byte_val c \<and> byte_val c \<le> 90) \<or> (97 \<le> byte_val c \<and> byte_val c \<le> 122)"

definition alphabets_ok :: "crypto \<Rightarrow> bool" where
  "alphabets_ok C \<longleftrightarrow> (\<forall>b. list_all is_alnum (hex_encode C b) \<and> list_all is_alnum (base32 C b))"

subsection \<open>Plain strings\<close>

lemma alnum_range: "is_alnum c \<Longrightarrow> 48 \<le> byte_val c \<and> byte_val c \<le> 122 \<and> byte_val c \<noteq> 92"
  by (auto simp: is_alnum_def is_digit_def)

lemma alnum_text: "list_all is_alnum s \<Longrightarrow> string_text s = CHR 0x22 # s @ [CHR 0x22]"
proof -
  have "list_all is_alnum s \<Longrightarrow> concat (map escape_char s) = s"
    by (induction s) (auto simp: escape_char_def Let_def dest!: alnum_range)
  then show "list_all is_alnum s \<Longrightarrow> string_text s = CHR 0x22 # s @ [CHR 0x22]" by (simp add: string_text_def)
qed

lemma alnum_utf8: "list_all is_alnum s \<Longrightarrow> utf8_ok s"
  by (rule ascii_utf8_ok) (use alnum_range in \<open>fastforce simp: ascii_def list_all_iff\<close>)

lemma lower_alnum: "is_alnum c \<Longrightarrow> is_alnum (lower_char c)"
  by (auto simp: lower_char_def is_alnum_def)

lemma device_id_alnum: "alphabets_ok C \<Longrightarrow> list_all is_alnum (device_id C k)"
  by (auto simp: alphabets_ok_def device_id_def list_all_iff intro: lower_alnum)

lemma key_text:
  "string_text ''device_id'' = CHR 0x22 # ''device_id'' @ [CHR 0x22]"
  "string_text ''events'' = CHR 0x22 # ''events'' @ [CHR 0x22]"
  "string_text ''e'' = CHR 0x22 # ''e'' @ [CHR 0x22]" "string_text ''s'' = CHR 0x22 # ''s'' @ [CHR 0x22]"
  by code_simp+

subsection \<open>Texts are UTF-8\<close>

lemma escape_high: "128 \<le> byte_val c \<Longrightarrow> escape_char c = [c]"
  by (simp add: escape_char_def)

lemma hexd_ascii: "n < 16 \<Longrightarrow> byte_val (hexd n) < 128"
proof -
  have "list_all (\<lambda>c. byte_val c < 128) ''0123456789abcdef''" by code_simp
  then show "n < 16 \<Longrightarrow> byte_val (hexd n) < 128" by (simp only: hexd_def list_all_length) simp
qed

lemma escape_low: "byte_val c < 128 \<Longrightarrow> ascii (escape_char c)"
  by (auto simp: escape_char_def Let_def ascii_def hexd_ascii) (simp_all add: byte_val_def)

lemma utf8_escape: "utf8_ok s \<Longrightarrow> utf8_ok (concat (map escape_char s))"
proof (induction s rule: utf8_induct)
  case (low a s)
  then show ?case by (simp add: utf8_append[OF ascii_utf8_ok[OF escape_low]])
next
  case (wide w s)
  have "list_all (\<lambda>c. 128 \<le> byte_val c) w \<Longrightarrow> concat (map escape_char w) = w"
    by (induction w) (simp_all add: escape_high)
  with wide show ?case by (simp add: wide_char_def)
qed simp

lemma string_utf8: "utf8_ok s \<Longrightarrow> utf8_ok (string_text s)"
  using utf8_append[OF utf8_escape] by (simp add: string_text_def utf8_ok.simps(2) byte_val_def)

lemma utf8_join: "list_all utf8_ok xs \<Longrightarrow> utf8_ok sep \<Longrightarrow> utf8_ok (join sep xs)"
  by (induction sep xs rule: join.induct) (simp_all add: utf8_append)

lemma digits_utf8: "utf8_ok (show_nat n)"
  by (rule ascii_utf8_ok)
    (use digits_show_nat[of n] in \<open>auto simp: ascii_def list_all_iff is_digit_def dest!: bspec\<close>)

lemma text_utf8: "json_wf v \<Longrightarrow> no_floats v \<Longrightarrow> utf8_ok (json_text ft v)"
proof (induction ft v rule: json_text.induct)
  case (4 ft w)
  then show ?case
    by (simp add: show_i64_def utf8_ok.simps(2)[of "CHR ''-''"] byte_val_def digits_utf8 del: show_nat.simps)
next
  case (7 ft vs)
  then have "utf8_ok (join '','' (map (json_text ft) vs))"
    by (intro utf8_join) (auto simp: list_all_iff utf8_literal)
  then show ?case by (simp add: utf8_ok.simps(2)[of "CHR ''[''"] byte_val_def utf8_append utf8_literal)
next
  case (8 ft m)
  then have "utf8_ok (join '','' (map (\<lambda>kv. string_text (fst kv) @ '':'' @ json_text ft (snd kv)) m))"
    by (intro utf8_join)
      (auto simp: list_all_iff utf8_literal utf8_append string_utf8 utf8_ok.simps(2)[of "CHR '':''"])
  then show ?case by (simp add: utf8_ok.simps(2)[of "CHR ''{''"] byte_val_def utf8_append utf8_literal)
qed (simp_all add: utf8_literal digits_utf8 string_utf8 del: show_nat.simps)

subsection \<open>The bodies as texts\<close>

lemma mset_map_of:
  assumes "mset m = mset m'" "distinct (map fst m)" shows "map_of m = map_of m'"
proof
  fix k
  have d: "distinct (map fst m')" using assms by (metis mset_eq_imp_distinct_iff mset_map)
  have "map_of m k = Some v \<longleftrightarrow> map_of m' k = Some v" for v
    using assms d by (simp add: map_of_eq_Some_iff) (metis set_mset_mset)
  then show "map_of m k = map_of m' k" by (metis not_Some_eq)
qed

text \<open>The order of the members does not matter to a struct.\<close>

lemma struct_fields_order:
  assumes "mset m = mset m'" "distinct (map fst m)"
  shows "struct_fields deny names (JObject m') = struct_fields deny names (JObject m)"
proof -
  have "distinct (map fst m')" using assms by (metis mset_eq_imp_distinct_iff mset_map)
  moreover have "set m' = set m" using assms(1) by (metis set_mset_mset)
  ultimately show ?thesis
    using assms(2) by (simp add: mset_map_of[OF assms] distinct_filter del: filter_map)
qed

lemma event_members: "event_json e = JObject (members (event_json e))" "distinct (map fst (members (event_json e)))"
  by (auto simp: event_json_def split: option.split)

lemma de_event_order:
  assumes "mset m = mset (members (event_json e))" shows "de_event (JObject m) = Some e"
proof -
  have "struct_fields True event_fields (JObject m) = struct_fields True event_fields (event_json e)"
    by (subst event_members(1)) (rule struct_fields_order[OF assms[symmetric] event_members(2)])
  then have "de_event (JObject m) = de_event (event_json e)" by (simp only: de_event_def)
  then show ?thesis by simp
qed

lemma json_text_floats: "no_floats v \<Longrightarrow> json_text ft v = json_text ft' v"
proof (induction ft v rule: json_text.induct)
  case (7 ft vs)
  then have "map (json_text ft) vs = map (json_text ft') vs" by (simp add: list_all_iff)
  then show ?case by (simp only: json_text.simps)
next
  case (8 ft m)
  then have "map (\<lambda>kv. string_text (fst kv) @ '':'' @ json_text ft (snd kv)) m
    = map (\<lambda>kv. string_text (fst kv) @ '':'' @ json_text ft' (snd kv)) m"
    by (simp add: list_all_iff)
  then show ?case by (simp only: json_text.simps)
qed simp_all

lemma funpow_max: "(max a ^^ n) b \<le> max a (b :: nat)"
  by (induction n) simp_all

lemma fold_max_replicate: "fold max (replicate n a) b \<le> max a (b :: nat)"
  using funpow_max[where a = a and n = n and b = b] by (simp add: fold_replicate)

lemma type_name_utf8: "utf8_ok (event_type_name ty)"
  by (cases ty) (simp_all add: utf8_literal)

text \<open>The members of an event are scalars, so a reordering is a plain value of depth one.\<close>

lemma event_members_plain:
  assumes "event_safe e" "mset m = mset (members (event_json e))"
  shows "json_wf (JObject m)" "no_floats (JObject m)" "json_depth (JObject m) = 1"
proof -
  have s: "set m = set (members (event_json e))" using assms(2) by (metis set_mset_mset)
  have "distinct (map fst m)"
    using assms(2) event_members(2) by (metis mset_eq_imp_distinct_iff mset_map)
  then show "json_wf (JObject m)" "no_floats (JObject m)"
    using assms(1) by (cases "ev_creative e"; cases "ev_n e";
        auto simp: list_all_iff s hm_wf_def event_json_def event_safe_def json_i64_def utf8_literal type_name_utf8)+
  have d: "\<forall>kv \<in> set m. json_depth (snd kv) = 0"
    by (auto simp: s event_json_def json_i64_def split: option.splits)
  then have "map (\<lambda>kv. json_depth (snd kv)) m = replicate (length m) 0"
    by (simp add: map_replicate_const[symmetric])
  then show "json_depth (JObject m) = 1" using fold_max_replicate[of "length m" 0 0] by (simp only: json_depth.simps max.idem le_zero_eq One_nat_def)
qed

lemma canonical_text:
  assumes "jcs_text_ok C" "event_safe e"
  shows "\<exists>m. mset m = mset (members (event_json e)) \<and> canonical_bytes C e = json_text (\<lambda>_. []) (JObject m)"
proof -
  obtain m ft where m: "jcs C (event_json e) = Some (json_text ft (JObject m))"
    "mset m = mset (members (event_json e))"
    using assms by (auto simp: jcs_text_ok_def)
  have "canonical_bytes C e = json_text (\<lambda>_. []) (JObject m)"
    unfolding canonical_bytes_def m(1)
    using json_text_floats[OF event_members_plain(2)[OF assms(2) m(2)]] by (simp only: option.simps)
  with m(2) show ?thesis by blast
qed

definition envelope_value :: "crypto \<Rightarrow> device_key \<Rightarrow> event \<Rightarrow> json_map \<Rightarrow> json" where
  "envelope_value C k e m = JObject [(''e'', JObject m), (''s'', JString (hex_encode C (key_sign C k e)))]"

definition batch_value :: "string \<Rightarrow> json list \<Rightarrow> json" where
  "batch_value device vs = JObject [(''device_id'', JString device), (''events'', JArray vs)]"

lemma hex_alnum: "alphabets_ok C \<Longrightarrow> list_all is_alnum (hex_encode C b)"
  by (simp add: alphabets_ok_def)

lemma envelope_text:
  assumes "alphabets_ok C" "event_safe e" "mset m = mset (members (event_json e))"
    and "canonical_bytes C e = json_text (\<lambda>_. []) (JObject m)"
  shows "envelope C k e = json_text (\<lambda>_. []) (envelope_value C k e m)"
proof -
  have "utf8_lossy (canonical_bytes C e) = json_text (\<lambda>_. []) (JObject m)"
    unfolding assms(4) using event_members_plain(1,2)[OF assms(2,3)] by (intro utf8_lossy_id text_utf8)
  then show ?thesis
    by (simp add: envelope_def envelope_value_def key_text alnum_text[OF hex_alnum[OF assms(1)]]
        del: json_text.simps(8)) (simp add: key_text alnum_text[OF hex_alnum[OF assms(1)]])
qed

lemma post_text:
  assumes "list_all is_alnum device"
  shows "post_ingest device (map (json_text ft) vs) = json_text ft (batch_value device vs)"
  using assms by (simp add: post_ingest_def batch_value_def key_text alnum_text)

lemma batch_plain:
  assumes "alphabets_ok C" "utf8_ok device" "list_all event_safe es"
    and "\<And>e. e \<in> set es \<Longrightarrow> mset (M e) = mset (members (event_json e))"
  shows "plain_json (batch_value device (map (\<lambda>e. envelope_value C k e (M e)) es))"
proof -
  have u: "utf8_ok (hex_encode C b)" for b using assms(1) by (intro alnum_utf8 hex_alnum)
  have v: "json_wf (envelope_value C k e (M e)) \<and> no_floats (envelope_value C k e (M e))
      \<and> json_depth (envelope_value C k e (M e)) = 2" if "e \<in> set es" for e
    using event_members_plain[OF _ assms(4)[OF that]] assms(3) that
    by (simp add: envelope_value_def u hm_wf_def utf8_literal list_all_iff)
  have d: "map (json_depth \<circ> (\<lambda>e. envelope_value C k e (M e))) es = replicate (length es) 2"
    using v by (simp add: map_replicate_const[symmetric])
  have "fold max (replicate (length es) (2::nat)) 0 \<le> 2" using fold_max_replicate[of "length es" 2 0] by (simp del: fold_replicate)
  then show ?thesis
    using v assms(2) by (simp add: plain_json_def batch_value_def hm_wf_def utf8_literal list_all_iff d del: fold_replicate)
qed

end
