(* ===== verification/Json_Read_Demo.thy ===== *)
theory Json_Read_Demo
  imports Json_Text
begin

section \<open>A reader of JSON texts\<close>

text \<open>
  A recursive-descent reader of the compact texts without doubles, on which the witnesses of the wire
  run: it satisfies \<open>json_reader_ok\<close>. The fuel of a text is its length.
\<close>

definition hexv :: "char \<Rightarrow> nat" where
  "hexv c = (if is_digit c then byte_val c - 48 else byte_val c - 87)"

definition unescape :: "char \<Rightarrow> char" where
  "unescape c = (if c = CHR ''b'' then byte_of 8 else if c = CHR ''t'' then byte_of 9
     else if c = CHR ''n'' then byte_of 10 else if c = CHR ''f'' then byte_of 12
     else if c = CHR ''r'' then byte_of 13 else c)"

text \<open>The rest of a string after its opening quote.\<close>

fun rd_chars :: "bytes \<Rightarrow> (string \<times> bytes) option" where
  "rd_chars [] = None"
| "rd_chars (c # s) =
     (if c = CHR 0x22 then Some ([], s)
      else if c = CHR 0x5C then
        (case s of
           [] \<Rightarrow> None
         | e # s1 \<Rightarrow>
             if e = CHR ''u'' then
               (case s1 of
                  z1 # z2 # h # l # s2 \<Rightarrow> map_option (\<lambda>(t, r). (byte_of (16 * hexv h + hexv l) # t, r)) (rd_chars s2)
                | _ \<Rightarrow> None)
             else map_option (\<lambda>(t, r). (unescape e # t, r)) (rd_chars s1))
      else map_option (\<lambda>(t, r). (c # t, r)) (rd_chars s))"

lemma hexv_hexd: "n < 16 \<Longrightarrow> hexv (hexd n) = n"
proof -
  have "list_all (\<lambda>n. hexv (hexd n) = n) [0..<16]" by code_simp
  then show "n < 16 \<Longrightarrow> hexv (hexd n) = n" by (simp add: list_all_iff)
qed

lemma byte_eqI: "byte_val c = n \<Longrightarrow> c = byte_of n"
  by (metis byte_of_byte_val)

lemma byte_consts:
  "byte_of 34 = CHR 0x22" "byte_of 92 = CHR 0x5C" "byte_of 8 = CHR 8" "byte_of 9 = CHR 9"
  "byte_of 10 = CHR 10" "byte_of 12 = CHR 12" "byte_of 13 = CHR 13"
  by code_simp+

lemma rd_escape_const:
  "c \<in> {CHR 0x22, CHR 0x5C, CHR 8, CHR 9, CHR 10, CHR 12, CHR 13} \<Longrightarrow>
     rd_chars (escape_char c @ r) = map_option (\<lambda>(t, r'). (c # t, r')) (rd_chars r)"
  by (elim insertE emptyE) (simp_all add: escape_char_def unescape_def byte_val_def byte_consts)

lemma rd_escape: "rd_chars (escape_char c @ r) = map_option (\<lambda>(t, r'). (c # t, r')) (rd_chars r)"
proof -
  consider (const) n where "n \<in> {34, 92, 8, 9, 10, 12, 13}" "byte_val c = n"
    | (ctl) "byte_val c < 32" "byte_val c \<notin> {8, 9, 10, 12, 13}"
    | (plain) "32 \<le> byte_val c" "byte_val c \<noteq> 34" "byte_val c \<noteq> 92" by fastforce
  then show ?thesis
  proof cases
    case ctl
    have "byte_of (16 * hexv (hexd (byte_val c div 16)) + hexv (hexd (byte_val c mod 16))) = c"
      using ctl(1) by (simp add: hexv_hexd)
    with ctl show ?thesis by (simp add: escape_char_def Let_def)
  next
    case plain
    then have "c \<noteq> CHR 0x22" "c \<noteq> CHR 0x5C" by (auto simp: byte_val_def)
    with plain show ?thesis by (simp add: escape_char_def Let_def)
  next
    case const
    then have "c \<in> byte_of ` {34, 92, 8, 9, 10, 12, 13}" by (metis byte_of_byte_val image_eqI)
    then show ?thesis by (intro rd_escape_const) (simp add: byte_consts)
  qed
qed

lemma rd_string: "rd_chars (concat (map escape_char s) @ CHR 0x22 # r) = Some (s, r)"
  by (induction s) (simp_all add: rd_escape)

subsection \<open>Values\<close>

fun rd :: "nat \<Rightarrow> bytes \<Rightarrow> (json \<times> bytes) option"
  and rd_items :: "nat \<Rightarrow> bytes \<Rightarrow> (json list \<times> bytes) option"
  and rd_members :: "nat \<Rightarrow> bytes \<Rightarrow> (json_map \<times> bytes) option" where
  "rd 0 s = None"
| "rd (Suc n) s = (case s of [] \<Rightarrow> None | c # t \<Rightarrow>
     if c = CHR ''n'' then Some (JNull, drop 3 t)
     else if c = CHR ''t'' then Some (JBool True, drop 3 t)
     else if c = CHR ''f'' then Some (JBool False, drop 4 t)
     else if c = CHR 0x22 then map_option (\<lambda>(x, r). (JString x, r)) (rd_chars t)
     else if c = CHR ''-'' then
       map_option (\<lambda>k. (JNumber (NegInt (word_of_int (- int k))), dropWhile is_digit t)) (parse_digits (takeWhile is_digit t))
     else if is_digit c then
       map_option (\<lambda>k. (JNumber (PosInt (of_nat k)), dropWhile is_digit s)) (parse_digits (takeWhile is_digit s))
     else if c = CHR ''['' then
       (case t of d # r \<Rightarrow> if d = CHR '']'' then Some (JArray [], r)
          else map_option (\<lambda>(xs, r'). (JArray xs, r')) (rd_items n t) | [] \<Rightarrow> None)
     else if c = CHR ''{'' then
       (case t of d # r \<Rightarrow> if d = CHR ''}'' then Some (JObject [], r)
          else map_option (\<lambda>(m, r'). (JObject m, r')) (rd_members n t) | [] \<Rightarrow> None)
     else None)"
| "rd_items 0 s = None"
| "rd_items (Suc n) s = (case rd n s of
       Some (x, d # r) \<Rightarrow>
         if d = CHR '','' then map_option (\<lambda>(xs, r'). (x # xs, r')) (rd_items n r)
         else if d = CHR '']'' then Some ([x], r) else None
     | _ \<Rightarrow> None)"
| "rd_members 0 s = None"
| "rd_members (Suc n) s = (case rd_chars (drop 1 s) of
       Some (k, c # t) \<Rightarrow>
         (case rd n t of
            Some (x, d # r) \<Rightarrow>
              if d = CHR '','' then map_option (\<lambda>(m, r'). ((k, x) # m, r')) (rd_members n r)
              else if d = CHR ''}'' then Some ([(k, x)], r) else None
          | _ \<Rightarrow> None)
     | _ \<Rightarrow> None)"

text \<open>The text of a number ends where no digit follows.\<close>

definition stops :: "bytes \<Rightarrow> bool" where
  "stops r \<longleftrightarrow> (case r of [] \<Rightarrow> True | c # _ \<Rightarrow> \<not> is_digit c)"

lemma digits_split:
  assumes "stops r"
  shows "takeWhile is_digit (show_nat n @ r) = show_nat n" "dropWhile is_digit (show_nat n @ r) = r"
proof -
  have d: "\<forall>c \<in> set (show_nat n). is_digit c" using digits_show_nat by (simp add: list_all_iff)
  have "takeWhile is_digit r = []" "dropWhile is_digit r = r"
    using assms by (cases r; simp add: stops_def)+
  with d show "takeWhile is_digit (show_nat n @ r) = show_nat n" "dropWhile is_digit (show_nat n @ r) = r"
    by (simp_all del: show_nat.simps)
qed

lemma show_nat_head: "\<exists>c t. show_nat n = c # t \<and> is_digit c"
  using digits_show_nat[of n] by (cases "show_nat n") auto

lemma is_digit_neq:
  "is_digit c \<Longrightarrow> c \<noteq> CHR ''n'' \<and> c \<noteq> CHR ''t'' \<and> c \<noteq> CHR ''f'' \<and> c \<noteq> CHR 0x22 \<and> c \<noteq> CHR ''-''"
  by (auto simp: is_digit_def byte_val_def)

lemma rd_nat:
  assumes "stops r"
  shows "rd (Suc n) (show_nat (unat w) @ r) = Some (JNumber (PosInt w), r)"
proof -
  obtain c t where c: "show_nat (unat w) = c # t" "is_digit c" using show_nat_head by blast
  note s = digits_split[OF assms, of "unat w", unfolded c(1)] parse_digits_show_nat[of "unat w", unfolded c(1)]
  show ?thesis unfolding c(1) using s is_digit_neq[OF c(2)] c(2) by simp
qed

lemma rd_neg:
  assumes "stops r" "sint w < 0"
  shows "rd (Suc n) (show_i64 w @ r) = Some (JNumber (NegInt w), r)"
  using digits_split[OF assms(1), of "nat (- sint w)"] assms(2)
  by (simp add: show_i64_def del: show_nat.simps)

lemma stops_sep [simp]: "stops (CHR '','' # r)" "stops (CHR '']'' # r)" "stops (CHR ''}'' # r)" "stops []"
  by (simp_all add: stops_def is_digit_def byte_val_def)

lemma rd_items_text:
  assumes "ys \<noteq> []" "\<And>y n r. y \<in> set ys \<Longrightarrow> length (f y) \<le> n \<Longrightarrow> stops r \<Longrightarrow> rd n (f y @ r) = Some (y, r)"
    and "length (join '','' (map f ys)) < k"
  shows "rd_items k (join '','' (map f ys) @ CHR '']'' # r) = Some (ys, r)"
  using assms
proof (induction ys arbitrary: k)
  case (Cons y ys)
  then obtain k' where k: "k = Suc k'" by (cases k) auto
  show ?case
  proof (cases ys)
    case Nil
    with Cons.prems show ?thesis by (simp add: k)
  next
    case (Cons z zs)
    have j: "join '','' (map f (y # ys)) = f y @ '','' @ join '','' (map f ys)" by (simp add: Cons)
    have h: "rd k' (f y @ CHR '','' # join '','' (map f ys) @ CHR '']'' # r)
        = Some (y, CHR '','' # join '','' (map f ys) @ CHR '']'' # r)"
      using Cons.prems j k by (intro Cons.prems(2)) (simp_all del: map_append)
    have "rd_items k' (join '','' (map f ys) @ CHR '']'' # r) = Some (ys, r)"
      using Cons.prems j k by (intro Cons.IH) (simp_all add: Cons)
    then show ?thesis by (simp add: k j h del: list.map)
  qed
qed simp

lemma rd_members_text:
  assumes "m \<noteq> []"
    and "\<And>kv n r. kv \<in> set m \<Longrightarrow> length (f (snd kv)) \<le> n \<Longrightarrow> stops r \<Longrightarrow> rd n (f (snd kv) @ r) = Some (snd kv, r)"
    and "length (join '','' (map (\<lambda>kv. string_text (fst kv) @ '':'' @ f (snd kv)) m)) < k"
  shows "rd_members k (join '','' (map (\<lambda>kv. string_text (fst kv) @ '':'' @ f (snd kv)) m) @ CHR ''}'' # r) = Some (m, r)"
  using assms
proof (induction m arbitrary: k)
  case (Cons y ys)
  then obtain k' where k: "k = Suc k'" by (cases k) auto
  let ?g = "\<lambda>kv. string_text (fst kv) @ '':'' @ f (snd kv)"
  have str: "rd_chars (drop 1 (string_text s @ t)) = Some (s, t)" for s t by (simp add: string_text_def rd_string)
  show ?case
  proof (cases ys)
    case Nil
    with Cons.prems show ?thesis by (simp add: k str[simplified])
  next
    case (Cons z zs)
    have j: "join '','' (map ?g (y # ys)) = ?g y @ '','' @ join '','' (map ?g ys)" by (simp add: Cons)
    have h: "rd k' (f (snd y) @ CHR '','' # join '','' (map ?g ys) @ CHR ''}'' # r)
        = Some (snd y, CHR '','' # join '','' (map ?g ys) @ CHR ''}'' # r)"
      using Cons.prems j k by (intro Cons.prems(2)) (simp_all del: map_append)
    have "rd_members k' (join '','' (map ?g ys) @ CHR ''}'' # r) = Some (ys, r)"
      using Cons.prems j k by (intro Cons.IH) (simp_all add: Cons)
    then show ?thesis unfolding j k rd_members.simps append_assoc str by (simp add: h[simplified])
  qed
qed simp

lemma text_head: "no_floats v \<Longrightarrow> \<exists>c t. json_text ft v = c # t \<and> c \<noteq> CHR '']''"
proof (induction ft v rule: json_text.induct)
  case (3 ft w)
  obtain c t where "show_nat (unat w) = c # t" "is_digit c" using show_nat_head by blast
  then show ?case by (auto simp: is_digit_def byte_val_def)
next
  case (4 ft w)
  obtain c t where "show_nat (nat (sint w)) = c # t" "is_digit c" using show_nat_head by blast
  then show ?case by (auto simp: show_i64_def is_digit_def byte_val_def)
qed (simp_all add: string_text_def)

lemma rd_text:
  "no_floats v \<Longrightarrow> json_wf v \<Longrightarrow> length (json_text ft v) \<le> n \<Longrightarrow> stops r \<Longrightarrow>
     rd n (json_text ft v @ r) = Some (v, r)"
proof (induction ft v arbitrary: n r rule: json_text.induct)
  case (3 ft w)
  then obtain n' where "n = Suc n'" by (cases n) (auto simp del: show_nat.simps)
  then show ?case using rd_nat[OF 3(4)] by simp
next
  case (4 ft w)
  then obtain n' where "n = Suc n'" by (cases n) (auto simp: show_i64_def)
  then show ?case using rd_neg[OF 4(4)] 4(2) by simp
next
  case (6 ft s)
  then obtain n' where "n = Suc n'" by (cases n) (auto simp: string_text_def)
  then show ?case by (simp add: string_text_def rd_string)
next
  case (7 ft vs)
  obtain n' where n: "n = Suc n'" using 7(4) by (cases n) auto
  show ?case
  proof (cases vs)
    case Nil
    then show ?thesis by (simp add: n is_digit_def byte_val_def)
  next
    case (Cons x xs)
    obtain c t where c: "json_text ft x = c # t" "c \<noteq> CHR '']''" using text_head 7(2) Cons by fastforce
    have h: "\<exists>t'. join '','' (map (json_text ft) vs) @ CHR '']'' # r = c # t'"
      using c(1) by (cases xs) (simp_all add: Cons)
    have "rd_items n' (join '','' (map (json_text ft) vs) @ CHR '']'' # r) = Some (vs, r)"
    proof (rule rd_items_text)
      show "vs \<noteq> []" by (simp add: Cons)
      show "length (join '','' (map (json_text ft) vs)) < n'" using 7(4) by (simp add: n)
      show "rd k (json_text ft y @ r') = Some (y, r')"
        if "y \<in> set vs" "length (json_text ft y) \<le> k" "stops r'" for y k r'
        using 7(1)[OF that(1)] 7(2,3) that by (simp add: list_all_iff)
    qed
    with h c(2) show ?thesis by (auto simp: n is_digit_def byte_val_def)
  qed
next
  case (8 ft m)
  obtain n' where n: "n = Suc n'" using 8(4) by (cases n) auto
  let ?g = "\<lambda>kv. string_text (fst kv) @ '':'' @ json_text ft (snd kv)"
  show ?case
  proof (cases m)
    case Nil
    then show ?thesis by (simp add: n is_digit_def byte_val_def)
  next
    case (Cons x xs)
    have h: "\<exists>t'. join '','' (map ?g m) @ CHR ''}'' # r = CHR 0x22 # t'"
      by (cases xs) (simp_all add: Cons string_text_def)
    have "rd_members n' (join '','' (map ?g m) @ CHR ''}'' # r) = Some (m, r)"
    proof (rule rd_members_text)
      show "m \<noteq> []" by (simp add: Cons)
      show "length (join '','' (map ?g m)) < n'" using 8(4) by (simp add: n)
      show "rd k (json_text ft (snd kv) @ r') = Some (snd kv, r')"
        if "kv \<in> set m" "length (json_text ft (snd kv)) \<le> k" "stops r'" for kv k r'
        using 8(1)[OF that(1)] 8(2,3) that by (auto simp: list_all_iff)
    qed
    with h show ?thesis by (auto simp: n is_digit_def byte_val_def)
  qed
next
  case (1 ft)
  then show ?case by (cases n) simp_all
next
  case (2 ft b)
  then show ?case by (cases n; cases b) simp_all
qed simp

definition read_json :: "bytes \<Rightarrow> json option" where
  "read_json b = (case rd (length b) b of Some (v, []) \<Rightarrow> Some v | _ \<Rightarrow> None)"

lemma read_json_ok: "json_reader_ok read_json"
proof -
  have "read_json (json_text ft v) = Some v" if "plain_json v" for ft v
    using rd_text[of v ft "length (json_text ft v)" "[]"] that by (simp add: plain_json_def read_json_def)
  then show ?thesis by (simp add: json_reader_ok_def)
qed

end
