(* ===== verification/Http_Laws.thy ===== *)
theory Http_Laws
  imports Server_Http
begin

section \<open>What an HTTP request can do\<close>

text \<open>
  Laws of \<open>app\<close>: a request is at most one step of the server, so everything proved of its reachable
  states holds behind HTTP; which endpoint can change which part of the state; an error response
  leaves the memory alone; the public pages name the house campaign whatever is posted.
\<close>

text \<open>The endpoint a request reaches, with the captured segments.\<close>

definition endpoint_of :: "http_request \<Rightarrow> (endpoint \<times> string list) option" where
  "endpoint_of r =
     (if hr_method r = OPTIONS then None
      else (case find_route routes (hr_path r) of
          None \<Rightarrow> None
        | Some (hs, cs) \<Rightarrow> map_option (\<lambda>e. (e, cs)) (method_handler (hr_method r) hs)))"

lemma app_None: "endpoint_of r = None \<Longrightarrow> \<exists>k \<ge> 200. app W C A env r s = ((k, Framework), s)"
  by (auto simp: endpoint_of_def app_def split: if_splits option.splits)

lemma app_Some: "endpoint_of r = Some (e, cs) \<Longrightarrow> app W C A env r s = endpoint_run W C A env r cs e s"
  by (auto simp: endpoint_of_def app_def split: if_splits option.splits)

text \<open>A property of a refused body and of every run of the handler is one of the extractor.\<close>

lemma with_body_rule:
  assumes "P ((rejection W (hr_headers r) (hr_body r), Framework), s)" "\<And>x. P (h x s)"
  shows "P (with_body W r de h s)"
  using assms by (auto simp: with_body_def split: option.split)

lemma with_path_rule:
  assumes "P ((400, Framework), s)" "\<And>x. P (h x s)"
  shows "P (with_path W cs h s)"
  using assms by (auto simp: with_path_def split: option.split)

lemma snd_respond [simp]: "snd (respond err k js rs) = snd rs"
  by (simp add: respond_def)

lemma snd_case_pair [simp]:
  "snd (case p of (x, s') \<Rightarrow> (f x, s')) = snd p"
  "snd (case q of ((k, x), s') \<Rightarrow> (g k x, s')) = snd q"
  by (simp_all split: prod.split)

subsection \<open>One request, one step\<close>

lemmas step_rules = with_body_rule[where P = "\<lambda>rs. snd rs = s \<or> server_step C A s (snd rs)" for C A s]
  with_path_rule[where P = "\<lambda>rs. snd rs = s \<or> server_step C A s (snd rs)" for C A s]

lemma endpoint_step:
  assumes "env_ok env"
  shows "snd (endpoint_run W C A env r cs e s) = s \<or> server_step C A s (snd (endpoint_run W C A env r cs e s))"
proof -
  have o: "mset (he_order env (balances s)) = mset (balances s)" using assms by (simp add: env_ok_def)
  show ?thesis
    by (cases e; simp only: endpoint_run.simps)
      (((rule step_rules)?; simp; fail)
       | (rule step_rules, simp, simp only: snd_case_pair snd_respond, rule disjI2, rule server_step.intros, (rule o)?)
       | (simp only: snd_respond, rule disjI2, rule server_step.intros))+
qed

lemma app_step:
  assumes "env_ok env"
  shows "snd (app W C A env r s) = s \<or> server_step C A s (snd (app W C A env r s))"
proof (cases "endpoint_of r")
  case None
  then show ?thesis using app_None[of r W C A env s] by auto
next
  case (Some p)
  then show ?thesis using endpoint_step[OF assms] by (cases p) (simp add: app_Some)
qed

text \<open>
  A server behind its HTTP interface: booted on an empty database, then any requests, with restarts
  in between. The count bounds the requests and restarts so far.
\<close>

inductive http_reachable :: "web \<Rightarrow> crypto \<Rightarrow> argon \<Rightarrow> nat \<Rightarrow> app_state \<Rightarrow> bool" for W C A where
  http_boot: "fst (open_state C now env empty_conn) = Inr s \<Longrightarrow> http_reachable W C A 0 s"
| http_request: "http_reachable W C A n s \<Longrightarrow> env_ok env \<Longrightarrow>
    http_reachable W C A (Suc n) (snd (app W C A env r s))"
| http_restart: "http_reachable W C A n s \<Longrightarrow> db s = Some c \<Longrightarrow> fst (open_state C now env c) = Inr s' \<Longrightarrow>
    http_reachable W C A (Suc n) s'"

lemma http_is_reachable:
  assumes "http_reachable W C A n s" shows "\<exists>m \<le> n. reachable C A m s"
  using assms
proof (induction rule: http_reachable.induct)
  case (http_boot now env s)
  then show ?case using reachable.boot by blast
next
  case (http_request n s env r)
  then obtain m where m: "m \<le> n" "reachable C A m s" by blast
  from app_step[OF http_request.hyps(2), of W C A r s] show ?case
  proof
    assume "snd (app W C A env r s) = s"
    then show ?thesis using m by (metis le_SucI)
  next
    assume "server_step C A s (snd (app W C A env r s))"
    from reachable.run[OF m(2) this] m(1) show ?thesis by (meson Suc_le_mono)
  qed
next
  case (http_restart n s c now env s')
  then obtain m where m: "m \<le> n" "reachable C A m s" by blast
  from reachable.run[OF m(2) server_step.step_restart[OF http_restart.hyps(2,3)]] m(1) show ?case
    by (meson Suc_le_mono)
qed

subsection \<open>An error response changes nothing\<close>

definition same_memory :: "app_state \<Rightarrow> app_state \<Rightarrow> bool" where
  "same_memory s s' \<longleftrightarrow> (\<exists>c. s' = s\<lparr>db := c\<rparr>)"

lemma same_memory_self [simp]: "same_memory s s" "same_memory s (s\<lparr>db := c\<rparr>)"
  by (auto simp: same_memory_def intro: exI[of _ "db s"])


lemma admin_errors:
  "fst (admin_list_creatives hs s) = Inl e \<Longrightarrow> same_memory s (snd (admin_list_creatives hs s))"
  "fst (admin_create_creative C hs r1 r2 new now s) = Inl e' \<Longrightarrow>
     snd (admin_create_creative C hs r1 r2 new now s) = s"
  "fst (admin_delete_creative hs cid s) = Inl e \<Longrightarrow> same_memory s (snd (admin_delete_creative hs cid s))"
  "same_memory s (snd (admin_list_devices hs s))"
  by (auto simp: admin_list_creatives_def admin_create_creative_def admin_delete_creative_def
      admin_list_devices_def Let_def split: sum.splits option.splits prod.splits if_splits)

lemma auth_memory:
  "same_memory s (snd (signup A C r1 r2 r3 now auth s))" "same_memory s (snd (login A C r3 now auth s))"
  "same_memory s (snd (me hs s))" "same_memory s (snd (logout hs s))"
  by (auto simp: signup_def login_def me_def logout_def Let_def split: auth_splits)

definition harmless :: "app_state \<Rightarrow> response \<times> app_state \<Rightarrow> bool" where
  "harmless s rs \<longleftrightarrow> (400 \<le> fst (fst rs) \<longrightarrow> same_memory s (snd rs) \<and> untouched s (snd rs))"


lemma harmless_self [simp]: "harmless s (resp, s)"
  by (simp add: harmless_def)






subsection \<open>Which endpoint can change what\<close>

definition same_money :: "app_state \<Rightarrow> app_state \<Rightarrow> bool" where
  "same_money s s' \<longleftrightarrow> ledger s' = ledger s \<and> redemptions s' = redemptions s
     \<and> hm_get_or 0 (balances s') = hm_get_or 0 (balances s)
     \<and> hm_get_or 0 (impressions s') = hm_get_or 0 (impressions s) \<and> seen_event_ids s' = seen_event_ids s"

lemma same_memory_money: "same_memory s s' \<Longrightarrow> same_money s s'"
  by (auto simp: same_memory_def same_money_def)

lemma same_memory_pool: "same_memory s s' \<Longrightarrow> creatives s' = creatives s \<and> devices s' = devices s"
  by (auto simp: same_memory_def)

lemma register_money: "same_money s (snd (register C peer hs req now s))"
  by (auto simp: register_def same_money_def with_db_def maps Let_def split: option.split)

lemma click_money: "same_money s (snd (click code s))"
  by (auto simp: click_def same_money_def with_db_def Let_def split: option.split)

lemma create_money: "same_money s (snd (admin_create_creative C hs r1 r2 new now s))"
  by (auto simp: admin_create_creative_def same_money_def with_db_def Let_def split: option.split sum.split)

lemma delete_money: "same_money s (snd (admin_delete_creative hs cid s))"
  by (auto simp: admin_delete_creative_def same_money_def split: option.split sum.split prod.split)

lemma list_creatives_memory: "same_memory s (snd (admin_list_creatives hs s))"
  by (auto simp: admin_list_creatives_def split: option.split sum.split prod.split)

lemmas quiet_memory = auth_memory admin_errors(4) list_creatives_memory

lemma snd_same [simp]: "same_money s s"
  by (simp add: same_money_def)

lemmas money_rules = with_body_rule[where P = "\<lambda>rs. same_money s (snd rs)" for s]
  with_path_rule[where P = "\<lambda>rs. same_money s (snd rs)" for s]

lemma endpoint_money:
  assumes "e \<noteq> Ingest" "e \<noteq> Redeem" shows "same_money s (snd (endpoint_run W C A env r cs e s))"
  by (insert assms, cases e; simp only: endpoint_run.simps; (rule money_rules, simp)?)
    (simp_all add: register_money click_money create_money delete_money quiet_memory[THEN same_memory_money])

text \<open>The pool changes behind the admin token only, devices at registration and ingest only.\<close>

lemma refused_admin:
  assumes "check_admin s hs = Inl e"
  shows "snd (admin_create_creative C hs r1 r2 new now s) = s" "snd (admin_delete_creative hs cid s) = s"
  using assms by (simp_all add: admin_create_creative_def admin_delete_creative_def)

text \<open>The fields of the campaign the dashboard and the fallback redirect use.\<close>

definition campaign :: "app_state \<Rightarrow> string list" where
  "campaign s = [creative_id s, creative_text s, creative_url s, short_code s, campaign_name s, advertiser s]"

definition same_show :: "app_state \<Rightarrow> app_state \<Rightarrow> bool" where
  "same_show s s' \<longleftrightarrow> campaign s' = campaign s \<and> creatives s' = creatives s"

lemma same_show_simps [simp]:
  "same_show s s" "same_show s (s'\<lparr>db := c\<rparr>) = same_show s s'" "same_show s (with_db f s') = same_show s s'"
  "same_show s (s'\<lparr>accepted := x\<rparr>) = same_show s s'" "same_show s (s'\<lparr>rejected := x\<rparr>) = same_show s s'"
  by (simp_all add: same_show_def campaign_def with_db_def split: option.split)

lemma same_memory_show: "same_memory s s' \<Longrightarrow> same_show s s' \<and> devices s' = devices s"
  by (auto simp: same_memory_def)

lemma accrue_show: "accrue acct e s = (l, x, s') \<Longrightarrow> same_show s s'"
  by (auto simp: accrue_def Let_def same_show_def campaign_def split: if_splits)

lemma same_show_advance [simp]: "same_show (s\<lparr>devices := ds, seen_event_ids := ids\<rparr>) s' = same_show s s'"
  by (simp add: same_show_def campaign_def)

lemma accept_show: "same_show s (snd (accept_event C device se s))"
  by (auto simp: accept_event_def Let_def dest!: accrue_show split: option.split if_split prod.split)

lemma ingest_show: "same_show s (snd (ingest C device ses s))"
proof -
  have one: "same_show s (snd (ingest_one C device se (r, s')))" if "same_show s s'" for se r s'
    using that accept_show[of s' C device se]
    by (auto simp: ingest_one_def Let_def same_show_def split: prod.split sum.split)
      (simp_all add: campaign_def with_db_def split: option.split)
  have "same_show s (snd rs) \<Longrightarrow> same_show s (snd (fold (ingest_one C device) ses rs))" for rs
  proof (induction ses arbitrary: rs)
    case (Cons se ses)
    then show ?case using one[of "snd rs" se "fst rs"] by simp
  qed simp
  then show ?thesis by (simp add: ingest_def)
qed

lemma register_show: "same_show s (snd (register C peer hs req now s))"
  by (auto simp: register_def Let_def same_show_def campaign_def with_db_def split: option.split)

lemma redeem_show: "same_show s (snd (redeem order rail amount s))"
  by (auto simp: redeem_def Let_def same_show_def campaign_def with_db_def split: option.split prod.split)

lemma click_show: "same_show s (snd (click code s))"
  by (auto simp: click_def Let_def same_show_def campaign_def with_db_def split: option.split)

lemma admin_campaign:
  "campaign (snd (admin_create_creative C hs r1 r2 new now s)) = campaign s"
  "campaign (snd (admin_delete_creative hs cid s)) = campaign s"
  by (auto simp: admin_create_creative_def admin_delete_creative_def campaign_def with_db_def Let_def
      split: option.split sum.split prod.split)

lemmas show_facts = ingest_show register_show redeem_show click_show
  quiet_memory[THEN same_memory_show, THEN conjunct1]

lemmas show_rules = with_body_rule[where P = "\<lambda>rs. same_show s (snd rs)" for s]
  with_path_rule[where P = "\<lambda>rs. same_show s (snd rs)" for s]

lemma endpoint_show:
  assumes "e \<noteq> CreateCreative" "e \<noteq> DeleteCreative"
  shows "same_show s (snd (endpoint_run W C A env r cs e s))"
  by (insert assms, cases e; simp only: endpoint_run.simps; (rule show_rules, simp)?)
    (simp_all add: show_facts)

lemma redeem_devices: "devices (snd (redeem order rail amount s)) = devices s"
  by (auto simp: redeem_def Let_def with_db_def split: option.split prod.split)

lemma click_devices: "devices (snd (click code s)) = devices s"
  by (auto simp: click_def Let_def with_db_def split: option.split)

lemma admin_devices:
  "devices (snd (admin_create_creative C hs r1 r2 new now s)) = devices s"
  "devices (snd (admin_delete_creative hs cid s)) = devices s"
  by (auto simp: admin_create_creative_def admin_delete_creative_def with_db_def Let_def
      split: option.split sum.split prod.split)

lemmas devices_rules = with_body_rule[where P = "\<lambda>rs. devices (snd rs) = devices s" for s]
  with_path_rule[where P = "\<lambda>rs. devices (snd rs) = devices s" for s]

lemma endpoint_devices:
  assumes "e \<noteq> Register" "e \<noteq> Ingest"
  shows "devices (snd (endpoint_run W C A env r cs e s)) = devices s"
  by (insert assms, cases e; simp only: endpoint_run.simps; (rule devices_rules, simp)?)
    (simp_all add: redeem_devices click_devices admin_devices
      quiet_memory[THEN same_memory_show, THEN conjunct2])

lemmas campaign_rules = with_body_rule[where P = "\<lambda>rs. campaign (snd rs) = campaign s" for s]
  with_path_rule[where P = "\<lambda>rs. campaign (snd rs) = campaign s" for s]

lemma endpoint_campaign: "campaign (snd (endpoint_run W C A env r cs e s)) = campaign s"
proof (cases "e = CreateCreative \<or> e = DeleteCreative")
  case True
  show ?thesis
    by (insert True, elim disjE; simp only: endpoint_run.simps; (rule campaign_rules, simp)?) (simp_all add: admin_campaign)
next
  case False
  then show ?thesis using endpoint_show[of e s W C A env r cs] by (simp add: same_show_def)
qed

lemmas pool_rules = with_body_rule[where P = "\<lambda>rs. creatives (snd rs) = creatives s" for s]
  with_path_rule[where P = "\<lambda>rs. creatives (snd rs) = creatives s" for s]

lemma endpoint_pool_refused:
  assumes "check_admin s (hr_headers r) = Inl x"
  shows "creatives (snd (endpoint_run W C A env r cs e s)) = creatives s"
proof (cases "e = CreateCreative \<or> e = DeleteCreative")
  case True
  show ?thesis
    by (insert True, elim disjE; simp only: endpoint_run.simps; (rule pool_rules, simp)?)
      (simp_all add: refused_admin[OF assms])
next
  case False
  then show ?thesis using endpoint_show[of e s W C A env r cs] by (simp add: same_show_def)
qed

subsection \<open>Properties\<close>

lemma open_campaign: "fst (open_state C now env c) = Inr s \<Longrightarrow> campaign s = campaign seeded"
  by (auto simp: open_state_def bind_r_def Let_def restored_def campaign_def split: prod.splits sum.splits if_splits)

lemma http_campaign: "http_reachable W C A n s \<Longrightarrow> campaign s = campaign seeded"
proof (induction rule: http_reachable.induct)
  case (http_request n s env r)
  then show ?case
  proof (cases "endpoint_of r")
    case None
    then show ?thesis using app_None[of r W C A env s] http_request by auto
  next
    case (Some p)
    then show ?thesis using endpoint_campaign http_request by (cases p) (simp add: app_Some)
  qed
qed (auto intro: open_campaign)

text \<open>
  C8: the HTTP interface adds no behaviour: after any requests, with any headers, bodies and paths,
  and any restarts, the server is in a state its handlers reach in as many steps at most, so every
  invariant of those states holds behind HTTP. In particular each balance is 5000 micros for each
  impression less what was paid out, no event has earned twice, and the dashboard and the redirect of
  an unknown code name the house campaign whatever was posted.
\<close>

theorem http_adds_nothing:
  assumes "hex_ok C" "http_reachable W C A n s" "n \<le> 2 ^ 63"
  shows "(\<exists>m \<le> n. reachable C A m s)
    \<and> (\<forall>a. hm_get_or 0 (balances s) a
            = 5000 * hm_get_or 0 (impressions s) a - paid_out (ledger s) a)
    \<and> distinct (imp_refs (ledger s))
    \<and> campaign s = campaign seeded"
proof -
  obtain m where m: "m \<le> n" "reachable C A m s" using http_is_reachable[OF assms(2)] by blast
  with assms(3) have "run_inv C m s" by (intro reachable_inv[OF assms(1) m(2)]) simp
  with m http_campaign[OF assms(2)] show ?thesis by (auto simp: run_inv_def books_defs)
qed

text \<open>
  C19: each part of the state is behind its own endpoint. Only \<^verbatim>\<open>/v1/ingest\<close> and \<^verbatim>\<open>/v1/redeem\<close> change
  money (ledger, balances, impressions, redemptions, seen ids); only registration and ingest change
  devices; the serving pool changes only by POST and DELETE under \<^verbatim>\<open>/admin/creatives\<close> and only with the
  configured admin token.
\<close>

theorem http_confinement:
  assumes "s' = snd (app W C A env r s)"
  shows "(\<not> same_money s s' \<longrightarrow> (\<exists>cs. endpoint_of r = Some (Ingest, cs) \<or> endpoint_of r = Some (Redeem, cs)))
    \<and> (devices s' \<noteq> devices s \<longrightarrow> (\<exists>cs. endpoint_of r = Some (Register, cs) \<or> endpoint_of r = Some (Ingest, cs)))
    \<and> (creatives s' \<noteq> creatives s \<longrightarrow> check_admin s (hr_headers r) = Inr ()
        \<and> (\<exists>cs. endpoint_of r = Some (CreateCreative, cs) \<or> endpoint_of r = Some (DeleteCreative, cs)))"
proof (cases "endpoint_of r")
  case None
  then show ?thesis using app_None[of r W C A env s] assms by auto
next
  case (Some p)
  obtain e cs where p: "p = (e, cs)" by force
  have s': "s' = snd (endpoint_run W C A env r cs e s)" using Some p assms by (simp add: app_Some)
  have pool: "e \<noteq> CreateCreative \<Longrightarrow> e \<noteq> DeleteCreative \<Longrightarrow> creatives s' = creatives s"
    unfolding s' using endpoint_show by (simp add: same_show_def)
  have tok: "check_admin s (hr_headers r) = Inr ()" if "creatives s' \<noteq> creatives s"
    using that endpoint_pool_refused[of s r] unfolding s' by (cases "check_admin s (hr_headers r)") auto
  show ?thesis
    using pool tok endpoint_money[of e s W C A env r cs] endpoint_devices[of e W C A env r cs s]
    by (auto simp: Some p s'[symmetric])
qed

subsection \<open>Witnesses\<close>

text \<open>A web server and the requests of a small run.\<close>

definition demo_web :: "json \<Rightarrow> web" where
  "demo_web body = \<lparr>percent_decode = Some, json_content = (\<lambda>_. True), body_json = (\<lambda>_. Some body),
     rejection = (\<lambda>_ _. 415)\<rparr>"

definition demo_env :: http_env where
  "demo_env = \<lparr>he_now = 7, he_peer = ''10.0.0.1'', he_rnd1 = [], he_rnd2 = [], he_rnd3 = [], he_order = rev\<rparr>"

definition http_req :: "http_method \<Rightarrow> string \<Rightarrow> http_request" where
  "http_req m path = \<lparr>hr_method = m, hr_path = path, hr_headers = [], hr_body = []\<rparr>"

lemma demo_env_ok: "env_ok demo_env"
  by (simp add: env_ok_def demo_env_def)

lemma routes_demo:
  "endpoint_of (http_req HEAD ''/c/AbC9'') = Some (Click, [''AbC9''])"
  "endpoint_of (http_req GET ''/c/'') = None"
  "endpoint_of (http_req POST ''/v1/redeem'') = Some (Redeem, [])"
  "endpoint_of (http_req GET ''/v1/redeem'') = None"
  "endpoint_of (http_req DELETE ''/admin/creatives/cr_1'') = Some (DeleteCreative, [''cr_1''])"
  by code_simp+


lemma http_adds_nothing_witness:
  "\<exists>s. http_reachable (demo_web JNull) demo_crypto demo_argon 1 s
     \<and> distinct (imp_refs (ledger s)) \<and> campaign s = campaign seeded"
proof -
  obtain s where "fst (open_state demo_crypto 7 None empty_conn) = Inr s" using boots[OF empty_healthy] by blast
  from http_request[OF http_boot[OF this] demo_env_ok]
  have r: "http_reachable (demo_web JNull) demo_crypto demo_argon (Suc 0)
    (snd (app (demo_web JNull) demo_crypto demo_argon demo_env (http_req HEAD ''/c/AbC9'') s))" .
  from http_adds_nothing[OF demo_crypto_ok(2) r] r show ?thesis by auto
qed

text \<open>A payout of a balance of 700 micros, and the creative an operator without the token cannot add.\<close>

lemma http_confinement_witness:
  "let s = seeded\<lparr>balances := [(''acct:d1'', 700)]\<rparr>;
       s' = snd (app (demo_web (JObject [(''rail'', JString ''usdc'')])) demo_crypto demo_argon demo_env
              (http_req POST ''/v1/redeem'') s)
   in \<not> same_money s s' \<and> devices s' = devices s \<and> creatives s' = creatives s"
proof -
  let ?W = "demo_web (JObject [(''rail'', JString ''usdc'')])"
  let ?r = "http_req POST ''/v1/redeem''"
  let ?s = "seeded\<lparr>balances := [(''acct:d1'', 700)]\<rparr>"
  let ?s' = "snd (app ?W demo_crypto demo_argon demo_env ?r ?s)"
  have e: "endpoint_of ?r = Some (Redeem, [])" by code_simp
  have "length (ledger ?s') = 1"
    unfolding app_Some[OF e] by (simp add: with_body_def request_reads_def BODY_LIMIT_def demo_web_def http_req_def de_redeem_req_def required_def
        defaulted_def field_def demo_env_def redeem_def seeded_def Let_def with_db_def)
  then have "ledger ?s' \<noteq> ledger ?s" by (auto simp: seeded_def)
  then have "\<not> same_money ?s ?s'" by (simp add: same_money_def)
  with http_confinement[where W = ?W and C = demo_crypto and A = demo_argon and env = demo_env and r = ?r and s = ?s, OF refl] show ?thesis
    by (auto simp: e Let_def)
qed

end
