(* ===== verification/Http_Wire.thy ===== *)
theory Http_Wire
  imports Json_Read_Demo Http_Laws End_To_End
begin

section \<open>From the daemon's bytes to the balance\<close>

text \<open>
  The texts \<^verbatim>\<open>spnrd\<close> posts, read by the server behind its HTTP interface: the registration and every
  batch of envelopes arrive as the request they stand for, so the honest daemon of the protocol is
  paid also when what travels is bytes over HTTP.
\<close>

definition post_request :: "string \<Rightarrow> bytes \<Rightarrow> http_request" where
  "post_request path body = \<lparr>hr_method = POST, hr_path = path,
     hr_headers = [(''content-type'', ''application/json'')], hr_body = body\<rparr>"

text \<open>Requests one after the other: their responses and the state.\<close>

fun http_all :: "web \<Rightarrow> crypto \<Rightarrow> argon \<Rightarrow> http_env \<Rightarrow> http_request list \<Rightarrow> app_state \<Rightarrow> response list \<times> app_state" where
  "http_all W C A env [] s = ([], s)"
| "http_all W C A env (r # rs) s =
     (case app W C A env r s of (resp, s1) \<Rightarrow>
        (case http_all W C A env rs s1 of (resps, s2) \<Rightarrow> (resp # resps, s2)))"

text \<open>A parser that reads JSON texts, and a server that takes the daemon's content type.\<close>

definition web_ok :: "web \<Rightarrow> bool" where
  "web_ok W \<longleftrightarrow> json_reader_ok (body_json W) \<and> json_content W [(''content-type'', ''application/json'')]"

lemma de_envelope:
  "mset m = mset (members (event_json e)) \<Longrightarrow> de_signed_event (envelope_value C k e m) = Some (signed_by C k e)"
  by (simp add: de_signed_event_def envelope_value_def required_def field_def de_event_order signed_by_def)

lemma de_envelopes:
  assumes "\<And>e. e \<in> set es \<Longrightarrow> mset (M e) = mset (members (event_json e))"
  shows "de_all de_signed_event (map (\<lambda>e. envelope_value C k e (M e)) es) = Some (map (signed_by C k) es)"
  using assms by (induction es) (simp_all add: de_envelope)

lemma de_batch:
  assumes "de_all de_signed_event vs = Some ses"
  shows "de_ingest_req (batch_value device vs) = Some \<lparr>iq_device_id = device, iq_events = ses\<rparr>"
  using assms by (simp add: de_ingest_req_def batch_value_def required_def field_def)

text \<open>
  What the daemon posts is what the server reads: the body of a batch, built from the envelopes
  by formatting strings around the canonical bytes, decodes to exactly the device and the signed
  events of that batch.
\<close>

lemma batch_read:
  assumes "json_reader_ok P" "jcs_text_ok C" "alphabets_ok C" "list_all event_safe es"
  shows "Option.bind (P (post_ingest (device_id C k) (map (envelope C k) es))) de_ingest_req
    = Some \<lparr>iq_device_id = device_id C k, iq_events = map (signed_by C k) es\<rparr>"
proof -
  obtain M where M: "\<And>e. event_safe e \<Longrightarrow> mset (M e) = mset (members (event_json e))
      \<and> canonical_bytes C e = json_text (\<lambda>_. []) (JObject (M e))"
    using canonical_text[OF assms(2)] by metis
  have s: "\<And>e. e \<in> set es \<Longrightarrow> event_safe e" using assms(4) by (simp add: list_all_iff)
  define vs where "vs = map (\<lambda>e. envelope_value C k e (M e)) es"
  have "map (envelope C k) es = map (json_text (\<lambda>_. [])) vs"
    unfolding vs_def using M s envelope_text[OF assms(3)] by (simp add: comp_def)
  then have "post_ingest (device_id C k) (map (envelope C k) es)
      = json_text (\<lambda>_. []) (batch_value (device_id C k) vs)"
    using post_text[OF device_id_alnum[OF assms(3)]] by simp
  moreover have "plain_json (batch_value (device_id C k) vs)"
    unfolding vs_def
    using M s by (intro batch_plain[OF assms(3) alnum_utf8[OF device_id_alnum[OF assms(3)]] assms(4)]) blast
  ultimately have "P (post_ingest (device_id C k) (map (envelope C k) es)) = Some (batch_value (device_id C k) vs)"
    using assms(1) by (simp add: json_reader_ok_def)
  moreover have "de_all de_signed_event vs = Some (map (signed_by C k) es)"
    unfolding vs_def using M s by (intro de_envelopes) blast
  ultimately show ?thesis by (simp add: de_batch)
qed

subsection \<open>The registration\<close>

definition registration :: "string \<Rightarrow> string \<Rightarrow> string \<Rightarrow> string option \<Rightarrow> string option \<Rightarrow> string option \<Rightarrow>
    string \<Rightarrow> string \<Rightarrow> register_req" where
  "registration os arch version host_env etc email device pubkey_hex =
     \<lparr>rq_device_id = device, rq_pubkey = pubkey_hex, rq_os = Some os, rq_arch = Some arch,
      rq_hostname = Some (hostname_of host_env etc), rq_version = Some version,
      rq_email = (case email of Some e \<Rightarrow> if e \<noteq> [] then Some e else None | None \<Rightarrow> None)\<rparr>"

lemma registration_read:
  "de_register_req (register_body os arch version host_env etc email device pubkey_hex)
     = Some (registration os arch version host_env etc email device pubkey_hex)"
  by (simp add: de_register_req_def register_body_def register_fields_def required_def defaulted_def
      field_def registration_def split: option.split)

lemma registration_plain:
  assumes "list_all utf8_ok [os, arch, version, hostname_of host_env etc, device, pubkey_hex]"
    and "\<And>e. email = Some e \<Longrightarrow> utf8_ok e"
  shows "plain_json (register_body os arch version host_env etc email device pubkey_hex)"
  using assms
  by (simp add: plain_json_def register_body_def hm_wf_def utf8_literal split: option.split)

subsection \<open>The requests of a daemon\<close>

lemma post_endpoints:
  "endpoint_of (post_request ''/v1/register'' body) = Some (Register, [])"
  "endpoint_of (post_request ''/v1/ingest'' body) = Some (Ingest, [])"
proof -
  have "find_route routes ''/v1/register'' = Some ([(POST, Register)], [])"
    "find_route routes ''/v1/ingest'' = Some ([(POST, Ingest)], [])" by code_simp+
  then show "endpoint_of (post_request ''/v1/register'' body) = Some (Register, [])"
    "endpoint_of (post_request ''/v1/ingest'' body) = Some (Ingest, [])"
    by (simp_all add: endpoint_of_def post_request_def method_handler_def)
qed

lemma app_ingest:
  assumes "web_ok W" "length body \<le> BODY_LIMIT" "Option.bind (body_json W body) de_ingest_req = Some q"
  shows "app W C A env (post_request ''/v1/ingest'' body) s =
    (case ingest C (iq_device_id q) (iq_events q) s of (resp, s') \<Rightarrow> ((200, Json (ingest_resp_json resp)), s'))"
  unfolding app_Some[OF post_endpoints(2)] using assms
  by (simp add: with_body_def request_reads_def post_request_def web_ok_def)

lemma app_register:
  assumes "web_ok W" "length body \<le> BODY_LIMIT" "Option.bind (body_json W body) de_register_req = Some q"
  shows "app W C A env (post_request ''/v1/register'' body) s =
    (case register C (he_peer env) [(''content-type'', ''application/json'')] q (he_now env) s of
       ((status, resp), s') \<Rightarrow> ((status, Json (register_resp_json resp)), s'))"
  unfolding app_Some[OF post_endpoints(1)] using assms
  by (simp add: with_body_def request_reads_def post_request_def web_ok_def)

definition ingest_post :: "string \<Rightarrow> string list \<Rightarrow> http_request" where
  "ingest_post device batch = post_request ''/v1/ingest'' (post_ingest device batch)"

text \<open>A batch beyond the limit is refused as a whole: none of its events reach the handler.\<close>

lemma oversized_batch_lost:
  assumes "BODY_LIMIT < length (post_ingest device batch)"
  shows "snd (app W C A env (ingest_post device batch) s) = s"
  using assms unfolding ingest_post_def app_Some[OF post_endpoints(2)]
  by (simp add: with_body_def request_reads_def post_request_def)

lemma http_posts:
  assumes "web_ok W" "jcs_text_ok C" "alphabets_ok C" "list_all (list_all event_safe) bs"
    and "list_all (\<lambda>r. length (hr_body r) \<le> BODY_LIMIT) (map (ingest_post (device_id C k) \<circ> map (envelope C k)) bs)"
  shows "http_all W C A env (map (ingest_post (device_id C k) \<circ> map (envelope C k)) bs) s
    = (case post_all C (device_id C k) (map (map (signed_by C k)) bs) s of
         (rs, s') \<Rightarrow> (map (\<lambda>r. (200, Json (ingest_resp_json r))) rs, s'))"
  using assms(4,5)
proof (induction bs arbitrary: s)
  case (Cons b bs)
  have r: "json_reader_ok (body_json W)" using assms(1) by (simp add: web_ok_def)
  have "app W C A env (ingest_post (device_id C k) (map (envelope C k) b)) s =
    (case ingest C (device_id C k) (map (signed_by C k) b) s of
       (resp, s') \<Rightarrow> ((200, Json (ingest_resp_json resp)), s'))"
    unfolding ingest_post_def using app_ingest[OF assms(1) _ batch_read[OF r assms(2,3), of b k]] Cons.prems
    by (simp add: ingest_post_def post_request_def)
  with Cons show ?case by (simp split: prod.split)
qed simp

text \<open>The batches of the flush loop split the history as they split its envelopes.\<close>

lemma split_batches:
  "concat bs = map f es \<Longrightarrow> \<exists>cs. bs = map (map f) cs \<and> concat cs = es"
proof (induction bs arbitrary: es)
  case (Cons b bs)
  then obtain es1 es2 where "es = es1 @ es2" "b = map f es1" "concat bs = map f es2"
    by (auto simp: append_eq_map_conv)
  moreover from Cons.IH[OF this(3)] obtain cs where "bs = map (map f) cs" "concat cs = es2" by blast
  ultimately show ?case by (intro exI[of _ "es1 # cs"]) simp
qed simp

text \<open>
  C4: a daemon is paid for every event it emits, byte by byte over HTTP. The registration it prints
  and the batches its flush loop posts, in whatever way the messages fall into batches of at most
  2 MB (the limit axum sets for a body; the loop itself has none), are all answered with 200, nothing in them is rejected, and the account of the device gains exactly the
  impressions the daemon itself has counted, at 5000 micros each.
\<close>

theorem honest_daemon_is_paid:
  assumes "hex_ok C" "ed25519_ok C" "jcs_text_ok C" "alphabets_ok C" "web_ok W"
    and "d = daemon_run C (booted C r server pool) xs"
    and "es = sent_events C (booted C r server pool) xs" "list_all event_safe es"
    and "distinct (map ev_id es)" "set (map ev_id es) \<inter> seen_event_ids s0 = {}"
    and "reg = register_body os arch version host_env etc email (device_id C (key_generate r))
           (hex_encode C (verifying_key C (key_generate r)))" "plain_json reg"
    and "d_tx d = Some sent"
    and "requests = post_request ''/v1/register'' (json_text ft reg)
           # map (ingest_post (device_id C (key_generate r))) (flush_loop ks sent)"
    and "list_all (\<lambda>r. length (hr_body r) \<le> BODY_LIMIT) requests"
    and "http_all W C A env requests s0 = (responses, s')"
  shows "list_all (\<lambda>resp. fst resp = 200) responses
    \<and> (\<exists>rs. tl responses = map (\<lambda>r. (200, Json (ingest_resp_json r))) rs
         \<and> list_all (\<lambda>r. ir_rejected r = 0 \<and> ir_reasons r = []) rs)
    \<and> br_impressions (balance (device_id C (key_generate r)) s')
        = br_impressions (balance (device_id C (key_generate r)) s0) + d_impressions_total d
    \<and> br_balance_usd_micros (balance (device_id C (key_generate r)) s')
        = br_balance_usd_micros (balance (device_id C (key_generate r)) s0) + 5000 * d_impressions_total d"
proof -
  let ?k = "key_generate r"
  let ?dev = "device_id C ?k"
  define q where "q = registration os arch version host_env etc email ?dev (hex_encode C (verifying_key C ?k))"
  have qf: "rq_device_id q = ?dev" "rq_pubkey q = hex_encode C (verifying_key C ?k)"
    by (simp_all add: q_def registration_def)
  have "Option.bind (body_json W (json_text ft reg)) de_register_req = Some q"
    using assms(5,12) registration_read by (simp add: web_ok_def json_reader_ok_def assms(11) q_def)
  note reg_app = app_register[OF assms(5) _ this, of C A env s0]
  have short: "length (json_text ft reg) \<le> BODY_LIMIT"
    "list_all (\<lambda>r. length (hr_body r) \<le> BODY_LIMIT) (map (ingest_post ?dev) (flush_loop ks sent))"
    using assms(15) by (simp_all add: assms(14) post_request_def)
  define s where "s = snd (register C (he_peer env) [(''content-type'', ''application/json'')] q (he_now env) s0)"
  note exp = register_expects[OF assms(1,2) qf(2) s_def, unfolded qf(1)]
  have "decode_pubkey C (rq_pubkey q) = Some (verifying_key C ?k)"
    using assms(1,2) by (simp add: qf verifying_key_decodes)
  then have ok: "fst (fst (register C (he_peer env) [(''content-type'', ''application/json'')] q (he_now env) s0)) = 200"
    by (simp add: register_def Let_def)
  have "sent = map (envelope C ?k) es"
    using sent_channel[of C "booted C r server pool" xs] assms(13)
    by (simp add: assms(6,7) booted_def daemon_fields)
  then have "concat (flush_loop ks sent) = map (envelope C ?k) es" by (simp add: flush_loop_concat)
  from split_batches[OF this] obtain bs where
    bs: "flush_loop ks sent = map (map (envelope C ?k)) bs" "concat bs = es" by blast
  have safe: "list_all (list_all event_safe) bs" using assms(8) by (auto simp: bs(2)[symmetric] list_all_iff)
  obtain rs s2 where p: "post_all C ?dev (map (map (signed_by C ?k)) bs) s = (rs, s2)" by force
  obtain st resp where r0: "register C (he_peer env) [(''content-type'', ''application/json'')] q (he_now env) s0
      = ((st, resp), s)" using s_def by (metis prod.collapse)
  have out: "responses = (200, Json (register_resp_json resp)) # map (\<lambda>r. (200, Json (ingest_resp_json r))) rs"
    "s' = s2"
    using assms(16) http_posts[OF assms(5,3,4) safe, of ?k A env s] short(2) ok
    by (simp_all add: assms(14) reg_app[OF short(1)] r0 bs(1) p comp_def)
  show ?thesis
    using honest_history_is_paid[OF assms(1,2,6,7) qf s_def assms(9,10) bs(2)] p
    by (auto simp: out qf(1) list_all_iff)
qed

subsection \<open>A run over bytes\<close>

text \<open>The crypto of the witnesses with the texts of its events as their canonical bytes.\<close>

definition text_crypto :: crypto where
  "text_crypto = demo_crypto\<lparr>jcs := (\<lambda>j. Some (json_text (\<lambda>_. []) j)), base32 := demo_hex\<rparr>"

lemma demo_hex_alnum: "list_all is_alnum (demo_hex b)"
proof -
  have d: "list_all is_alnum ''0123456789abcdef''" by code_simp
  have "is_alnum (''0123456789abcdef'' ! n)" if "n < 16" for n
    using d that by (simp only: list_all_length) simp
  moreover have "byte_val a div 16 < 16" for a using byte_val_less[of a] by (simp only: less_mult_imp_div_less)
  ultimately show ?thesis by (induction b) (simp_all del: nth_Cons_numeral)
qed

lemma text_crypto_ok: "hex_ok text_crypto" "ed25519_ok text_crypto" "jcs_text_ok text_crypto" "alphabets_ok text_crypto"
proof -
  show "hex_ok text_crypto" "ed25519_ok text_crypto"
    using demo_crypto_ok(1,2) by (simp_all add: hex_ok_def ed25519_ok_def text_crypto_def)
  show "jcs_text_ok text_crypto"
    unfolding jcs_text_ok_def
  proof (intro allI impI)
    fix e
    show "\<exists>m ft. jcs text_crypto (event_json e) = Some (json_text ft (JObject m)) \<and> mset m = mset (members (event_json e))"
      by (intro exI[of _ "members (event_json e)"] exI[of _ "\<lambda>_. []"])
        (simp add: text_crypto_def event_members(1)[symmetric])
  qed
  show "alphabets_ok text_crypto"
    by (simp add: alphabets_ok_def text_crypto_def demo_crypto_def demo_hex_alnum)
qed

definition text_web :: web where
  "text_web = demo_web JNull\<lparr>body_json := read_json\<rparr>"

lemma text_web_ok: "web_ok text_web"
  by (simp add: web_ok_def text_web_def demo_web_def read_json_ok)

lemma turn_event_safe: "event_safe (turn_event text_crypto)"
proof -
  obtain b where s: "ev_session (turn_event text_crypto) = ''s:'' @ take 12 (hex_encode text_crypto b)"
    using turn_event_fields(9) by blast
  have "list_all is_alnum (take 12 (hex_encode text_crypto b))"
    using hex_alnum[OF text_crypto_ok(4)] by (metis append_take_drop_id list_all_append)
  then show ?thesis
    by (simp add: event_safe_def turn_event_fields(1-8) s utf8_append alnum_utf8 utf8_literal GENESIS_PREV_def)
qed

text \<open>The bodies of one turn are short.\<close>

lemma length_string_text: "length (string_text s) \<le> 6 * length s + 2"
proof -
  have "length (escape_char c) \<le> 6" for c by (simp add: escape_char_def Let_def)
  then have "length (concat (map escape_char s)) \<le> 6 * length s"
    by (induction s) (simp_all add: add_mono)
  then show ?thesis by (simp add: string_text_def)
qed

lemma length_demo_id [simp]:
  "length (device_id text_crypto k) \<le> 20"
  "length (hex_encode text_crypto (verifying_key text_crypto k)) = 64"
  "length (hex_encode text_crypto (key_sign text_crypto k e)) = 128"
  by (simp_all add: device_id_def text_crypto_def demo_crypto_def verifying_key_def key_sign_def)

lemma turn_canonical_length: "length (canonical_bytes text_crypto (turn_event text_crypto)) \<le> 900"
proof -
  obtain b where s: "ev_session (turn_event text_crypto) = ''s:'' @ take 12 (hex_encode text_crypto b)"
    using turn_event_fields(9) by blast
  have "length (string_text (ev_session (turn_event text_crypto))) \<le> 86"
    using length_string_text[of "ev_session (turn_event text_crypto)"] by (simp add: s)
  moreover have "length (show_nat 0) = 1" "length (show_nat (Suc 0)) = 1" "length (show_nat 6) = 1"
    by (subst show_nat.simps; simp)+
  moreover have "length (string_text GENESIS_PREV) \<le> 404"
    using length_string_text[of GENESIS_PREV] by (simp add: GENESIS_PREV_def)
  moreover have "length (string_text ''01'') = 4" "length (string_text ''imp'') = 5" by code_simp+
  moreover have "length (string_text ''v'') = 3" "length (string_text ''id'') = 4" "length (string_text ''ctr'') = 5" "length (string_text ''prev'') = 6"
    "length (string_text ''t'') = 3" "length (string_text ''type'') = 6" "length (string_text ''session'') = 9"
    "length (string_text ''n'') = 3" by code_simp+
  ultimately show ?thesis
    by (simp add: canonical_bytes_def text_crypto_def event_json_def json_i64_def turn_event_fields(1-8))
qed

lemma turn_bodies_short:
  "length (json_text (\<lambda>_. []) (register_body ''linux'' ''x86_64'' ''0.1.0'' None None None
     (device_id text_crypto k) (hex_encode text_crypto (verifying_key text_crypto k)))) \<le> BODY_LIMIT"
  "length (post_ingest (device_id text_crypto k) [envelope text_crypto k (turn_event text_crypto)]) \<le> BODY_LIMIT"
proof -
  let ?d = "device_id text_crypto k" and ?v = "hex_encode text_crypto (verifying_key text_crypto k)"
  let ?h = "hostname_of None None"
  have "length (string_text ?d) \<le> 122"
    using length_string_text[of ?d] length_demo_id(1)[of k] by linarith
  moreover have "length (string_text ?v) \<le> 386"
    using length_string_text[of ?v] by simp
  moreover have "length (string_text ?h) \<le> 1000"
    using length_string_text[of ?h] by (simp add: hostname_of_def)
  moreover have "length (string_text ''linux'') = 7" "length (string_text ''x86_64'') = 8" "length (string_text ''0.1.0'') = 7"
    "length (string_text ''device_id'') = 11" "length (string_text ''pubkey'') = 8" "length (string_text ''os'') = 4"
    "length (string_text ''arch'') = 6" "length (string_text ''version'') = 9" "length (string_text ''hostname'') = 10"
    by code_simp+
  ultimately show "length (json_text (\<lambda>_. []) (register_body ''linux'' ''x86_64'' ''0.1.0'' None None None ?d ?v)) \<le> BODY_LIMIT"
    by (simp add: register_body_def BODY_LIMIT_def)
  have "length (envelope text_crypto k (turn_event text_crypto)) \<le> 3000"
    using length_envelope[of text_crypto k "turn_event text_crypto"] turn_canonical_length by simp
  then show "length (post_ingest ?d [envelope text_crypto k (turn_event text_crypto)]) \<le> BODY_LIMIT"
    using length_demo_id(1)[of k] by (simp add: post_ingest_def BODY_LIMIT_def del: length_demo_id)
qed

text \<open>The daemon of one turn registers and posts its envelope; the server then owes it 5000 micros.\<close>

lemma honest_daemon_is_paid_witness:
  "\<exists>responses s'. http_all text_web text_crypto demo_argon demo_env
      [post_request ''/v1/register'' (json_text (\<lambda>_. []) (register_body ''linux'' ''x86_64'' ''0.1.0'' None None None
          (device_id text_crypto (key_generate [])) (hex_encode text_crypto (verifying_key text_crypto (key_generate []))))),
       ingest_post (device_id text_crypto (key_generate [])) [envelope text_crypto (key_generate []) (turn_event text_crypto)]]
      seeded = (responses, s')
    \<and> list_all (\<lambda>resp. fst resp = 200) responses
    \<and> br_balance_usd_micros (balance (device_id text_crypto (key_generate [])) s') = 5000"
proof -
  let ?k = "key_generate []" and ?C = text_crypto
  let ?reg = "register_body ''linux'' ''x86_64'' ''0.1.0'' None None None (device_id ?C ?k) (hex_encode ?C (verifying_key ?C ?k))"
  let ?d = "daemon_run ?C (booted ?C [] ''srv'' []) demo_turn"
  obtain responses s' where h: "http_all text_web ?C demo_argon demo_env (post_request ''/v1/register'' (json_text (\<lambda>_. []) ?reg)
      # map (ingest_post (device_id ?C ?k)) (flush_loop [] [envelope ?C ?k (turn_event ?C)])) seeded = (responses, s')" by force
  have tx: "d_tx ?d = Some [envelope ?C ?k (turn_event ?C)]"
  proof -
    have "d_key (booted ?C [] ''srv'' []) = ?k" "d_tx (booted ?C [] ''srv'' []) = Some []"
      by (simp_all add: booted_def daemon_fields)
    then show ?thesis using sent_channel[of ?C "booted ?C [] ''srv'' []" demo_turn] by (simp add: turn_sent)
  qed
  have tot: "d_impressions_total ?d = 1"
    using ticker_run[of ?C "booted ?C [] ''srv'' []" demo_turn]
    by (simp add: turn_sent imp_count_def turn_event_fields(1-8) booted_total)
  have "plain_json ?reg"
    by (intro registration_plain)
      (simp_all add: utf8_literal hostname_of_def alnum_utf8[OF device_id_alnum[OF text_crypto_ok(4)]]
        alnum_utf8[OF hex_alnum[OF text_crypto_ok(4)]])
  from honest_daemon_is_paid[OF text_crypto_ok text_web_ok refl turn_sent[symmetric] _ _ _ refl this tx refl _ h]
  have "list_all (\<lambda>resp. fst resp = 200) responses
    \<and> br_balance_usd_micros (balance (device_id ?C ?k) s') = 5000"
    by (simp add: turn_event_safe tot seeded_def balance_def Let_def hm_get_or_def post_request_def ingest_post_def
        turn_bodies_short)
  with h show ?thesis by auto
qed

end
