(* ===== verification/System.thy ===== *)
theory System
  imports Network Http_Wire
begin

section \<open>The whole system, interleaved\<close>

text \<open>
  A daemon and the HTTP server run side by side: datagrams reach the daemon, requests of anybody
  reach the server (other devices, operators, users, payouts, replays and altered copies of the
  daemon's own posts, registrations of any device), and the server restarts, in any order. The runs
  are not restricted; \<open>fair_request\<close> says of a request what the property assumes of the rest of the
  world: nobody but the daemon signs with its key, and nobody registers its device under another
  key, which the server would take, as registration is not authenticated. Invariant: what the
  account of the device was credited is a part of what the daemon emits.
\<close>

definition fair_request :: "web \<Rightarrow> crypto \<Rightarrow> device_key \<Rightarrow> event list \<Rightarrow> http_request \<Rightarrow> bool" where
  "fair_request W C k es r \<longleftrightarrow>
     (case endpoint_of r of
        Some (Ingest, _) \<Rightarrow>
          (case request_reads W r de_ingest_req of
             Some q \<Rightarrow> iq_device_id q = device_id C k \<longrightarrow> list_all (unforged C k es) (iq_events q)
           | None \<Rightarrow> True)
      | Some (Register, _) \<Rightarrow>
          (case request_reads W r de_register_req of
             Some q \<Rightarrow> rq_device_id q = device_id C k \<longrightarrow> decode_pubkey C (rq_pubkey q) \<in> {None, Some (verifying_key C k)}
           | None \<Rightarrow> True)
      | _ \<Rightarrow> True)"

text \<open>A run: the requests and restarts counted, the events emitted and the requests made so far.\<close>

inductive system :: "web \<Rightarrow> crypto \<Rightarrow> argon \<Rightarrow> device_key \<Rightarrow> nat \<Rightarrow> event list \<Rightarrow> http_request list \<Rightarrow>
    daemon \<Rightarrow> app_state \<Rightarrow> bool" for W C A k where
  sys_boot: "fst (open_state C now env empty_conn) = Inr s \<Longrightarrow> k = key_generate r \<Longrightarrow>
    system W C A k 0 [] [] (booted C r server pool) s"
| sys_host: "system W C A k n es rs d s \<Longrightarrow>
    system W C A k n (es @ sent_events C d [(w, msg, t)]) rs (handle C w msg t d) s"
| sys_request: "system W C A k n es rs d s \<Longrightarrow> env_ok env \<Longrightarrow>
    system W C A k (Suc n) es (rs @ [r]) d (snd (app W C A env r s))"
| sys_restart: "system W C A k n es rs d s \<Longrightarrow> db s = Some c \<Longrightarrow> fst (open_state C now env c) = Inr s' \<Longrightarrow>
    system W C A k (Suc n) es rs d s'"

lemma system_http: "system W C A k n es rs d s \<Longrightarrow> http_reachable W C A n s"
  by (induction rule: system.induct) (auto intro: http_reachable.intros)

subsection \<open>The invariant\<close>

text \<open>Every device earns for its own account, the daemon's device has the daemon's key.\<close>

definition own_accounts :: "crypto \<Rightarrow> device_key \<Rightarrow> app_state \<Rightarrow> bool" where
  "own_accounts C k s \<longleftrightarrow>
     (\<forall>x rec. hm_get (devices s) x = Some rec \<longrightarrow> dv_account_id rec = account_of x
        \<and> (x = device_id C k \<longrightarrow> dv_pubkey rec = verifying_key C k))"

definition credited_part :: "crypto \<Rightarrow> device_key \<Rightarrow> event list \<Rightarrow> app_state \<Rightarrow> bool" where
  "credited_part C k es s \<longleftrightarrow> (\<exists>cs. mset cs \<subseteq># mset es \<and> ev_id ` set cs \<subseteq> seen_event_ids s
     \<and> hm_get_or 0 (impressions s) (account_of (device_id C k)) = total_imps cs)"

definition sys_inv :: "crypto \<Rightarrow> device_key \<Rightarrow> event list \<Rightarrow> app_state \<Rightarrow> bool" where
  "sys_inv C k es s \<longleftrightarrow> own_accounts C k s \<and> credited_part C k es s"

lemma account_of_inject [simp]: "account_of x = account_of y \<longleftrightarrow> x = y"
  by (simp add: account_of_def)

lemma sys_inv_same:
  assumes "sys_inv C k es s" "devices s' = devices s" "seen_event_ids s' = seen_event_ids s"
    and "hm_get_or 0 (impressions s') = hm_get_or 0 (impressions s)"
  shows "sys_inv C k es s'"
  using assms by (simp add: sys_inv_def own_accounts_def credited_part_def)

lemma mset_subset_fresh:
  assumes "mset cs \<subseteq># mset es" "e \<in> set es" "e \<notin> set cs" shows "mset (e # cs) \<subseteq># mset es"
proof (rule mset_subset_eqI)
  fix x
  have "count (mset cs) x \<le> count (mset es) x" using assms(1) by (simp add: mset_subset_eq_count)
  moreover have z: "count (mset cs) e = 0" using assms(3) by (simp add: count_eq_zero_iff)
  moreover have "Suc 0 \<le> count (mset es) e" using assms(2) by (simp add: Suc_le_eq)
  moreover have "count (mset (e # cs)) x = count (mset cs) x + (if x = e then 1 else 0)" by simp
  ultimately show "count (mset (e # cs)) x \<le> count (mset es) x"
    by (cases "x = e") (simp_all only: if_True if_False add_0 One_nat_def add_0_right simp_thms)
qed

lemma accept_sys_inv:
  assumes "sys_inv C k es s" "x = device_id C k \<Longrightarrow> unforged C k es se"
  shows "sys_inv C k es (snd (accept_event C x se s))"
proof (cases "fst (accept_event C x se s)")
  case (Inl r)
  with assms(1) show ?thesis by (simp add: accept_event_reject)
next
  case (Inr u)
  let ?s = "snd (accept_event C x se s)"
  have ok: "fst (accept_event C x se s) = Inr ()" using Inr by simp
  then obtain dev sig where dev: "hm_get (devices s) x = Some dev" "hex_decode C (se_s se) = Some sig"
    "key_verify C (se_e se) sig (dv_pubkey dev)" "ev_id (se_e se) \<notin> seen_event_ids s"
    by (auto simp: accept_event_iff acceptable_def)
  have acct: "dv_account_id dev = account_of x" using assms(1) dev(1) by (simp add: sys_inv_def own_accounts_def)
  note fields = accept_event_fields[OF ok dev(1)] and money = accept_event_money(2)[OF ok dev(1), unfolded acct]
  have "own_accounts C k ?s"
    using assms(1) by (auto simp: sys_inv_def own_accounts_def fields(1) maps split: if_splits)
  moreover have "credited_part C k es ?s"
  proof -
    obtain cs where cs: "mset cs \<subseteq># mset es" "ev_id ` set cs \<subseteq> seen_event_ids s"
      "hm_get_or 0 (impressions s) (account_of (device_id C k)) = total_imps cs"
      using assms(1) by (auto simp: sys_inv_def credited_part_def)
    show ?thesis
    proof (cases "x = device_id C k")
      case True
      then have "se_e se \<in> set es"
        using assms dev by (auto simp: unforged_def sys_inv_def own_accounts_def)
      moreover have "se_e se \<notin> set cs" using cs(2) dev(4) by auto
      ultimately have "mset (se_e se # cs) \<subseteq># mset es" by (rule mset_subset_fresh[OF cs(1)])
      moreover have "hm_get_or 0 (impressions ?s) (account_of (device_id C k)) = total_imps (se_e se # cs)"
        unfolding money using True cs(3) by (simp add: add.commute)
      ultimately show ?thesis
        unfolding credited_part_def using cs(2) fields(2) by (intro exI[of _ "se_e se # cs"]) auto
    next
      case False
      then show ?thesis
        unfolding credited_part_def using cs fields(2) by (intro exI[of _ cs]) (auto simp: money)
    qed
  qed
  ultimately show ?thesis by (simp add: sys_inv_def)
qed

lemma ingest_sys_inv:
  assumes "sys_inv C k es s" "x = device_id C k \<Longrightarrow> list_all (unforged C k es) ses"
  shows "sys_inv C k es (snd (ingest C x ses s))"
proof -
  have one: "sys_inv C k es (snd (ingest_one C x se (r, s)))"
    if "sys_inv C k es s" "x = device_id C k \<Longrightarrow> unforged C k es se" for se r s
  proof -
    obtain y s1 where a: "accept_event C x se s = (y, s1)" by force
    have "sys_inv C k es s1" using accept_sys_inv[OF that(1), of x se] that(2) a by simp
    then show ?thesis by (cases y) (auto simp: a ingest_one_def Let_def intro: sys_inv_same)
  qed
  have "(x = device_id C k \<Longrightarrow> list_all (unforged C k es) ses) \<Longrightarrow> sys_inv C k es (snd rs) \<Longrightarrow>
      sys_inv C k es (snd (fold (ingest_one C x) ses rs))" for rs
  proof (induction ses arbitrary: rs)
    case (Cons se ses)
    then show ?case using one[of "snd rs" se "fst rs"] by simp
  qed simp
  from this[OF assms(2)] assms(1) show ?thesis by (simp add: ingest_def)
qed

lemma register_sys_inv:
  assumes "sys_inv C k es s"
    and "rq_device_id q = device_id C k \<Longrightarrow> decode_pubkey C (rq_pubkey q) \<in> {None, Some (verifying_key C k)}"
  shows "sys_inv C k es (snd (register C peer hs q now s))"
proof (cases "decode_pubkey C (rq_pubkey q)")
  case None
  with assms(1) show ?thesis by (simp add: register_def Let_def)
next
  case (Some pk)
  then have d: "devices (snd (register C peer hs q now s)) = hm_insert (rq_device_id q)
      \<lparr>dv_pubkey = pk, dv_account_id = account_of (rq_device_id q), dv_chain_head = GENESIS_PREV, dv_ctr_head = None\<rparr>
      (devices s)"
    by (simp add: register_def Let_def)
  have "own_accounts C k (snd (register C peer hs q now s))"
    using assms Some by (auto simp: sys_inv_def own_accounts_def d maps split: if_splits)
  moreover have "credited_part C k es (snd (register C peer hs q now s))"
    using assms(1) register_money[of s C peer hs q now] by (simp add: sys_inv_def credited_part_def same_money_def)
  ultimately show ?thesis by (simp add: sys_inv_def)
qed

lemma request_sys_inv:
  assumes "sys_inv C k es s" "fair_request W C k es r"
  shows "sys_inv C k es (snd (app W C A env r s))"
proof (cases "endpoint_of r")
  case None
  then show ?thesis using app_None[of r W C A env s] assms(1) by auto
next
  case (Some p)
  obtain e cs where p: "p = (e, cs)" by force
  show ?thesis
  proof (cases "e = Ingest \<or> e = Register")
    case False
    then have m: "devices (snd (app W C A env r s)) = devices s"
      using endpoint_devices[of e W C A env r cs s] by (auto simp: app_Some[OF Some[unfolded p]])
    show ?thesis
    proof (cases "e = Redeem")
      case True
      have "seen_event_ids (snd (redeem ord rail am s)) = seen_event_ids s \<and>
          impressions (snd (redeem ord rail am s)) = impressions s" for ord rail am
        by (auto simp: redeem_def Let_def with_db_def split: option.split prod.split)
      then have "seen_event_ids (snd (app W C A env r s)) = seen_event_ids s"
        "impressions (snd (app W C A env r s)) = impressions s"
        by (auto simp: app_Some[OF Some[unfolded p]] True with_body_def split: option.split)
      with m show ?thesis by (intro sys_inv_same[OF assms(1)]) simp_all
    next
      case nr: False
      then have "same_money s (snd (app W C A env r s))"
        using False endpoint_money[of e s W C A env r cs] by (auto simp: app_Some[OF Some[unfolded p]])
      with m show ?thesis by (intro sys_inv_same[OF assms(1)]) (simp_all add: same_money_def)
    qed
  next
    case True
    then show ?thesis
    proof
      assume e: "e = Ingest"
      show ?thesis
      proof (cases "request_reads W r de_ingest_req")
        case None
        then show ?thesis using assms(1) by (simp add: app_Some[OF Some[unfolded p]] e with_body_def)
      next
        case (Some q)
        with assms(2) \<open>endpoint_of r = Some p\<close> have "iq_device_id q = device_id C k \<Longrightarrow> list_all (unforged C k es) (iq_events q)"
          by (simp add: fair_request_def p e)
        from ingest_sys_inv[OF assms(1) this] show ?thesis
          using Some by (simp add: app_Some[OF \<open>endpoint_of r = Some p\<close>[unfolded p]] e with_body_def)
      qed
    next
      assume e: "e = Register"
      show ?thesis
      proof (cases "request_reads W r de_register_req")
        case None
        then show ?thesis using assms(1) by (simp add: app_Some[OF Some[unfolded p]] e with_body_def)
      next
        case (Some q)
        with assms(2) \<open>endpoint_of r = Some p\<close> have "rq_device_id q = device_id C k \<Longrightarrow>
            decode_pubkey C (rq_pubkey q) \<in> {None, Some (verifying_key C k)}"
          by (simp add: fair_request_def p e)
        from register_sys_inv[OF assms(1) this] show ?thesis
          using Some by (simp add: app_Some[OF \<open>endpoint_of r = Some p\<close>[unfolded p]] e with_body_def)
      qed
    qed
  qed
qed

lemma boot_sys_inv:
  assumes "hex_ok C" "fst (open_state C now env empty_conn) = Inr s"
  shows "sys_inv C k fs s"
proof -
  have "same_books (seeded\<lparr>db := Some empty_conn\<rparr>) s"
    using restart_step[OF assms(1) seeded_durable _ assms(2)] by simp
  then show ?thesis
    by (simp add: sys_inv_def own_accounts_def credited_part_def same_books_def)
      (auto simp: seeded_def hm_get_or_def intro: exI[of _ "[]"])
qed

text \<open>\<open>fs\<close> is what the daemon ever emits, of which \<open>es\<close> are the events so far.\<close>

lemma system_inv:
  assumes "hex_ok C" "system W C A k n es rs d s" "n \<le> 2 ^ 63" "list_all (fair_request W C k fs) rs"
  shows "sys_inv C k fs s \<and> d_impressions_total d = total_imps es"
  using assms(2,3,4)
proof (induction rule: system.induct)
  case (sys_boot now env s r server pool)
  then show ?case using boot_sys_inv[OF assms(1)] by (simp add: booted_total)
next
  case (sys_host n es rs d s w msg t)
  then show ?case using handle_ticker[of C w msg t d] by (auto split: option.split)
next
  case (sys_request n es rs d s env r)
  then show ?case using request_sys_inv by simp
next
  case (sys_restart n es rs d s c now env s')
  obtain m where "m \<le> n" "reachable C A m s"
    using http_is_reachable[OF system_http[OF sys_restart.hyps(1)]] by blast
  then have "durable C s" using reachable_inv[OF assms(1)] sys_restart.prems by (auto simp: run_inv_def)
  from restart_step[OF assms(1) this sys_restart.hyps(2,3)] have "same_books s s'" by blast
  then show ?case using sys_restart sys_inv_same[of C k fs s s'] by (simp add: same_books_def)
qed

subsection \<open>The property\<close>

text \<open>
  C3: the whole system pays a daemon for its own impressions only, each at most once. In every
  interleaving of datagrams, requests of anybody over HTTP and restarts, in which no request carries
  an event under the daemon's key that it has not emitted and none registers its device with
  another key, the impressions credited to
  the device are those of distinct occurrences among the events its daemon has emitted, which is what
  the daemon's own ticker counts, and its balance is 5000 micros for each of them less what was paid out.
\<close>

theorem system_pays_emitted_once:
  assumes "hex_ok C" "system W C A k n es rs d s" "n \<le> 2 ^ 63"
    and "list_all (fair_request W C k es) rs"
  shows "\<exists>cs. mset cs \<subseteq># mset es \<and> d_impressions_total d = total_imps es
    \<and> br_impressions (balance (device_id C k) s) = total_imps cs
    \<and> br_balance_usd_micros (balance (device_id C k) s)
        = 5000 * total_imps cs - paid_out (ledger s) (account_of (device_id C k))"
proof -
  obtain cs where cs: "mset cs \<subseteq># mset es"
    "hm_get_or 0 (impressions s) (account_of (device_id C k)) = total_imps cs"
    using system_inv[OF assms] by (auto simp: sys_inv_def credited_part_def)
  obtain m where "m \<le> n" "reachable C A m s" using http_is_reachable[OF system_http[OF assms(2)]] by blast
  then have "run_inv C m s" using reachable_inv[OF assms(1)] assms(3) by simp
  then have "hm_get_or 0 (balances s) a = 5000 * hm_get_or 0 (impressions s) a - paid_out (ledger s) a" for a
    by (simp add: run_inv_def books_defs)
  with cs system_inv[OF assms] show ?thesis by (auto simp: balance_def Let_def)
qed

lemma system_run:
  "system W C A k n es rs d s \<Longrightarrow> system W C A k n (es @ sent_events C d xs) rs (daemon_run C d xs) s"
proof (induction xs arbitrary: es d)
  case (Cons x xs)
  obtain w msg t where x: "x = (w, msg, t)" by (cases x)
  from Cons.IH[OF sys_host[OF Cons.prems, of w msg t]] show ?case by (simp add: x)
qed simp

lemma fair_batch:
  assumes "web_ok W" "jcs_text_ok C" "alphabets_ok C" "list_all event_safe b" "set b \<subseteq> set es"
  shows "fair_request W C k es (ingest_post (device_id C k) (map (envelope C k) b))"
proof -
  have "request_reads W (ingest_post (device_id C k) (map (envelope C k) b)) de_ingest_req
      \<in> {None, Some \<lparr>iq_device_id = device_id C k, iq_events = map (signed_by C k) b\<rparr>}"
    using batch_read[of "body_json W" C b k] assms by (simp add: request_reads_def ingest_post_def post_request_def web_ok_def)
  moreover have "endpoint_of (ingest_post (device_id C k) (map (envelope C k) b)) = Some (Ingest, [])"
    by (simp add: ingest_post_def post_endpoints)
  ultimately show ?thesis
    using assms(5) by (auto simp: fair_request_def list_all_iff unforged_def signed_by_def subset_iff split: option.split)
qed

lemma fair_registration:
  assumes "hex_ok C" "ed25519_ok C" "web_ok W" "plain_json reg"
    and "reg = register_body os arch version host_env etc email (device_id C k) (hex_encode C (verifying_key C k))"
  shows "fair_request W C k es (post_request ''/v1/register'' (json_text ft reg))"
proof -
  have "request_reads W (post_request ''/v1/register'' (json_text ft reg)) de_register_req
      \<in> {None, Some (registration os arch version host_env etc email (device_id C k) (hex_encode C (verifying_key C k)))}"
    using assms(3,4) registration_read
    by (simp add: request_reads_def post_request_def web_ok_def json_reader_ok_def assms(5))
  moreover have "decode_pubkey C (hex_encode C (verifying_key C k)) = Some (verifying_key C k)"
    using assms(1,2) by (simp add: verifying_key_decodes)
  ultimately show ?thesis
    by (auto simp: fair_request_def post_endpoints registration_def split: option.split)
qed

text \<open>The daemon of one turn, its registration and its batch, posted twice by the network.\<close>

lemma system_pays_emitted_once_witness:
  "\<exists>rs d s cs. system text_web text_crypto demo_argon (key_generate []) 3 [turn_event text_crypto] rs d s
     \<and> length rs = 3
     \<and> d_impressions_total d = 1 \<and> mset cs \<subseteq># {#turn_event text_crypto#}
     \<and> br_impressions (balance (device_id text_crypto (key_generate [])) s) = total_imps cs"
proof -
  let ?C = text_crypto and ?k = "key_generate []" and ?W = text_web
  let ?reg = "register_body ''linux'' ''x86_64'' ''0.1.0'' None None None (device_id ?C ?k) (hex_encode ?C (verifying_key ?C ?k))"
  let ?post = "ingest_post (device_id ?C ?k) (map (envelope ?C ?k) [turn_event ?C])"
  obtain s0 where "fst (open_state ?C 0 None empty_conn) = Inr s0" using boots[OF empty_healthy] by blast
  from system_run[OF sys_boot[where W = ?W and A = demo_argon and r = "[]" and server = "''srv''" and pool = "[]", OF this refl], where xs = demo_turn]
  obtain d where s0: "system ?W ?C demo_argon ?k 0 [turn_event ?C] [] d s0" by (auto simp: turn_sent)
  have p: "plain_json ?reg"
    by (intro registration_plain)
      (simp_all add: utf8_literal hostname_of_def alnum_utf8[OF device_id_alnum[OF text_crypto_ok(4)]]
        alnum_utf8[OF hex_alnum[OF text_crypto_ok(4)]])
  have fr: "fair_request ?W ?C ?k [turn_event ?C] (post_request ''/v1/register'' (json_text (\<lambda>_. []) ?reg))"
    by (rule fair_registration[OF text_crypto_ok(1,2) text_web_ok p refl])
  have fb: "fair_request ?W ?C ?k [turn_event ?C] ?post"
    by (rule fair_batch[OF text_web_ok text_crypto_ok(3,4)]) (simp_all add: turn_event_safe)
  let ?reg_post = "post_request ''/v1/register'' (json_text (\<lambda>_. []) ?reg)"
  obtain s3 where s3: "system ?W ?C demo_argon ?k (Suc (Suc (Suc 0))) [turn_event ?C] [?reg_post, ?post, ?post] d s3"
    using sys_request[OF sys_request[OF sys_request[OF s0 demo_env_ok, of ?reg_post] demo_env_ok, of ?post] demo_env_ok, of ?post]
    by auto
  from system_pays_emitted_once[OF text_crypto_ok(1) s3] fr fb obtain cs where
    "mset cs \<subseteq># {#turn_event ?C#}" "d_impressions_total d = total_imps [turn_event ?C]"
    "br_impressions (balance (device_id ?C ?k) s3) = total_imps cs" by auto
  with s3 show ?thesis
    by (auto simp: eval_nat_numeral imp_count_def turn_event_fields(1-8)
        intro!: exI[of _ "[?reg_post, ?post, ?post]"] exI[of _ d] exI[of _ s3] exI[of _ cs])
qed

end
