(* ===== verification/Account_Book.thy ===== *)
theory Account_Book
  imports Server_Runs
begin

section \<open>What the server promises: an account book\<close>

text \<open>
  The contract of the server with everything operational left out: no database, no tables, no
  pool, no sessions. A book has for each device its account, chain head and counter; the event ids
  that have been used; per account the balance as the server keeps it (64 bits) and, as unbounded
  numbers, what was ever earned and paid. Three steps change it. The interface
  \<open>forward_simulation\<close> is refinement between two step relations; its interpretation says that the
  server, restarts included, implements the book, and what holds of every run of the book then holds
  of every run of the server.
\<close>

subsection \<open>The book\<close>

record book =
  bk_device :: "string \<Rightarrow> (string \<times> string \<times> u64 option) option"
  bk_used :: "string set"
  bk_balance :: "string \<Rightarrow> i64"
  bk_earned :: "string \<Rightarrow> nat"
  bk_paid :: "string \<Rightarrow> nat"

definition empty_book :: book where
  "empty_book = \<lparr>bk_device = (\<lambda>_. None), bk_used = {}, bk_balance = (\<lambda>_. 0), bk_earned = (\<lambda>_. 0), bk_paid = (\<lambda>_. 0)\<rparr>"

definition bind_device :: "string \<Rightarrow> book \<Rightarrow> book" where
  "bind_device device B = B\<lparr>bk_device := (bk_device B)(device \<mapsto> (account_of device, GENESIS_PREV, None))\<rparr>"

definition earn :: "crypto \<Rightarrow> string \<Rightarrow> string \<Rightarrow> event \<Rightarrow> book \<Rightarrow> book" where
  "earn C device acct e B = B\<lparr>
     bk_device := (bk_device B)(device \<mapsto> (acct, chain_next C (canonical_bytes C e), Some (ev_ctr e))),
     bk_used := insert (ev_id e) (bk_used B),
     bk_balance := (bk_balance B)(acct := bk_balance B acct + 5000 * imp_count e),
     bk_earned := (bk_earned B)(acct := bk_earned B acct + 5000 * unat (imp_count e))\<rparr>"

definition pay :: "string \<Rightarrow> i64 \<Rightarrow> book \<Rightarrow> book" where
  "pay acct m B = B\<lparr>
     bk_balance := (bk_balance B)(acct := bk_balance B acct - m),
     bk_paid := (bk_paid B)(acct := bk_paid B acct + nat (sint m))\<rparr>"

inductive book_step :: "crypto \<Rightarrow> book \<Rightarrow> book \<Rightarrow> bool" for C where
  bind: "book_step C B (bind_device device B)"
| earns: "bk_device B device = Some (acct, ev_prev e, ctr) \<Longrightarrow>
    ev_ctr e = (case ctr of Some c \<Rightarrow> c + 1 | None \<Rightarrow> 0) \<Longrightarrow> ev_id e \<notin> bk_used B \<Longrightarrow>
    book_step C B (earn C device acct e B)"
| pays: "0 < sint m \<Longrightarrow> sint m \<le> sint (bk_balance B acct) \<Longrightarrow> book_step C B (pay acct m B)"

subsection \<open>Simulation\<close>

text \<open>\<open>inv n\<close> is what the simulation may assume of a state reached in \<open>n\<close> steps, up to \<open>N\<close> of them.\<close>

locale forward_simulation =
  fixes cstep :: "'c \<Rightarrow> 'c \<Rightarrow> bool" and astep :: "'a \<Rightarrow> 'a \<Rightarrow> bool" and view :: "'c \<Rightarrow> 'a"
    and inv :: "nat \<Rightarrow> 'c \<Rightarrow> bool" and N :: nat
  assumes simulates: "inv n c \<Longrightarrow> n < N \<Longrightarrow> cstep c c' \<Longrightarrow> astep\<^sup>*\<^sup>* (view c) (view c')"
    and keeps: "inv n c \<Longrightarrow> n < N \<Longrightarrow> cstep c c' \<Longrightarrow> inv (Suc n) c'"
begin

lemma runs: "(cstep ^^ k) c c' \<Longrightarrow> inv n c \<Longrightarrow> n + k \<le> N \<Longrightarrow> astep\<^sup>*\<^sup>* (view c) (view c') \<and> inv (n + k) c'"
proof (induction k arbitrary: c')
  case 0
  then show ?case by simp
next
  case (Suc k)
  then obtain c1 where c1: "(cstep ^^ k) c c1" "cstep c1 c'" by auto
  with Suc have "astep\<^sup>*\<^sup>* (view c) (view c1)" "inv (n + k) c1" "n + k < N" by auto
  with simulates[OF _ _ c1(2)] keeps[OF _ _ c1(2)] show ?case by (fastforce intro: rtranclp_trans)
qed

lemma lifts:
  assumes "\<And>a a'. astep a a' \<Longrightarrow> P a \<Longrightarrow> P a'"
    and "(cstep ^^ k) c c'" "inv n c" "n + k \<le> N" "P (view c)"
  shows "P (view c')"
proof -
  have "astep\<^sup>*\<^sup>* a a' \<Longrightarrow> P a \<Longrightarrow> P a'" for a a'
    by (induction rule: rtranclp_induct) (use assms(1) in blast)+
  with runs[OF assms(2-4)] assms(5) show ?thesis by blast
qed

end

subsection \<open>The book of a server state\<close>

definition micros_earned :: "ledger_entry list \<Rightarrow> string \<Rightarrow> nat" where
  "micros_earned es a =
     sum_list (map (\<lambda>e. if kind e = ''imp_earn'' \<and> credit e = a then nat (sint (amount_micros e)) else 0) es)"

definition micros_paid :: "ledger_entry list \<Rightarrow> string \<Rightarrow> nat" where
  "micros_paid es a =
     sum_list (map (\<lambda>e. if kind e = ''redeem'' \<and> debit e = a then nat (sint (amount_micros e)) else 0) es)"

lemma micros_append [simp]:
  "micros_earned (es @ fs) a = micros_earned es a + micros_earned fs a"
  "micros_paid (es @ fs) a = micros_paid es a + micros_paid fs a"
  by (simp_all add: micros_earned_def micros_paid_def)

lemma micros_imp [simp]:
  "micros_earned (imp_entries s acct x y r) a = (if acct = a then nat (sint x) else 0)"
  "micros_paid (imp_entries s acct x y r) a = 0"
  by (simp_all add: micros_earned_def micros_paid_def imp_entries_def)

definition book_of :: "app_state \<Rightarrow> book" where
  "book_of s = \<lparr>
     bk_device = (\<lambda>d. map_option (\<lambda>r. (dv_account_id r, dv_chain_head r, dv_ctr_head r)) (hm_get (devices s) d)),
     bk_used = seen_event_ids s,
     bk_balance = hm_get_or 0 (balances s),
     bk_earned = micros_earned (ledger s),
     bk_paid = micros_paid (ledger s)\<rparr>"

lemma book_of_earned: "bk_earned (book_of s) = micros_earned (ledger s)"
  by (simp add: book_of_def)

lemma book_of_mem: "book_of (mem s) = book_of s"
  by (simp add: book_of_def)

lemma book_of_cong:
  "devices s' = devices s \<Longrightarrow> seen_event_ids s' = seen_event_ids s \<Longrightarrow> ledger s' = ledger s \<Longrightarrow>
     balances s' = balances s \<Longrightarrow> book_of s' = book_of s"
  by (simp add: book_of_def)

lemma book_of_same: "same_books s s' \<Longrightarrow> book_of s' = book_of s"
  by (rule book_of_cong) (simp_all add: same_books_def)

subsection \<open>Each handler on the book\<close>

lemma register_book: "(book_step C)\<^sup>*\<^sup>* (book_of s) (book_of (snd (register C peer hs req now s)))"
proof -
  let ?s' = "snd (register C peer hs req now s)"
  have "book_of (mem ?s') = (case decode_pubkey C (rq_pubkey req) of
      None \<Rightarrow> book_of s | Some _ \<Rightarrow> bind_device (rq_device_id req) (book_of s))"
    by (cases "decode_pubkey C (rq_pubkey req)")
      (auto simp: register_mem book_of_mem book_of_def bind_device_def maps fun_eq_iff)
  then show ?thesis
    by (auto simp: book_of_mem intro: bind split: option.splits)
qed

lemma imp_count_bound: "int (unat (imp_count e)) < 4294967296"
proof -
  have "uint (imp_count e) < 4294967296"
    using uint_u32 by (auto simp: imp_count_def uint_ucast32 split: option.split)
  then show ?thesis by simp
qed

lemma earning_exact: "sint (5000 * imp_count e :: i64) = 5000 * int (unat (imp_count e))"
proof -
  have eq: "(5000 * imp_count e :: i64) = word_of_int (5000 * int (unat (imp_count e)))" by simp
  have "(2 :: int) ^ 63 = 9223372036854775808" by simp
  then have "5000 * int (unat (imp_count e)) < 2 ^ 63" using imp_count_bound[of e] by linarith
  then show ?thesis unfolding eq by (intro sint_small) simp_all
qed

lemma accept_earns:
  assumes "acceptable C device se s"
  obtains dev where "hm_get (devices s) device = Some dev" "ev_prev (se_e se) = dv_chain_head dev"
    "ev_ctr (se_e se) = expected_ctr dev" "ev_id (se_e se) \<notin> seen_event_ids s"
    "book_of (snd (accept_event C device se s)) = earn C device (dv_account_id dev) (se_e se) (book_of s)"
proof -
  let ?e = "se_e se" and ?s' = "snd (accept_event C device se s)"
  obtain dev where dev: "hm_get (devices s) device = Some dev" "ev_prev ?e = dv_chain_head dev"
      "ev_ctr ?e = expected_ctr dev" "ev_id ?e \<notin> seen_event_ids s"
    using assms by (auto simp: acceptable_def)
  have ok: "fst (accept_event C device se s) = Inr ()" using assms by (simp add: accept_event_iff)
  have "book_of ?s' = book_of (mem ?s')" by (simp only: book_of_mem)
  also have "\<dots> = earn C device (dv_account_id dev) ?e (book_of s)"
    unfolding accept_event_mem[OF ok dev(1)]
    by (auto simp: book_of_def credit_imps_def advance_def earn_def maps dev(1) fun_eq_iff earning_exact nat_mult_distrib)
  finally show thesis using that dev by blast
qed

lemma accept_book:
  assumes "acceptable C device se s"
  shows "book_step C (book_of s) (book_of (snd (accept_event C device se s)))"
  using assms by (rule accept_earns) (auto intro!: earns simp: book_of_def expected_ctr_def)

lemma ingest_book: "(book_step C)\<^sup>*\<^sup>* (book_of s) (book_of (snd (ingest C device ses s)))"
proof -
  have one: "(book_step C)\<^sup>*\<^sup>* (book_of (snd rs)) (book_of (snd (ingest_one C device se rs)))" for se rs
  proof -
    obtain r s1 where rs: "rs = (r, s1)" by (cases rs)
    obtain x s2 where a: "accept_event C device se s1 = (x, s2)" by force
    have "book_of (snd (ingest_one C device se rs)) = book_of s2"
      using a by (cases x; intro book_of_cong) (simp_all add: rs ingest_one_def Let_def)
    moreover have "(book_step C)\<^sup>*\<^sup>* (book_of s1) (book_of s2)"
    proof (cases x)
      case (Inl r)
      then show ?thesis using accept_event_reject[of C device se s1 r] a by simp
    next
      case (Inr u)
      then have "acceptable C device se s1" using accept_event_iff[of C device se s1] a by simp
      then show ?thesis using accept_book a by fastforce
    qed
    ultimately show ?thesis by (simp add: rs)
  qed
  have "(book_step C)\<^sup>*\<^sup>* (book_of (snd rs)) (book_of (snd (fold (ingest_one C device) ses rs)))" for rs
  proof (induction ses arbitrary: rs)
    case (Cons se ses)
    from rtranclp_trans[OF one Cons.IH] show ?case by simp
  qed simp
  then show ?thesis by (force simp: ingest_def)
qed

lemma redeem_book:
  assumes "hm_wf (balances s)" "mset (order (balances s)) = mset (balances s)"
  shows "(book_step C)\<^sup>*\<^sup>* (book_of s) (book_of (snd (redeem order rail amount s)))"
proof (cases "fst (redeem order rail amount s)")
  case (Inl e)
  then show ?thesis by (simp add: redeem_err)
next
  case (Inr r)
  let ?s' = "snd (redeem order rail amount s)"
  from Inr obtain acct bal where r:
    "max_by_value (order (balances s)) = Some (acct, bal)" "0 < sint bal"
    "ro_amount r = (case amount of Some a \<Rightarrow> if 0 < sint a then a else bal | None \<Rightarrow> bal)"
    "sint (ro_amount r) \<le> sint bal"
    and m: "mem ?s' = (mem s)\<lparr>next_redemption_id := next_redemption_id s + 1,
        ledger := ledger s @ [\<lparr>debit = acct, credit = ''acct:payout'', amount_micros = ro_amount r,
          kind = ''redeem'', reference = ro_id r\<rparr>],
        balances := hm_insert acct (hm_get_or 0 (balances s) acct - ro_amount r) (balances s),
        redemptions := redemptions s @ [\<lparr>rdm_id = ro_id r, rdm_amount = ro_amount r, rdm_rail = rail\<rparr>]\<rparr>"
    by (rule redeem_mem)
  have "(acct, bal) \<in> set (balances s)"
    using max_by_value_Some[OF r(1)] mset_eq_setD[OF assms(2)] by simp
  then have bal: "hm_get_or 0 (balances s) acct = bal"
    using assms(1) by (simp add: hm_get_def hm_wf_def hm_get_or_def)
  have "book_of ?s' = book_of (mem ?s')" by (simp only: book_of_mem)
  also have "\<dots> = pay acct (ro_amount r) (book_of s)"
    by (auto simp: m book_of_def pay_def maps fun_eq_iff micros_earned_def micros_paid_def)
  finally have "book_step C (book_of s) (book_of ?s')"
    using r by (auto intro!: pays simp: book_of_def bal split: option.splits if_splits)
  then show ?thesis by blast
qed

subsection \<open>The server implements the book\<close>

definition run_ok :: "crypto \<Rightarrow> nat \<Rightarrow> app_state \<Rightarrow> bool" where
  "run_ok C n s \<longleftrightarrow> hex_ok C \<and> run_inv C n s"

lemma step_simulates:
  assumes "run_ok C n s" "server_step C A s s'"
  shows "(book_step C)\<^sup>*\<^sup>* (book_of s) (book_of s')"
proof -
  have inv: "hex_ok C" "hm_wf (balances s)" "durable C s"
    using assms(1) by (simp_all add: run_ok_def run_inv_def books_defs)
  have quietly: ?thesis if "untouched s s'"
    using that book_of_same[of s s'] by (simp add: untouched_def)
  from assms(2) show ?thesis
  proof cases
    case step_click
    then have "book_of s' = book_of s" by (simp add: click_def Let_def book_of_def split: option.split)
    then show ?thesis by simp
  next
    case (step_restart c now env)
    then have "book_of s' = book_of s" using restart_step[OF inv(1,3)] book_of_same by blast
    then show ?thesis by simp
  next
    case step_register
    then show ?thesis by (simp only: register_book)
  next
    case step_ingest
    then show ?thesis by (simp only: ingest_book)
  next
    case (step_redeem order rail amount)
    show ?thesis unfolding step_redeem(1) by (rule redeem_book[where order = order, OF inv(2) step_redeem(2)])
  qed (rule quietly, simp only: quiet)+
qed

interpretation books: forward_simulation "server_step C A" "book_step C" book_of "run_ok C" "2 ^ 63" for C A
proof
  show "run_ok C n s \<Longrightarrow> n < 2 ^ 63 \<Longrightarrow> server_step C A s s' \<Longrightarrow> (book_step C)\<^sup>*\<^sup>* (book_of s) (book_of s')" for n s s'
    by (rule step_simulates)
  show "run_ok C n s \<Longrightarrow> n < 2 ^ 63 \<Longrightarrow> server_step C A s s' \<Longrightarrow> run_ok C (Suc n) s'" for n s s'
    unfolding run_ok_def using run_step by blast
qed

lemma boot_book:
  assumes "hex_ok C" "fst (open_state C now env empty_conn) = Inr s" shows "book_of s = empty_book"
proof -
  have "same_books (seeded\<lparr>db := Some empty_conn\<rparr>) s"
    using restart_step[OF assms(1) seeded_durable _ assms(2)] by simp
  then have "book_of s = book_of (seeded\<lparr>db := Some empty_conn\<rparr>)" by (rule book_of_same)
  also have "\<dots> = empty_book"
    by (simp add: book_of_def empty_book_def fun_eq_iff hm_get_or_def micros_earned_def micros_paid_def)
      (simp add: seeded_def)
  finally show ?thesis .
qed

lemma reachable_steps:
  "reachable C A n s \<Longrightarrow> \<exists>now env s0. fst (open_state C now env empty_conn) = Inr s0 \<and> (server_step C A ^^ n) s0 s"
proof (induction rule: reachable.induct)
  case (boot now env s)
  then show ?case by auto
qed auto

text \<open>
  What holds of the empty book and of every step of the book holds of the book of every reachable
  server state.
\<close>

lemma reachable_book:
  assumes "hex_ok C" "reachable C A n s" "n \<le> 2 ^ 63"
    and "P empty_book" "\<And>B B'. book_step C B B' \<Longrightarrow> P B \<Longrightarrow> P B'"
  shows "P (book_of s)"
proof -
  obtain now env s0 where s0: "fst (open_state C now env empty_conn) = Inr s0" "(server_step C A ^^ n) s0 s"
    using reachable_steps[OF assms(2)] by blast
  have "run_ok C 0 s0"
    using boot_state[OF assms(1) s0(1)] assms(1) by (simp add: run_ok_def run_inv_def)
  from books.lifts[where P = P, OF assms(5) s0(2) this] show ?thesis
    using assms(3,4) boot_book[OF assms(1) s0(1)] by simp
qed

text \<open>No overdraft, while an account has earned less than the 64-bit balance can hold.\<close>

definition solvent :: "book \<Rightarrow> bool" where
  "solvent B \<longleftrightarrow> (\<forall>a. bk_earned B a < 2 ^ 63 \<longrightarrow>
     bk_paid B a \<le> bk_earned B a \<and> sint (bk_balance B a) = int (bk_earned B a) - int (bk_paid B a))"

lemma solvent_empty: "solvent empty_book"
  by (simp add: solvent_def empty_book_def)

lemma solvent_step: "book_step C B B' \<Longrightarrow> solvent B \<Longrightarrow> solvent B'"
proof (induction rule: book_step.induct)
  case (bind B device)
  then show ?case by (simp add: solvent_def bind_device_def)
next
  case (earns B device acct e ctr)
  obtain k where k: "k = unat (imp_count e)" by simp
  have x: "5000 * imp_count e = (word_of_int (5000 * int k) :: i64)" by (simp add: k)
  have acct: "sint (bk_balance B acct + 5000 * imp_count e) = int (bk_earned B acct + 5000 * k) - int (bk_paid B acct)
      \<and> bk_paid B acct \<le> bk_earned B acct"
    if b: "bk_earned B acct + 5000 * k < 2 ^ 63"
  proof -
    have "bk_earned B acct < 2 ^ 63" using b by linarith
    then have IH: "bk_paid B acct \<le> bk_earned B acct"
        "sint (bk_balance B acct) = int (bk_earned B acct) - int (bk_paid B acct)"
      using earns.prems by (simp_all add: solvent_def)
    let ?y = "sint (bk_balance B acct) + 5000 * int k"
    have y: "?y = int (bk_earned B acct + 5000 * k - bk_paid B acct)" using IH by simp
    have "bk_balance B acct + 5000 * imp_count e = word_of_int ?y" by (simp add: x)
    moreover have "sint (word_of_int ?y :: i64) = ?y"
    proof (rule sint_small)
      show "0 \<le> ?y" unfolding y by simp
      have "bk_earned B acct + 5000 * k - bk_paid B acct < 2 ^ 63" using b by linarith
      then show "?y < 2 ^ 63" unfolding y by (metis of_nat_less_numeral_power_cancel_iff)
    qed
    ultimately show ?thesis using IH by simp
  qed
  show ?case
    unfolding solvent_def
  proof (intro allI impI)
    fix a assume "bk_earned (earn C device acct e B) a < 2 ^ 63"
    then show "bk_paid (earn C device acct e B) a \<le> bk_earned (earn C device acct e B) a \<and>
        sint (bk_balance (earn C device acct e B) a)
          = int (bk_earned (earn C device acct e B) a) - int (bk_paid (earn C device acct e B) a)"
      using acct earns.prems unfolding earn_def k[symmetric]
      by (cases "a = acct") (auto simp: solvent_def intro: trans_le_add1)
  qed
next
  case (pays m B acct)
  have "sint (bk_balance B acct - m) = sint (bk_balance B acct) - sint m"
    by (rule sint_minus_le[OF pays(1,2)])
  with pays show ?case by (auto simp: solvent_def pay_def)
qed

subsection \<open>Properties\<close>

text \<open>
  C6: the server implements the account book. Whatever requests arrive in whatever order, restarts
  included, each step of the server is some steps of the book on what the book sees of the state: a
  device is bound, a new event that continues its device's chain earns its account 5000 micros per
  impression, or an amount of at most the balance is paid; nothing else ever changes a balance, a
  chain head or the set of used event ids.
\<close>

theorem server_implements_account_book:
  assumes "hex_ok C" "reachable C A n s" "n < 2 ^ 63" "server_step C A s s'"
  shows "(book_step C)\<^sup>*\<^sup>* empty_book (book_of s) \<and> (book_step C)\<^sup>*\<^sup>* (book_of s) (book_of s')"
proof
  have "run_inv C n s" using reachable_inv[OF assms(1,2)] assms(3) by simp
  then show "(book_step C)\<^sup>*\<^sup>* (book_of s) (book_of s')"
    using books.simulates[OF _ assms(3,4)] assms(1) by (simp add: run_ok_def)
  show "(book_step C)\<^sup>*\<^sup>* empty_book (book_of s)"
    by (rule reachable_book[OF assms(1,2)]) (use assms(3) in auto)
qed

lemma server_implements_account_book_witness:
  "\<exists>s. (book_step demo_crypto)\<^sup>*\<^sup>* (book_of (demo_run s)) (book_of (snd (click ''x'' (demo_run s))))"
proof -
  obtain s where "reachable demo_crypto demo_argon 3 (demo_run s)" using demo_run_reachable by blast
  from server_implements_account_book[OF demo_crypto_ok(2) this _ server_step.step_click] show ?thesis by auto
qed

text \<open>
  C1: nobody is paid more than they earned. In every reachable state, for every account that has
  earned less than 2^63 micros in all, the payouts on the ledger add up to at most its earnings on
  the ledger, as unbounded numbers, and the balance the server shows is exactly the difference.
\<close>

theorem payouts_within_earnings:
  assumes "hex_ok C" "reachable C A n s" "n \<le> 2 ^ 63" "micros_earned (ledger s) a < 2 ^ 63"
  shows "micros_paid (ledger s) a \<le> micros_earned (ledger s) a
    \<and> sint (hm_get_or 0 (balances s) a) = int (micros_earned (ledger s) a) - int (micros_paid (ledger s) a)"
proof -
  have "solvent (book_of s)"
    by (rule reachable_book[where P = solvent, OF assms(1-3) solvent_empty solvent_step])
  with assms(4) show ?thesis by (simp add: solvent_def book_of_def)
qed

lemma redeem_earned: "micros_earned (ledger (snd (redeem order rail amount s))) a = micros_earned (ledger s) a"
proof (cases "fst (redeem order rail amount s)")
  case (Inl e)
  then show ?thesis by (simp add: redeem_err)
next
  case (Inr r)
  then obtain acct where "ledger (mem (snd (redeem order rail amount s)))
      = ledger s @ [\<lparr>debit = acct, credit = ''acct:payout'', amount_micros = ro_amount r, kind = ''redeem'', reference = ro_id r\<rparr>]"
    by (rule redeem_mem) simp
  then show ?thesis by (simp add: micros_earned_def)
qed

text \<open>For the witness: how much a batch can add.\<close>

lemma accept_earned_bound:
  "micros_earned (ledger (snd (accept_event C device se s))) a \<le> micros_earned (ledger s) a + 5000 * 2 ^ 32"
proof (cases "acceptable C device se s")
  case True
  then show ?thesis
  proof (rule accept_earns)
    fix dev
    let ?B = "earn C device (dv_account_id dev) (se_e se) (book_of s)"
    assume "book_of (snd (accept_event C device se s)) = ?B"
    then have "bk_earned (book_of (snd (accept_event C device se s))) a = bk_earned ?B a" by (rule arg_cong)
    then have "micros_earned (ledger (snd (accept_event C device se s))) a = bk_earned ?B a"
      by (simp only: book_of_earned)
    moreover have "unat (imp_count (se_e se)) \<le> 4294967296" using imp_count_bound[of "se_e se"] by linarith
    ultimately show ?thesis by (simp add: earn_def book_of_earned)
  qed
next
  case False
  then obtain r where "fst (accept_event C device se s) = Inl r"
    using accept_event_iff[of C device se s] by (cases "fst (accept_event C device se s)") auto
  then show ?thesis by (simp add: accept_event_reject)
qed

lemma ingest_earned_bound:
  "micros_earned (ledger (snd (ingest C device ses s))) a \<le> micros_earned (ledger s) a + length ses * (5000 * 2 ^ 32)"
proof -
  have one: "micros_earned (ledger (snd (ingest_one C device se rs))) a \<le> micros_earned (ledger (snd rs)) a + 5000 * 2 ^ 32" for se rs
  proof -
    obtain r s1 x s2 where "rs = (r, s1)" "accept_event C device se s1 = (x, s2)" by (metis prod.collapse)
    then show ?thesis
      using accept_earned_bound[of C device se s1 a] by (cases x) (simp_all add: ingest_one_def Let_def)
  qed
  have "micros_earned (ledger (snd (fold (ingest_one C device) ses rs))) a
      \<le> micros_earned (ledger (snd rs)) a + length ses * (5000 * 2 ^ 32)" for rs
  proof (induction ses arbitrary: rs)
    case (Cons se ses)
    from Cons.IH[of "ingest_one C device se rs"] one[of se rs] show ?case by simp
  qed simp
  then show ?thesis by (force simp: ingest_def)
qed

lemma payouts_within_earnings_witness:
  "\<exists>s. reachable demo_crypto demo_argon 3 (demo_run s)
     \<and> micros_paid (ledger (demo_run s)) ''acct:d1'' \<le> micros_earned (ledger (demo_run s)) ''acct:d1''"
proof -
  obtain now env s where s: "fst (open_state demo_crypto now env empty_conn) = Inr s"
    and r: "reachable demo_crypto demo_argon 3 (demo_run s)"
    using boots[OF empty_healthy] demo_reachable by blast
  let ?a = "''acct:d1''"
  define s1 where "s1 = snd (register demo_crypto ''10.0.0.1'' [] (demo_req demo_key) 1 s)"
  define s2 where "s2 = snd (ingest demo_crypto ''d1'' [demo_signed demo_event, demo_signed demo_event] s1)"
  have "book_of s = empty_book" by (rule boot_book[OF demo_crypto_ok(2) s])
  then have "micros_earned (ledger s) ?a = 0" by (simp add: book_of_def empty_book_def fun_eq_iff)
  moreover have "ledger (mem s1) = ledger s"
    unfolding s1_def register_mem by (simp split: option.split)
  ultimately have "micros_earned (ledger s1) ?a = 0" by simp
  then have "micros_earned (ledger s2) ?a < 2 ^ 63"
    using ingest_earned_bound[of demo_crypto "''d1''" "[demo_signed demo_event, demo_signed demo_event]" s1 ?a]
    by (simp add: s2_def)
  moreover have "micros_earned (ledger (demo_run s)) ?a = micros_earned (ledger s2) ?a"
    unfolding demo_run_def s1_def[symmetric] s2_def[symmetric] by (rule redeem_earned)
  ultimately have "micros_earned (ledger (demo_run s)) ?a < 2 ^ 63" by simp
  from payouts_within_earnings[OF demo_crypto_ok(2) r _ this] r show ?thesis by auto
qed

end
