(* ===== verification/Http_Accounts.thy ===== *)
theory Http_Accounts
  imports Http_Laws
begin

section \<open>Who can change accounts and sessions\<close>

text \<open>
  The tables of accounts and sessions over the whole HTTP interface, whatever statements fail: no
  account is ever changed or removed, one is added by a signup in order only, a session is opened by
  a signup or by a login with the password of the account, and ended by its own token.
\<close>

definition vault :: "app_state \<Rightarrow> (account list \<times> (string, string \<times> i64) hmap) option" where
  "vault s = map_option (\<lambda>c. (t_accounts c, t_sessions c)) (db s)"

definition keeps_vault :: "(conn \<Rightarrow> conn) \<Rightarrow> bool" where
  "keeps_vault f \<longleftrightarrow> (\<forall>c. t_accounts (f c) = t_accounts c \<and> t_sessions (f c) = t_sessions c)"

subsection \<open>Statements and handlers on other tables\<close>

named_theorems vault_statements
  \<comment> \<open>statements that keep accounts and sessions\<close>

lemma keeps_execute:
  "(\<And>c. t_accounts (f c) = t_accounts c \<and> t_sessions (f c) = t_sessions c) \<Longrightarrow>
    keeps_vault (\<lambda>c. log_err (execute (\<lambda>c. Inr (f c)) c))"
  by (simp add: keeps_vault_def log_err_def execute_def Let_def split: list.split bool.split)

lemma keeps_writes [vault_statements]:
  "keeps_vault (kv_set k x)" "keeps_vault (upsert_device C d rec)" "keeps_vault (update_device_head d h ctr)"
  "keeps_vault (ensure_balance a)" "keeps_vault (ensure_impressions a)" "keeps_vault (set_balance a m)"
  "keeps_vault (set_impressions a n)" "keeps_vault (insert_ledger e)" "keeps_vault (insert_seen_event i)"
  "keeps_vault (insert_creative cr act created)" "keeps_vault (upsert_device_meta row)"
  unfolding kv_set_def upsert_device_def update_device_head_def ensure_balance_def ensure_impressions_def
    set_balance_def set_impressions_def insert_ledger_def insert_seen_event_def insert_creative_def
    upsert_device_meta_def
  by (rule keeps_execute, simp)+

lemma keeps_redemption [vault_statements]: "keeps_vault (insert_redemption rdm)"
  by (simp add: keeps_vault_def insert_redemption_def log_err_def execute_def Let_def
      split: list.split bool.split option.split)

lemma keeps_compose [vault_statements]:
  "keeps_vault id" "keeps_vault f \<Longrightarrow> keeps_vault g \<Longrightarrow> keeps_vault (f \<circ> g)"
  "keeps_vault (fold insert_ledger es)"
proof -
  show "keeps_vault id" "keeps_vault f \<Longrightarrow> keeps_vault g \<Longrightarrow> keeps_vault (f \<circ> g)"
    by (simp_all add: keeps_vault_def)
  show "keeps_vault (fold insert_ledger es)"
    using keeps_writes(8) by (induction es) (simp_all add: keeps_vault_def)
qed

lemma vault_with_db: "keeps_vault f \<Longrightarrow> vault (with_db f s) = vault s"
  by (cases "db s") (simp_all add: vault_def with_db_def keeps_vault_def)

lemma vault_update [simp]:
  "vault (s\<lparr>devices := a1\<rparr>) = vault s" "vault (s\<lparr>seen_event_ids := a2\<rparr>) = vault s"
  "vault (s\<lparr>ledger := a3\<rparr>) = vault s" "vault (s\<lparr>balances := a4\<rparr>) = vault s"
  "vault (s\<lparr>impressions := a5\<rparr>) = vault s" "vault (s\<lparr>clicks := a6\<rparr>) = vault s"
  "vault (s\<lparr>accepted := a7\<rparr>) = vault s" "vault (s\<lparr>rejected := a8\<rparr>) = vault s"
  "vault (s\<lparr>redemptions := a9\<rparr>) = vault s" "vault (s\<lparr>next_redemption_id := a10\<rparr>) = vault s"
  "vault (s\<lparr>creatives := a11\<rparr>) = vault s"
  by (simp_all add: vault_def)

lemma vault_db: "db s = Some c \<Longrightarrow> t_accounts c' = t_accounts c \<Longrightarrow> t_sessions c' = t_sessions c \<Longrightarrow>
    vault (s\<lparr>db := Some c'\<rparr>) = vault s"
  by (simp add: vault_def)

lemma vault_register: "vault (snd (register C peer hs req now s)) = vault s"
  by (simp add: register_def Let_def vault_with_db vault_statements split: option.split)

lemma vault_accept: "vault (snd (accept_event C device se s)) = vault s"
  by (auto simp: accept_event_def accrue_def Let_def vault_with_db vault_statements split: option.split prod.split)

lemma vault_ingest: "vault (snd (ingest C device ses s)) = vault s"
proof -
  have one: "vault (snd (ingest_one C device se (r, s'))) = vault s'" for se r s'
    using vault_accept[of C device se s']
    by (auto simp: ingest_one_def Let_def vault_with_db vault_statements split: prod.split sum.split)
  have "vault (snd (fold (ingest_one C device) ses rs)) = vault (snd rs)" for rs
    using one by (induction ses arbitrary: rs) (simp_all, metis prod.collapse)
  then show ?thesis by (simp add: ingest_def)
qed

lemma vault_click: "vault (snd (click code s)) = vault s"
  by (simp add: click_def Let_def vault_with_db vault_statements split: option.split)

lemma vault_redeem: "vault (snd (redeem order rail amount s)) = vault s"
  by (simp add: redeem_def Let_def vault_with_db vault_statements split: option.split prod.split)

lemma vault_queries:
  "load_creatives c = (r1, c') \<Longrightarrow> t_accounts c' = t_accounts c \<and> t_sessions c' = t_sessions c"
  "list_device_meta c = (r2, c') \<Longrightarrow> t_accounts c' = t_accounts c \<and> t_sessions c' = t_sessions c"
  "delete_creative cid c = (n, c') \<Longrightarrow> t_accounts c' = t_accounts c \<and> t_sessions c' = t_sessions c"
  unfolding load_creatives_def list_device_meta_def
  by (auto dest!: query_tables simp: delete_creative_def execute_def Let_def split: list.splits bool.splits)

lemma vault_admin:
  "vault (snd (admin_list_creatives hs s)) = vault s"
  "vault (snd (admin_create_creative C hs r1 r2 new now s)) = vault s"
  "vault (snd (admin_delete_creative hs cid s)) = vault s"
  "vault (snd (admin_list_devices hs s)) = vault s"
proof -
  show "vault (snd (admin_list_creatives hs s)) = vault s"
    by (auto simp: admin_list_creatives_def vault_def split: auth_splits dest: vault_queries)
  show "vault (snd (admin_create_creative C hs r1 r2 new now s)) = vault s"
    by (auto simp: admin_create_creative_def Let_def vault_with_db vault_statements split: auth_splits)
  show "vault (snd (admin_delete_creative hs cid s)) = vault s"
    by (auto simp: admin_delete_creative_def vault_def split: auth_splits dest: vault_queries)
  show "vault (snd (admin_list_devices hs s)) = vault s"
    by (auto simp: admin_list_devices_def Let_def vault_def split: auth_splits dest: vault_queries)
qed

subsection \<open>The statements of the auth handlers\<close>

lemma auth_queries:
  "find_account_by_email m c = (r1, c') \<Longrightarrow> t_accounts c' = t_accounts c \<and> t_sessions c' = t_sessions c
     \<and> (\<forall>a. r1 = Inr a \<longrightarrow> a = find (\<lambda>a. ac_email a = m) (t_accounts c))"
  "find_account_by_id i c = (r2, c') \<Longrightarrow> t_accounts c' = t_accounts c \<and> t_sessions c' = t_sessions c"
  "find_session tok c = (r3, c') \<Longrightarrow> t_accounts c' = t_accounts c \<and> t_sessions c' = t_sessions c"
  unfolding find_account_by_email_def find_account_by_id_def find_session_def
  by (auto simp: query_def Let_def split: list.splits bool.splits)

lemma auth_writes:
  "insert_account i m p c = (r1, c') \<Longrightarrow> t_sessions c' = t_sessions c
     \<and> (if r1 = Inr () then t_accounts c' = t_accounts c @ [\<lparr>ac_id = i, ac_email = m, ac_password_phc = p\<rparr>]
            \<and> i \<notin> ac_id ` set (t_accounts c) \<and> m \<notin> ac_email ` set (t_accounts c)
        else t_accounts c' = t_accounts c)"
  "insert_session tok i now c = (r2, c') \<Longrightarrow> t_accounts c' = t_accounts c
     \<and> (if r2 = Inr () then hm_get (t_sessions c) tok = None \<and> t_sessions c' = hm_insert tok (i, now) (t_sessions c)
        else t_sessions c' = t_sessions c)"
  "delete_session tok c = (r3, c') \<Longrightarrow> t_accounts c' = t_accounts c
     \<and> (if r3 = Inr () then t_sessions c' = hm_remove tok (t_sessions c) else t_sessions c' = t_sessions c)"
  unfolding insert_account_def insert_session_def delete_session_def
  by (erule execute_cases; force simp: list_ex_iff split: if_splits option.splits)+

subsection \<open>The property\<close>

text \<open>A signup in order: the request, the checks it passed and the row it adds.\<close>

definition signed_up :: "web \<Rightarrow> crypto \<Rightarrow> argon \<Rightarrow> http_env \<Rightarrow> http_request \<Rightarrow> account list \<Rightarrow> account list \<Rightarrow> bool" where
  "signed_up W C A env r accts accts' \<longleftrightarrow>
     (\<exists>cs req a. endpoint_of r = Some (Signup, cs) \<and> request_reads W r de_auth_req = Some req
        \<and> ac_email a = trim (aq_email req) \<and> email_looks_valid (ac_email a) \<and> 8 \<le> length (aq_password req)
        \<and> ac_id a = ''acct:user:'' @ short_id C (he_rnd2 env)
        \<and> ar_hash A (he_rnd1 env) (aq_password req) = Some (ac_password_phc a)
        \<and> ac_id a \<notin> ac_id ` set accts \<and> ac_email a \<notin> ac_email ` set accts
        \<and> accts' = accts @ [a])"

text \<open>A session opened: by the login with the password of an account, or for the account just added.\<close>

definition opened :: "web \<Rightarrow> crypto \<Rightarrow> argon \<Rightarrow> http_env \<Rightarrow> http_request \<Rightarrow> account list \<Rightarrow> account list \<Rightarrow>
    (string, string \<times> i64) hmap \<Rightarrow> (string, string \<times> i64) hmap \<Rightarrow> bool" where
  "opened W C A env r accts accts' ses ses' \<longleftrightarrow>
     (\<exists>cs req a. request_reads W r de_auth_req = Some req \<and> ac_email a = trim (aq_email req)
        \<and> (endpoint_of r = Some (Login, cs) \<and> a \<in> set accts \<and> accts' = accts
             \<and> ar_verify A (aq_password req) (ac_password_phc a)
           \<or> signed_up W C A env r accts accts' \<and> a = last accts')
        \<and> hm_get ses (new_token C (he_rnd3 env)) = None
        \<and> ses' = hm_insert (new_token C (he_rnd3 env)) (ac_id a, he_now env) ses)"

definition closed :: "http_request \<Rightarrow> (string, string \<times> i64) hmap \<Rightarrow> (string, string \<times> i64) hmap \<Rightarrow> bool" where
  "closed r ses ses' \<longleftrightarrow>
     (\<exists>cs tok. endpoint_of r = Some (Logout, cs) \<and> bearer_token (hr_headers r) = Some tok
        \<and> ses' = hm_remove tok ses)"

lemma signup_vault:
  assumes "endpoint_of r = Some (Signup, cs)" "request_reads W r de_auth_req = Some req" "db s = Some c"
    and "signup A C (he_rnd1 env) (he_rnd2 env) (he_rnd3 env) (he_now env) req s = (x, s')"
  shows "\<exists>c'. db s' = Some c'
    \<and> (case x of Inl _ \<Rightarrow> t_sessions c' = t_sessions c
         \<and> (t_accounts c' = t_accounts c \<or> signed_up W C A env r (t_accounts c) (t_accounts c'))
       | Inr _ \<Rightarrow> signed_up W C A env r (t_accounts c) (t_accounts c')
         \<and> opened W C A env r (t_accounts c) (t_accounts c') (t_sessions c) (t_sessions c'))"
proof -
  let ?m = "trim (aq_email req)" and ?t = "new_token C (he_rnd3 env)"
  define i where "i = ''acct:user:'' @ short_id C (he_rnd2 env)"
  note S = assms(4)[unfolded signup_def Let_def i_def[symmetric]]
  have add: "signed_up W C A env r as (as @ [\<lparr>ac_id = i, ac_email = ?m, ac_password_phc = phc\<rparr>])"
    if "email_looks_valid ?m" "\<not> length (aq_password req) < 8" "ar_hash A (he_rnd1 env) (aq_password req) = Some phc"
      "i \<notin> ac_id ` set as" "?m \<notin> ac_email ` set as" for as phc
    using that assms(1,2) unfolding signed_up_def i_def[symmetric]
    by (intro exI[of _ cs] exI[of _ req] exI[of _ "\<lparr>ac_id = i, ac_email = ?m, ac_password_phc = phc\<rparr>"]) simp
  have new: "opened W C A env r as (as @ [\<lparr>ac_id = i, ac_email = ?m, ac_password_phc = phc\<rparr>]) ses (hm_insert ?t (i, he_now env) ses)"
    if "signed_up W C A env r as (as @ [\<lparr>ac_id = i, ac_email = ?m, ac_password_phc = phc\<rparr>])" "hm_get ses ?t = None" for as phc ses
    using that assms(2) unfolding opened_def
    by (intro exI[of _ cs] exI[of _ req] exI[of _ "\<lparr>ac_id = i, ac_email = ?m, ac_password_phc = phc\<rparr>"]) simp
  show ?thesis
    using S assms(3)
    by (auto split: if_splits option.splits prod.splits sum.splits
        dest!: auth_queries auth_writes intro!: add new)
qed

lemma login_vault:
  assumes "endpoint_of r = Some (Login, cs)" "request_reads W r de_auth_req = Some req" "db s = Some c"
    and "login A C (he_rnd3 env) (he_now env) req s = (x, s')"
  shows "\<exists>c'. db s' = Some c' \<and> t_accounts c' = t_accounts c
    \<and> (case x of Inl _ \<Rightarrow> t_sessions c' = t_sessions c
       | Inr _ \<Rightarrow> opened W C A env r (t_accounts c) (t_accounts c') (t_sessions c) (t_sessions c'))"
proof -
  let ?t = "new_token C (he_rnd3 env)"
  have new: "opened W C A env r as as ses (hm_insert ?t (ac_id a, he_now env) ses)"
    if "find (\<lambda>a. ac_email a = trim (aq_email req)) as = Some a" "ar_verify A (aq_password req) (ac_password_phc a)"
      "hm_get ses ?t = None" for as ses a
    using that assms(1,2) unfolding opened_def
    by (intro exI[of _ cs] exI[of _ req] exI[of _ a]) (auto simp: find_Some_iff)
  show ?thesis
    using assms(3,4)
    by (auto simp: login_def Let_def split: if_splits option.splits prod.splits sum.splits
        dest!: auth_queries auth_writes intro!: new)
qed

lemma me_vault: "vault (snd (me hs s)) = vault s"
  by (auto simp: me_def vault_def split: auth_splits dest!: auth_queries)

lemma logout_vault:
  assumes "endpoint_of r = Some (Logout, cs)" "db s = Some c" "logout (hr_headers r) s = (x, s')"
  shows "\<exists>c'. db s' = Some c' \<and> t_accounts c' = t_accounts c
    \<and> (case x of Inl _ \<Rightarrow> t_sessions c' = t_sessions c | Inr _ \<Rightarrow> closed r (t_sessions c) (t_sessions c'))"
  using assms(2,3) assms(1)
  by (auto simp: logout_def closed_def split: option.splits prod.splits sum.splits dest!: auth_writes)

lemma auth_refusals:
  "fst (signup A C r1 r2 r3 now req s) = Inl e \<Longrightarrow> 400 \<le> fst e"
  "fst (login A C r3 now req s) = Inl e \<Longrightarrow> 400 \<le> fst e"
  "fst (logout hs s) = Inl e \<Longrightarrow> 400 \<le> fst e"
  by (auto simp: signup_def login_def logout_def Let_def split: if_splits option.splits prod.splits sum.splits)

lemmas vault_rules = with_body_rule[where P = "\<lambda>rs. vault (snd rs) = vault s" for s]
  with_path_rule[where P = "\<lambda>rs. vault (snd rs) = vault s" for s]

lemma endpoint_vault:
  assumes "e \<notin> {Signup, Login, Logout}" shows "vault (snd (endpoint_run W C A env r cs e s)) = vault s"
  by (insert assms, cases e; simp only: endpoint_run.simps; (rule vault_rules, simp)?)
    (simp_all add: vault_register vault_ingest vault_click vault_redeem vault_admin me_vault)

text \<open>What a request did to the tables of accounts and sessions, as the response tells it.\<close>

definition guarded :: "web \<Rightarrow> crypto \<Rightarrow> argon \<Rightarrow> http_env \<Rightarrow> http_request \<Rightarrow> response \<Rightarrow> conn \<Rightarrow> conn \<Rightarrow> bool" where
  "guarded W C A env r resp c c' \<longleftrightarrow>
     (t_accounts c' = t_accounts c \<or> signed_up W C A env r (t_accounts c) (t_accounts c'))
   \<and> (t_sessions c' = t_sessions c
        \<or> (fst resp < 400 \<and> (closed r (t_sessions c) (t_sessions c')
             \<or> opened W C A env r (t_accounts c) (t_accounts c') (t_sessions c) (t_sessions c'))))
   \<and> (fst resp < 400 \<longrightarrow> (case endpoint_of r of
        Some (Signup, _) \<Rightarrow> request_reads W r de_auth_req \<noteq> None \<longrightarrow>
          signed_up W C A env r (t_accounts c) (t_accounts c')
          \<and> opened W C A env r (t_accounts c) (t_accounts c') (t_sessions c) (t_sessions c')
      | Some (Login, _) \<Rightarrow> request_reads W r de_auth_req \<noteq> None \<longrightarrow>
          opened W C A env r (t_accounts c) (t_accounts c') (t_sessions c) (t_sessions c')
      | Some (Logout, _) \<Rightarrow> closed r (t_sessions c) (t_sessions c')
      | _ \<Rightarrow> True))"

text \<open>
  C37: nobody's account is touched and no session is had without the password. On every route and
  whatever statements fail on disk, a request leaves the accounts as they were, or it is a signup with
  a valid e-mail and a password of at least eight bytes that adds one row, with the hash of that
  password under an e-mail and an id no other account has. It leaves the sessions as they were, or
  it opens one session under a new token, for the account just added or for an account whose e-mail
  and password a login gave, or it ends the session whose token it bears; and the answer tells
  which: an error left the sessions alone, and a success did what it says.
\<close>

theorem accounts_guarded:
  assumes "db s = Some c" "app W C A env r s = (resp, s')"
  shows "\<exists>c'. db s' = Some c' \<and> guarded W C A env r resp c c'"
proof (cases "endpoint_of r")
  case None
  then have "s' = s" using app_None[OF None, of W C A env s] assms(2) by auto
  with assms(1) None show ?thesis by (simp add: guarded_def)
next
  case (Some p)
  obtain e cs where p: "p = (e, cs)" by force
  have run: "endpoint_run W C A env r cs e s = (resp, s')"
    using assms(2) app_Some[OF Some[unfolded p]] by simp
  note ep = Some[unfolded p]
  show ?thesis
  proof (cases "e \<in> {Signup, Login, Logout}")
    case False
    then have "vault s' = vault s" using endpoint_vault[OF False, of W C A env r cs s] run by simp
    then obtain c' where "db s' = Some c'" "t_accounts c' = t_accounts c" "t_sessions c' = t_sessions c"
      using assms(1) by (cases "db s'") (auto simp: vault_def)
    moreover from this False have "guarded W C A env r resp c c'"
      by (auto simp: guarded_def ep split: endpoint.split)
    ultimately show ?thesis by blast
  next
    case True
    then consider "e = Signup" | "e = Login" | "e = Logout" by blast
    then show ?thesis
    proof cases
      case 1
      note ep = ep[unfolded 1]
      show ?thesis
      proof (cases "request_reads W r de_auth_req")
        case None
        then show ?thesis using run assms(1) by (auto simp: 1 with_body_def guarded_def ep)
      next
        case (Some req)
        obtain x s1 where x: "signup A C (he_rnd1 env) (he_rnd2 env) (he_rnd3 env) (he_now env) req s = (x, s1)" by force
        have "s' = s1" "fst resp = (case x of Inl e \<Rightarrow> fst e | Inr _ \<Rightarrow> 201)"
          using run by (auto simp: 1 with_body_def Some x respond_def auth_error_def split: sum.split)
        with signup_vault[OF ep Some assms(1) x] auth_refusals(1)[of A C "he_rnd1 env" "he_rnd2 env" "he_rnd3 env" "he_now env" req s, unfolded x] show ?thesis
          by (auto simp: guarded_def ep Some split: sum.splits)
      qed
    next
      case 2
      note ep = ep[unfolded 2]
      show ?thesis
      proof (cases "request_reads W r de_auth_req")
        case None
        then show ?thesis using run assms(1) by (auto simp: 2 with_body_def guarded_def ep)
      next
        case (Some req)
        obtain x s1 where x: "login A C (he_rnd3 env) (he_now env) req s = (x, s1)" by force
        have "s' = s1" "fst resp = (case x of Inl e \<Rightarrow> fst e | Inr _ \<Rightarrow> 200)"
          using run by (auto simp: 2 with_body_def Some x respond_def auth_error_def split: sum.split)
        with login_vault[OF ep Some assms(1) x] auth_refusals(2)[of A C "he_rnd3 env" "he_now env" req s, unfolded x] show ?thesis
          by (auto simp: guarded_def ep Some split: sum.splits)
      qed
    next
      case 3
      note ep = ep[unfolded 3]
      obtain x s1 where x: "logout (hr_headers r) s = (x, s1)" by force
      have "s' = s1" "fst resp = (case x of Inl e \<Rightarrow> fst e | Inr _ \<Rightarrow> 200)"
        using run by (auto simp: 3 x respond_def auth_error_def split: sum.split)
      with logout_vault[OF ep assms(1) x] auth_refusals(3)[of "hr_headers r" s, unfolded x] show ?thesis
        by (auto simp: guarded_def ep split: sum.splits)
    qed
  qed
qed

text \<open>A signup over HTTP on an empty server: one account, and one session for it.\<close>

lemma accounts_guarded_witness:
  "\<exists>resp s' c' a. app (demo_web (JObject [(''email'', JString ''a@b.co''), (''password'', JString ''password'')]))
        demo_crypto demo_argon (demo_env\<lparr>he_rnd1 := ''s'', he_rnd2 := ''i'', he_rnd3 := ''t'', he_now := 0\<rparr>)
        (http_req POST ''/v1/signup'') empty_server = (resp, s')
     \<and> db s' = Some c' \<and> t_accounts c' = [a] \<and> ac_email a = ''a@b.co'' \<and> map (fst \<circ> snd) (t_sessions c') = [ac_id a]"
proof -
  let ?W = "demo_web (JObject [(''email'', JString ''a@b.co''), (''password'', JString ''password'')])"
  let ?r = "http_req POST ''/v1/signup''"
  let ?env = "demo_env\<lparr>he_rnd1 := ''s'', he_rnd2 := ''i'', he_rnd3 := ''t'', he_now := 0\<rparr>"
  obtain resp s' where a: "app ?W demo_crypto demo_argon ?env ?r empty_server = (resp, s')" by (rule prod.exhaust)
  have e: "endpoint_of ?r = Some (Signup, [])" by code_simp
  have q: "request_reads ?W ?r de_auth_req = Some demo_signup"
    by (simp add: request_reads_def demo_web_def http_req_def BODY_LIMIT_def de_auth_req_def required_def
        field_def demo_signup_def)
  have "fst resp = 201"
    using a demo_signup_ok unfolding app_Some[OF e] by (auto simp: with_body_def q respond_def)
  moreover have d: "db empty_server = Some empty_conn" by (simp add: empty_server_def)
  obtain c' where c': "db s' = Some c'" "guarded ?W demo_crypto demo_argon ?env ?r resp empty_conn c'"
    using accounts_guarded[OF d a] by blast
  ultimately have "signed_up ?W demo_crypto demo_argon ?env ?r [] (t_accounts c')"
    "opened ?W demo_crypto demo_argon ?env ?r [] (t_accounts c') [] (t_sessions c')"
    by (simp_all add: guarded_def e q empty_conn_def)
  then obtain acc where "t_accounts c' = [acc]" "ac_email acc = trim ''a@b.co''"
    "map (fst \<circ> snd) (t_sessions c') = [ac_id acc]"
    by (auto simp: signed_up_def opened_def q e demo_signup_def hm_insert_def)
  moreover have "trim ''a@b.co'' = ''a@b.co''"
    by (rule trim_all_solid) (auto intro!: solid_ascii simp: byte_val_def)
  ultimately show ?thesis using a c'(1) by auto
qed

end
