(* ===== verification/Json_Demo.thy ===== *)
theory Json_Demo
  imports Settings
begin

section \<open>An instance of the JSON library\<close>

text \<open>
  A printer and a parser with the laws of \<open>json_lib_ok\<close>, on which the witnesses run: a prefix code
  with a fuelled decoder, the fuel being the length of the input.
\<close>

fun enc_str :: "string \<Rightarrow> bytes" where
  "enc_str [] = ''.''"
| "enc_str (c # cs) = CHR ''c'' # c # enc_str cs"

fun dec_str :: "bytes \<Rightarrow> (string \<times> bytes) option" where
  "dec_str [] = None"
| "dec_str [c] = (if c = CHR ''.'' then Some ([], []) else None)"
| "dec_str (c # x # s) =
     (if c = CHR ''.'' then Some ([], x # s)
      else if c = CHR ''c'' then map_option (\<lambda>(t, r). (x # t, r)) (dec_str s) else None)"

fun enc :: "json \<Rightarrow> bytes" where
  "enc JNull = ''n''"
| "enc (JBool b) = (if b then ''t'' else ''f'')"
| "enc (JNumber (PosInt w)) = CHR ''p'' # enc_str (show_nat (unat w))"
| "enc (JNumber (NegInt w)) = CHR ''m'' # enc_str (show_nat (unat w))"
| "enc (JNumber (Float w)) = ''d''"
| "enc (JString s) = CHR ''s'' # enc_str s"
| "enc (JArray xs) = CHR ''a'' # concat (map (\<lambda>x. CHR '','' # enc x) xs) @ ''.''"
| "enc (JObject m) = CHR ''o'' # concat (map (\<lambda>kv. CHR '','' # enc_str (fst kv) @ enc (snd kv)) m) @ ''.''"

definition dec_num :: "(u64 \<Rightarrow> json) \<Rightarrow> bytes \<Rightarrow> (json \<times> bytes) option" where
  "dec_num f s = (case dec_str s of None \<Rightarrow> None
     | Some (t, r) \<Rightarrow> (case parse_u64 t of None \<Rightarrow> None | Some w \<Rightarrow> Some (f w, r)))"

fun dec :: "nat \<Rightarrow> bytes \<Rightarrow> (json \<times> bytes) option"
  and dec_items :: "nat \<Rightarrow> bytes \<Rightarrow> (json list \<times> bytes) option"
  and dec_members :: "nat \<Rightarrow> bytes \<Rightarrow> (json_map \<times> bytes) option" where
  "dec 0 s = None"
| "dec (Suc n) s = (case s of [] \<Rightarrow> None | c # t \<Rightarrow>
     if c = CHR ''n'' then Some (JNull, t)
     else if c = CHR ''t'' then Some (JBool True, t)
     else if c = CHR ''f'' then Some (JBool False, t)
     else if c = CHR ''p'' then dec_num (\<lambda>w. JNumber (PosInt w)) t
     else if c = CHR ''m'' then dec_num (\<lambda>w. JNumber (NegInt w)) t
     else if c = CHR ''s'' then map_option (\<lambda>(x, r). (JString x, r)) (dec_str t)
     else if c = CHR ''a'' then map_option (\<lambda>(x, r). (JArray x, r)) (dec_items n t)
     else if c = CHR ''o'' then map_option (\<lambda>(x, r). (JObject x, r)) (dec_members n t)
     else None)"
| "dec_items 0 s = None"
| "dec_items (Suc n) s = (case s of [] \<Rightarrow> None | c # t \<Rightarrow>
     if c = CHR ''.'' then Some ([], t)
     else (case dec n t of None \<Rightarrow> None
       | Some (x, r) \<Rightarrow> map_option (\<lambda>(xs, r'). (x # xs, r')) (dec_items n r)))"
| "dec_members 0 s = None"
| "dec_members (Suc n) s = (case s of [] \<Rightarrow> None | c # t \<Rightarrow>
     if c = CHR ''.'' then Some ([], t)
     else (case dec_str t of None \<Rightarrow> None
       | Some (k, r) \<Rightarrow> (case dec n r of None \<Rightarrow> None
           | Some (x, r') \<Rightarrow> map_option (\<lambda>(m, r''). ((k, x) # m, r'')) (dec_members n r'))))"

lemma dec_enc_str [simp]: "dec_str (enc_str t @ r) = Some (t, r)"
proof (induction t)
  case Nil
  then show ?case by (cases r) simp_all
qed simp

lemma dec_num_enc [simp]: "dec_num f (enc_str (show_nat (unat w)) @ r) = Some (f w, r)"
  by (simp add: dec_num_def parse_u64_show del: show_nat.simps)

lemma dec_enc:
  "no_floats v \<Longrightarrow> length (enc v) \<le> n \<Longrightarrow> dec n (enc v @ r) = Some (v, r)"
proof (induction v arbitrary: n r rule: enc.induct)
  case (7 xs)
  obtain n' where n: "n = Suc n'" using "7.prems"(2) by (cases n) auto
  have "(\<forall>x \<in> set ys. no_floats x) \<Longrightarrow> set ys \<subseteq> set xs \<Longrightarrow>
      length (concat (map (\<lambda>x. CHR '','' # enc x) ys)) < k \<Longrightarrow>
      dec_items k (concat (map (\<lambda>x. CHR '','' # enc x) ys) @ CHR ''.'' # r) = Some (ys, r)" for ys k
  proof (induction ys arbitrary: k)
    case Nil
    then show ?case by (cases k) simp_all
  next
    case (Cons y ys)
    then obtain k' where k: "k = Suc k'" by (cases k) auto
    from Cons "7.IH"[of y k'] show ?case by (simp add: k)
  qed
  from this[of xs n'] "7.prems" show ?case by (simp add: n list_all_iff)
next
  case (8 m)
  obtain n' where n: "n = Suc n'" using "8.prems"(2) by (cases n) auto
  have "(\<forall>x \<in> set ys. no_floats (snd x)) \<Longrightarrow> set ys \<subseteq> set m \<Longrightarrow>
      length (concat (map (\<lambda>kv. CHR '','' # enc_str (fst kv) @ enc (snd kv)) ys)) < k \<Longrightarrow>
      dec_members k (concat (map (\<lambda>kv. CHR '','' # enc_str (fst kv) @ enc (snd kv)) ys) @ CHR ''.'' # r)
        = Some (ys, r)" for ys k
  proof (induction ys arbitrary: k)
    case Nil
    then show ?case by (cases k) simp_all
  next
    case (Cons y ys)
    then obtain k' where k: "k = Suc k'" by (cases k) auto
    from Cons "8.IH"[of y k'] show ?case by (simp add: k)
  qed
  from this[of m n'] "8.prems" show ?case by (simp add: n list_all_iff)
next
  case (1)
  then show ?case by (cases n) (simp_all del: show_nat.simps)
next
  case (2 b)
  then show ?case by (cases n; cases b) (simp_all del: show_nat.simps)
next
  case (3 w)
  then show ?case by (cases n) (simp_all del: show_nat.simps)
next
  case (4 w)
  then show ?case by (cases n) (simp_all del: show_nat.simps)
next
  case (5 w)
  then show ?case by (cases n) (simp_all del: show_nat.simps)
next
  case (6 s)
  then show ?case by (cases n) (simp_all del: show_nat.simps)
qed

definition demo_json :: json_lib where
  "demo_json = \<lparr>
     parse_json = (\<lambda>b. case dec (length b) b of
         Some (v, r) \<Rightarrow> if r = [newline] \<and> json_wf v \<and> json_depth v < 128 then Some v else None
       | None \<Rightarrow> None),
     print_json = (\<lambda>v. Some (enc v))\<rparr>"

lemma demo_json_ok: "json_lib_ok demo_json"
proof -
  have "parse_json demo_json (enc v @ [newline]) = Some v" if "plain_json v" for v
  proof -
    have "dec (length (enc v @ [newline])) (enc v @ [newline]) = Some (v, [newline])"
      using that by (intro dec_enc) (simp_all add: plain_json_def)
    then show ?thesis using that by (simp add: demo_json_def plain_json_def del: length_append)
  qed
  then show ?thesis
    by (auto simp: json_lib_ok_def demo_json_def split: option.splits if_splits)
qed

end
