(* ===== verification/Settings_Laws.thy ===== *)
theory Settings_Laws
  imports Json_Demo
begin

section \<open>What the settings operations promise (spnr-settings, spnr-adapters)\<close>

text \<open>
  The operations in any order, with writes of the host and the user in between, and the adapter
  that wraps them (\<^verbatim>\<open>ClaudeCodeCli\<close>). The interface \<open>host_adapter\<close> is the contract of the trait
  \<^verbatim>\<open>HostAdapter\<close>: after whatever happened, a restore gives the host its stock settings back.
\<close>

subsection \<open>Operations in any order\<close>

datatype settings_op =
    OpSnapshot | OpInject "string list" "string option" | OpInjectHooks string | OpRemoveHooks
  | OpRestore | OpForeign "bytes option"

text \<open>\<open>OpForeign\<close>: the host or the user writes or deletes the settings file.\<close>

fun settings_step :: "json_lib \<Rightarrow> string \<Rightarrow> string \<Rightarrow> settings_op \<Rightarrow> disk \<Rightarrow> disk" where
  "settings_step L p b OpSnapshot d = snd (snapshot L p b d)"
| "settings_step L p b (OpInject verbs sl) d = snd (inject L p verbs sl d)"
| "settings_step L p b (OpInjectHooks c) d = snd (inject_hooks L p c d)"
| "settings_step L p b OpRemoveHooks d = snd (remove_hooks L p d)"
| "settings_step L p b OpRestore d = snd (restore L p b d)"
| "settings_step L p b (OpForeign (Some c)) d = d\<lparr>files := hm_insert p c (files d)\<rparr>"
| "settings_step L p b (OpForeign None) d = d\<lparr>files := hm_remove p (files d)\<rparr>"

lemma whole_write_other: "whole_write L p m d res \<Longrightarrow> q \<noteq> p \<Longrightarrow> hm_get (files (snd res)) q = hm_get (files d) q"
  by (auto simp: whole_write_def maps split: sum.splits option.splits)

lemma restore_other:
  assumes "q \<noteq> p" shows "hm_get (files (snd (restore L p b d))) q = hm_get (files d) q"
proof -
  obtain r d' where r: "restore L p b d = (r, d')" by force
  then show ?thesis by (rule restore_files) (simp_all add: r maps assms)
qed

text \<open>Once there is a backup, nothing changes it.\<close>

lemma backup_kept:
  assumes "p \<noteq> b" "hm_get (files d) b = Some snap"
  shows "hm_get (files (settings_step L p b op d)) b = Some snap"
proof (cases op)
  case OpSnapshot
  with assms show ?thesis by (simp add: snapshot_def)
next
  case (OpForeign c)
  with assms show ?thesis by (cases c) (simp_all add: maps)
qed (use assms whole_write_other[OF inject_whole, of b p] whole_write_other[OF inject_hooks_whole, of b p]
    whole_write_other[OF remove_hooks_whole, of b p] restore_other[of b p L b d] in simp_all)

lemma backup_kept_run:
  assumes "p \<noteq> b"
  shows "hm_get (files d) b = Some snap \<Longrightarrow> hm_get (files (fold (settings_step L p b) ops d)) b = Some snap"
  by (induction ops arbitrary: d) (simp_all add: backup_kept[OF assms])

lemma read_object_plain:
  assumes "json_lib_ok L" "read_object L p d = (Inr m, d1)" "no_floats (JObject m)"
  shows "plain_json (JObject m)"
proof -
  have "m = [] \<or> (\<exists>c. parse_json L c = Some (JObject m))"
    using assms(2) by (auto simp: read_object_def split: prod.splits read_result.splits option.splits json.splits)
  then show ?thesis
  proof
    assume "m = []" then show ?thesis by (simp add: plain_json_def)
  next
    assume "\<exists>c. parse_json L c = Some (JObject m)"
    with assms(1) have "json_wf (JObject m) \<and> json_depth (JObject m) < 128"
      unfolding json_lib_ok_def by blast
    with assms(3) show ?thesis unfolding plain_json_def by blast
  qed
qed

lemma snapshot_content:
  assumes "json_lib_ok L" "hm_get (files d) b = None" "read_object L p d = (Inr m, d0)"
    and "no_floats (JObject m)" "snapshot L p b d = (Inr (), d1)"
  shows "\<exists>snap. hm_get (files d1) b = Some snap \<and> parse_json L snap = Some (JObject m)"
proof -
  have w: "write_object L b m d0 = (Inr (), d1)" using assms(2,3,5) by (simp add: snapshot_def)
  obtain c where c: "serialize L m = Inr c" "parse_json L c = Some (JObject m)"
    using serialize_parses[OF assms(1) read_object_plain[OF assms(1,3,4)]] by blast
  from w show ?thesis by (rule write_object_cases) (use c in \<open>auto simp: maps\<close>)
qed

subsection \<open>The adapter and its contract\<close>

datatype event_source = Hooks | JsonlReconcile

record claude_code_cli =
  settings_path :: string
  backup_path :: string
  verbs :: "string list"
  statusline :: "string option"

definition try_inject :: "json_lib \<Rightarrow> claude_code_cli \<Rightarrow> disk \<Rightarrow> (settings_error + unit) \<times> disk" where
  "try_inject L A d =
     (case snapshot L (settings_path A) (backup_path A) d of
        (Inl e, d1) \<Rightarrow> (Inl e, d1)
      | (Inr _, d1) \<Rightarrow> inject L (settings_path A) (verbs A) (statusline A) d1)"

definition try_restore :: "json_lib \<Rightarrow> claude_code_cli \<Rightarrow> disk \<Rightarrow> (settings_error + unit) \<times> disk" where
  "try_restore L A = restore L (settings_path A) (backup_path A)"

definition adapter_inject :: "json_lib \<Rightarrow> claude_code_cli \<Rightarrow> disk \<Rightarrow> disk" where
  "adapter_inject L A d = snd (try_inject L A d)"

definition adapter_restore :: "json_lib \<Rightarrow> claude_code_cli \<Rightarrow> disk \<Rightarrow> disk" where
  "adapter_restore L A d = snd (try_restore L A d)"

definition adapter_event_source :: "claude_code_cli \<Rightarrow> event_source" where
  "adapter_event_source A = Hooks"

text \<open>
  The contract: \<open>stock\<close> is the snapshot, if there is one, \<open>host\<close> the host's file, and \<open>sound\<close> says
  that no fault is to come. No call changes the snapshot, and a restore brings it to the host.
\<close>

locale host_adapter =
  fixes inject_m restore_m :: "'d \<Rightarrow> 'd" and host stock :: "'d \<Rightarrow> bytes option" and sound :: "'d \<Rightarrow> bool"
  assumes inject_stock: "stock d = Some c \<Longrightarrow> stock (inject_m d) = Some c"
    and restore_stock: "stock d = Some c \<Longrightarrow> stock (restore_m d) = Some c"
    and restore_host: "sound d \<Longrightarrow> stock d = Some c \<Longrightarrow> host (restore_m d) = Some c"
    and sound_inject: "sound d \<Longrightarrow> sound (inject_m d)"
    and sound_restore: "sound d \<Longrightarrow> sound (restore_m d)"
begin

fun drive :: "bool list \<Rightarrow> 'd \<Rightarrow> 'd" where
  "drive [] d = d"
| "drive (b # bs) d = drive bs (if b then inject_m d else restore_m d)"

lemma drive_stock: "stock d = Some c \<Longrightarrow> stock (drive bs d) = Some c"
  by (induction bs arbitrary: d) (simp_all add: inject_stock restore_stock)

lemma drive_sound: "sound d \<Longrightarrow> sound (drive bs d)"
  by (induction bs arbitrary: d) (simp_all add: sound_inject sound_restore)

lemma restore_always_works: "sound d \<Longrightarrow> stock d = Some c \<Longrightarrow> host (restore_m (drive bs d)) = Some c"
  by (rule restore_host[OF drive_sound drive_stock])

lemma restore_idempotent:
  "sound d \<Longrightarrow> stock d = Some c \<Longrightarrow> host (restore_m (restore_m d)) = host (restore_m d)"
  by (simp add: restore_host sound_restore restore_stock)

end

definition adapter_stock :: "json_lib \<Rightarrow> claude_code_cli \<Rightarrow> disk \<Rightarrow> bytes option" where
  "adapter_stock L A d =
     (case hm_get (files d) (backup_path A) of
        None \<Rightarrow> None
      | Some c \<Rightarrow> if settings_path A \<noteq> backup_path A \<and> parse_json L c \<noteq> None then Some c else None)"

definition adapter_host :: "claude_code_cli \<Rightarrow> disk \<Rightarrow> bytes option" where
  "adapter_host A d = hm_get (files d) (settings_path A)"

definition fault_free :: "disk \<Rightarrow> bool" where
  "fault_free d \<longleftrightarrow> reads d = [] \<and> writes d = []"

lemma fault_free_read: "fault_free d \<Longrightarrow> fault_free (snd (read_file p d))"
  by (simp add: fault_free_def read_file_def Let_def split: option.split)

lemma fault_free_write_object: "fault_free d \<Longrightarrow> fault_free (snd (write_object L p m d))"
  by (simp add: fault_free_def write_object_def atomic_write_def Let_def split: sum.split)

lemma fault_free_object: "fault_free d \<Longrightarrow> read_object L p d = (r, d1) \<Longrightarrow> fault_free d1"
  using fault_free_read[of d p] read_object_disk[of L p d] by simp

lemma fault_free_snapshot: "fault_free d \<Longrightarrow> fault_free (snd (snapshot L p b d))"
  by (auto simp: snapshot_def fault_free_write_object dest: fault_free_object split: option.split prod.split sum.split)

lemma fault_free_inject: "fault_free d \<Longrightarrow> fault_free (snd (inject L p vs sl d))"
  by (auto simp: inject_def fault_free_write_object dest: fault_free_object split: prod.split sum.split)

lemma fault_free_inject_hooks: "fault_free d \<Longrightarrow> fault_free (snd (inject_hooks L p c d))"
  by (auto simp: inject_hooks_def fault_free_write_object dest: fault_free_object split: prod.split sum.split)

lemma fault_free_try_inject: "fault_free d \<Longrightarrow> fault_free (snd (try_inject L A d))"
  using fault_free_snapshot[of d L "settings_path A" "backup_path A"]
  by (auto simp: try_inject_def fault_free_inject split: prod.split sum.split)

lemma fault_free_atomic: "fault_free d \<Longrightarrow> fault_free (snd (atomic_write p c d))"
  by (simp add: fault_free_def atomic_write_def Let_def)

lemma fault_free_try_restore:
  assumes "fault_free d" shows "fault_free (snd (try_restore L A d))"
proof -
  let ?p = "settings_path A" and ?b = "backup_path A"
  obtain r d1 where r: "read_file ?b d = (r, d1)" by force
  then have d1: "fault_free d1" using fault_free_read[OF assms, of ?b] by simp
  obtain ro d2 where ro: "read_object L ?p d1 = (ro, d2)" by force
  then have d2: "fault_free d2" using fault_free_object[OF d1] by simp
  have w: "fault_free d3" if "write_object L ?p m d2 = (x, d3)" for m x d3
    using fault_free_write_object[OF d2, of L ?p m] that by simp
  show ?thesis
    using d1 d2 by (auto simp: try_restore_def restore_def r ro fault_free_atomic
        split: read_result.split option.split sum.split prod.split dest: w)
qed

lemma adapter_restores:
  assumes "fault_free d" "adapter_stock L A d = Some c"
  shows "adapter_host A (adapter_restore L A d) = Some c"
  using assms
  by (auto simp: adapter_stock_def adapter_host_def adapter_restore_def try_restore_def restore_def
      read_file_def atomic_write_def fault_free_def Let_def maps split: option.splits if_splits)

lemma adapter_keeps_stock:
  assumes "adapter_stock L A d = Some c"
  shows "adapter_stock L A (adapter_inject L A d) = Some c" "adapter_stock L A (adapter_restore L A d) = Some c"
proof -
  let ?p = "settings_path A" and ?b = "backup_path A"
  have b: "?p \<noteq> ?b" "hm_get (files d) ?b = Some c" and c: "parse_json L c \<noteq> None"
    using assms by (auto simp: adapter_stock_def split: option.splits if_splits)
  have "hm_get (files (adapter_inject L A d)) ?b = Some c"
    using b backup_kept[OF b, of L "OpInject (verbs A) (statusline A)"]
    by (simp add: adapter_inject_def try_inject_def snapshot_def)
  moreover have "hm_get (files (adapter_restore L A d)) ?b = Some c"
    using backup_kept[OF b, of L OpRestore] by (simp add: adapter_restore_def try_restore_def)
  ultimately show "adapter_stock L A (adapter_inject L A d) = Some c" "adapter_stock L A (adapter_restore L A d) = Some c"
    using b(1) c by (simp_all add: adapter_stock_def)
qed

interpretation claude: host_adapter "adapter_inject L A" "adapter_restore L A" "adapter_host A"
  "adapter_stock L A" fault_free for L A
  by unfold_locales
    (simp_all add: adapter_keeps_stock adapter_restores fault_free_try_inject[folded adapter_inject_def]
      fault_free_try_restore[folded adapter_restore_def])

subsection \<open>Properties\<close>

text \<open>What a restore leaves: nothing changed, the snapshot, or the fallback's object.\<close>

definition whole_restore :: "json_lib \<Rightarrow> string \<Rightarrow> string \<Rightarrow> disk \<Rightarrow> (settings_error + unit) \<times> disk \<Rightarrow> bool" where
  "whole_restore L p b d res \<longleftrightarrow>
     (case fst res of
        Inr _ \<Rightarrow> (\<exists>snap. hm_get (files d) b = Some snap \<and> parse_json L snap \<noteq> None
                  \<and> files (snd res) = hm_insert p snap (files d))
      | Inl e \<Rightarrow> files (snd res) = files d
          \<or> (e = SnapshotMissing \<and> hm_get (files d) b = None
             \<and> (\<exists>m c. object_at L p (snd (read_file b d)) = Some m
                  \<and> print_json L (JObject (fst (strip_owned m))) = Some c
                  \<and> files (snd res) = hm_insert p (c @ [newline]) (files d))))"

lemma restore_whole: "whole_restore L p b d (restore L p b d)"
proof -
  obtain r d' where r: "restore L p b d = (r, d')" by force
  then show ?thesis
    by (rule restore_files) (use r in \<open>auto simp: whole_restore_def serialize_def split: option.splits sum.splits\<close>)
qed

text \<open>
  C28: the host's file is never half written. However reads and writes fail, a snapshot, an injection
  and the wiring or removal of the hooks either fail and leave all files as they were, or succeed and
  have replaced one file by the complete printed text of exactly the object they were to write. A restore
  puts back exactly the bytes of the snapshot, or changes nothing; only its fallback without a snapshot writes
  the stripped object although it answers \<^verbatim>\<open>SnapshotMissing\<close>. The write itself is a run of system
  calls: it ends in the files of the model's one step, and a crash at any point of it leaves in the
  target the old or the new content, complete, and every other file but the temporary one alone.
\<close>

theorem settings_never_half_written:
  assumes "tmp \<noteq> p" "hm_get (files d) tmp = None"
  shows "whole_write L b (snapshot_object L p b d) d (snapshot L p b d)
    \<and> whole_write L p (map_option (injected_map vs sl) (object_at L p d)) d (inject L p vs sl d)
    \<and> whole_write L p (Option.bind (object_at L p d) (wired_object cmd)) d (inject_hooks L p cmd d)
    \<and> whole_write L p (Option.bind (object_at L p d) unwire_hooks) d (remove_hooks L p d)
    \<and> whole_restore L p b d (restore L p b d)
    \<and> (let steps = fs_states p tmp (atomic_ops (next_fault d) k new) (files d, None)
       in last steps = (files (snd (atomic_write p new d)), None)
        \<and> (\<forall>s \<in> set steps. hm_get (crashed j s) p \<in> {hm_get (files d) p, Some new}
             \<and> (\<forall>q. q \<notin> {p, tmp} \<longrightarrow> hm_get (crashed j s) q = hm_get (files d) q)))"
proof -
  note crash = atomic_write_crash[OF assms(2), of _ _ p "next_fault d" k new j]
  have "\<forall>s \<in> set (fs_states p tmp (atomic_ops (next_fault d) k new) (files d, None)).
      hm_get (crashed j s) p \<in> {hm_get (files d) p, Some new}
    \<and> (\<forall>q. q \<notin> {p, tmp} \<longrightarrow> hm_get (crashed j s) q = hm_get (files d) q)"
  proof (intro ballI conjI allI impI)
    fix s assume s: "s \<in> set (fs_states p tmp (atomic_ops (next_fault d) k new) (files d, None))"
    show "hm_get (crashed j s) p \<in> {hm_get (files d) p, Some new}" using crash[OF assms(1)[symmetric] s] by simp
    show "hm_get (crashed j s) q = hm_get (files d) q" if "q \<notin> {p, tmp}" for q
      using crash[OF _ s, of q] that by simp
  qed
  then show ?thesis
    unfolding Let_def
    by (intro conjI snapshot_whole inject_whole inject_hooks_whole remove_hooks_whole restore_whole
        atomic_write_run[OF assms(2)])
qed

definition demo_settings :: json_map where
  "demo_settings = [(''theme'', JString ''dark''),
     (''hooks'', JObject [(''Stop'', JArray [JObject [(''matcher'', JString ''b'')]])])]"

definition demo_disk :: disk where
  "demo_disk = \<lparr>files = [(''s.json'', enc (JObject demo_settings) @ [newline])], reads = [], writes = []\<rparr>"

lemma settings_never_half_written_witness:
  "let steps = fs_states ''s.json'' ''.tmp'' (atomic_ops WriteFails 1 ''{}'') (files demo_disk, None)
   in length steps = 4 \<and> last steps = (files demo_disk, None)
    \<and> (\<forall>s \<in> set steps. hm_get (crashed 1 s) ''s.json'' \<in> {hm_get (files demo_disk) ''s.json'', Some ''{}''})"
proof -
  let ?d = "demo_disk\<lparr>writes := [WriteFails]\<rparr>"
  have t: "''.tmp'' \<noteq> ''s.json''" "hm_get (files ?d) ''.tmp'' = None"
    by (simp_all add: demo_disk_def hm_get_def)
  have f: "next_fault ?d = WriteFails" "files (snd (atomic_write p c ?d)) = files demo_disk" "files ?d = files demo_disk" for p c
    by (simp_all add: next_fault_def atomic_write_def Let_def)
  have "length (fs_states ''s.json'' ''.tmp'' (atomic_ops WriteFails 1 ''{}'') (files demo_disk, None)) = 4"
    by simp
  with settings_never_half_written[OF t, where k = 1 and new = "''{}''" and j = 1] show ?thesis
    unfolding f Let_def by blast
qed

lemma inject_writes:
  assumes "json_lib_ok L" "read_object L p d = (Inr m, d0)" "no_floats (JObject m)"
    and "list_all utf8_ok vs" "pred_option utf8_ok sl" "inject L p vs sl d = (Inr (), d1)"
  shows "\<exists>c. hm_get (files d1) p = Some c \<and> parse_json L c = Some (JObject (injected_map vs sl m))"
proof -
  have w: "write_object L p (injected_map vs sl m) d0 = (Inr (), d1)"
    using assms(2,6) by (simp add: inject_def)
  obtain c where c: "serialize L (injected_map vs sl m) = Inr c"
      "parse_json L c = Some (JObject (injected_map vs sl m))"
    using serialize_parses[OF assms(1) plain_injected[OF read_object_plain[OF assms(1-3)] assms(4,5)]] by blast
  from w show ?thesis by (rule write_object_cases) (use c in \<open>auto simp: maps\<close>)
qed

text \<open>
  C29: an injection changes the two keys spnr owns and nothing else: what the written file parses to
  has every other member of the host's object, in the same order, the sponsored verbs in
  \<^verbatim>\<open>spinnerVerbs\<close>, and the status line only if one was asked for; a second injection changes
  nothing.
\<close>

theorem inject_touches_only_its_keys:
  assumes "json_lib_ok L" "read_object L p d = (Inr m, d0)" "no_floats (JObject m)"
    and "list_all utf8_ok vs" "pred_option utf8_ok sl" "inject L p vs sl d = (Inr (), d1)"
  shows "\<exists>c m'. hm_get (files d1) p = Some c \<and> parse_json L c = Some (JObject m')
    \<and> filter (\<lambda>kv. fst kv \<notin> set SPNR_OWNED_KEYS) m' = filter (\<lambda>kv. fst kv \<notin> set SPNR_OWNED_KEYS) m
    \<and> hm_get m' ''spinnerVerbs''
        = Some (JObject [(''mode'', JString ''replace''), (''verbs'', JArray (map JString vs))])
    \<and> hm_get m' ''statusLine'' = (case sl of None \<Rightarrow> hm_get m ''statusLine''
        | Some cmd \<Rightarrow> Some (JObject [(''type'', JString ''command''), (''command'', JString cmd),
            (''refreshInterval'', json_uint 1)]))
    \<and> injected_map vs sl m' = m'"
proof -
  obtain c where "hm_get (files d1) p = Some c" "parse_json L c = Some (JObject (injected_map vs sl m))"
    using inject_writes[OF assms] by blast
  then show ?thesis
    by (intro exI[of _ c] exI[of _ "injected_map vs sl m"])
      (simp add: injected_foreign injected_get injected_idem split: option.split)
qed

lemma demo_read: "read_object demo_json ''s.json'' demo_disk = (Inr demo_settings, demo_disk)"
proof -
  have "plain_json (JObject demo_settings)"
    by (simp add: plain_json_def demo_settings_def hm_wf_def utf8_literal)
  then have "parse_json demo_json (enc (JObject demo_settings) @ [newline]) = Some (JObject demo_settings)"
    using demo_json_ok by (auto simp: json_lib_ok_def demo_json_def)
  then show ?thesis by (simp add: read_object_def read_file_def demo_disk_def hm_get_def Let_def)
qed

lemma demo_no_floats: "no_floats (JObject demo_settings)"
  by (simp add: demo_settings_def)

lemma demo_write:
  "fst (write_object demo_json q m (d\<lparr>writes := []\<rparr>)) = Inr ()"
  by (simp add: write_object_def serialize_def demo_json_def atomic_write_def Let_def)

lemma demo_disk_writes: "demo_disk = demo_disk\<lparr>writes := []\<rparr>"
  by (simp add: demo_disk_def)

lemma demo_injects: "fst (inject demo_json ''s.json'' [''Ad''] None demo_disk) = Inr ()"
  unfolding inject_def demo_read using demo_write[of _ _ demo_disk] demo_disk_writes by simp

lemma inject_touches_only_its_keys_witness:
  "\<exists>c m'. hm_get (files (snd (inject demo_json ''s.json'' [''Ad''] None demo_disk))) ''s.json'' = Some c
     \<and> parse_json demo_json c = Some (JObject m')
     \<and> filter (\<lambda>kv. fst kv \<notin> set SPNR_OWNED_KEYS) m' = filter (\<lambda>kv. fst kv \<notin> set SPNR_OWNED_KEYS) demo_settings"
proof -
  have "inject demo_json ''s.json'' [''Ad''] None demo_disk
      = (Inr (), snd (inject demo_json ''s.json'' [''Ad''] None demo_disk))"
    using demo_injects by (simp add: prod_eq_iff)
  moreover have "list_all utf8_ok [''Ad'']" "pred_option utf8_ok None" by (simp_all add: utf8_literal)
  ultimately show ?thesis
    using inject_touches_only_its_keys[OF demo_json_ok demo_read demo_no_floats] by blast
qed

text \<open>
  C14: after a snapshot, whatever spnr, the host and the user then write, and whatever fails, a
  restore that succeeds gives the host the settings of the snapshot back, key by key in their order.
\<close>

theorem restore_undoes_everything:
  assumes "json_lib_ok L" "p \<noteq> b" "hm_get (files d) b = None" "read_object L p d = (Inr m, d0)"
    and "no_floats (JObject m)" "snapshot L p b d = (Inr (), d1)"
    and "restore L p b (fold (settings_step L p b) ops d1) = (Inr (), d2)"
  shows "\<exists>c. hm_get (files d2) p = Some c \<and> parse_json L c = Some (JObject m)"
proof -
  obtain snap where s: "hm_get (files d1) b = Some snap" "parse_json L snap = Some (JObject m)"
    using snapshot_content[OF assms(1,3-6)] by blast
  have k: "hm_get (files (fold (settings_step L p b) ops d1)) b = Some snap"
    by (rule backup_kept_run[OF assms(2) s(1)])
  from assms(7) show ?thesis by (rule restore_files) (use s k in \<open>auto simp: maps\<close>)
qed

lemma demo_snapshot:
  "snapshot demo_json ''s.json'' ''b.json'' demo_disk
     = (Inr (), snd (snapshot demo_json ''s.json'' ''b.json'' demo_disk))"
proof -
  have "hm_get (files demo_disk) ''b.json'' = None" by (simp add: demo_disk_def hm_get_def)
  then have "fst (snapshot demo_json ''s.json'' ''b.json'' demo_disk) = Inr ()"
    unfolding snapshot_def demo_read using demo_write[of _ _ demo_disk] demo_disk_writes by simp
  then show ?thesis by (simp add: prod_eq_iff)
qed

lemma fault_free_restore:
  assumes "fault_free d" "hm_get (files d) b = Some snap" "parse_json L snap \<noteq> None"
  shows "restore L p b d = (Inr (), snd (restore L p b d))"
  using assms by (auto simp: restore_def read_file_def fault_free_def atomic_write_def Let_def)

text \<open>The witness: an injection after the snapshot, then the user deletes the file.\<close>

lemma restore_undoes_everything_witness:
  "\<exists>c. hm_get (files (snd (restore demo_json ''s.json'' ''b.json''
        (fold (settings_step demo_json ''s.json'' ''b.json'') [OpInject [''Ad''] None, OpForeign None]
          (snd (snapshot demo_json ''s.json'' ''b.json'' demo_disk)))))) ''s.json'' = Some c
     \<and> parse_json demo_json c = Some (JObject demo_settings)"
proof -
  let ?s = "''s.json''" and ?b = "''b.json''" and ?ops = "[OpInject [''Ad''] None, OpForeign None]"
  let ?d1 = "snd (snapshot demo_json ?s ?b demo_disk)"
  let ?d = "fold (settings_step demo_json ?s ?b) ?ops ?d1"
  have ne: "?s \<noteq> ?b" and nb: "hm_get (files demo_disk) ?b = None"
    by (simp_all add: demo_disk_def hm_get_def)
  obtain snap where s: "hm_get (files ?d1) ?b = Some snap" "parse_json demo_json snap = Some (JObject demo_settings)"
    using snapshot_content[OF demo_json_ok nb demo_read demo_no_floats demo_snapshot] by blast
  have "fault_free demo_disk" by (simp add: fault_free_def demo_disk_def)
  then have "fault_free (snd (inject demo_json ?s [''Ad''] None ?d1))"
    by (intro fault_free_inject fault_free_snapshot)
  then have f: "fault_free ?d" by (simp add: fault_free_def)
  have k: "hm_get (files ?d) ?b = Some snap" by (rule backup_kept_run[OF ne s(1)])
  have "restore demo_json ?s ?b ?d = (Inr (), snd (restore demo_json ?s ?b ?d))"
    by (rule fault_free_restore[OF f k]) (simp add: s(2))
  from restore_undoes_everything[OF demo_json_ok ne nb demo_read demo_no_floats demo_snapshot this]
  show ?thesis .
qed

end
