(* ===== verification/Settings_Hooks.thy ===== *)
theory Settings_Hooks
  imports Settings_Laws
begin

section \<open>Wiring the host's hooks and taking the wires out again (spnr-settings)\<close>

text \<open>
  \<^verbatim>\<open>inject_hooks\<close> and \<^verbatim>\<open>remove_hooks\<close> on the \<^verbatim>\<open>hooks\<close> object. Each is brought into a closed form: wiring
  maps a function over the entries the host has and appends the missing events; unwiring maps a
  filter and prunes. \<open>hooks_clean\<close> is the condition under which the second is the exact inverse of
  the first, order of keys included, although \<^verbatim>\<open>Map::remove\<close> swaps entries: what it removes is at the
  end.
\<close>

subsection \<open>Association lists updated in place\<close>

lemma hm_insert_present:
  assumes "hm_wf m" "hm_get m k = Some w"
  shows "hm_insert k v m = map (\<lambda>kv. if fst kv = k then (k, v) else kv) m"
  using assms unfolding hm_wf_def hm_get_def hm_insert_def
  by (induction m) (force intro: map_idI[symmetric] split: if_splits)+

lemma hm_get_Some_set: "hm_wf m \<Longrightarrow> hm_get m k = Some v \<longleftrightarrow> (k, v) \<in> set m"
  by (simp add: hm_wf_def hm_get_def)

lemma hm_get_None_keys: "hm_get m k = None \<longleftrightarrow> k \<notin> fst ` set m"
  by (simp add: hm_get_def map_of_eq_None_iff)

lemma hm_wf_map: "(\<And>kv. fst (f kv) = fst kv) \<Longrightarrow> hm_wf (map f m) = hm_wf m"
  by (simp add: hm_wf_def comp_def)

lemma key_index_append: "k \<notin> fst ` set xs \<Longrightarrow> key_index k (xs @ ys) = map_option ((+) (length xs)) (key_index k ys)"
proof (induction xs)
  case Nil
  then show ?case by (simp add: option.map_ident)
next
  case (Cons x xs)
  then show ?case by (auto simp: option.map_comp comp_def)
qed

lemma map_remove_append:
  assumes "k \<notin> fst ` set xs" shows "map_remove k (xs @ ys) = xs @ map_remove k ys"
proof (cases "key_index k ys")
  case None
  then have "key_index k (xs @ ys) = None" using assms by (simp add: key_index_append)
  with None show ?thesis by (simp only: map_remove_def option.case)
next
  case (Some i)
  then have "ys \<noteq> []" by auto
  then obtain zs l where ys: "ys = zs @ [l]" by (metis rev_exhaust)
  have "map_remove k (xs @ ys) = swap_remove (length xs + i) ((xs @ zs) @ [l])"
    using Some assms by (simp add: map_remove_def key_index_append ys)
  also have "\<dots> = xs @ swap_remove i ys"
    using key_index_Some[OF Some] unfolding swap_remove_def ys
    by (simp add: list_update_append flip: append_assoc) 
  finally show ?thesis using Some by (simp add: map_remove_def)
qed

lemma map_remove_keys:
  assumes "hm_wf m" shows "fst ` set (map_remove k m) = fst ` set m - {k}"
proof -
  have "x \<in> fst ` set (map_remove k m) \<longleftrightarrow> x \<in> fst ` set m - {k}" for x
    using hm_get_map_remove[OF assms, of k] hm_get_None_keys[of "map_remove k m" x] hm_get_None_keys[of m x]
    by (auto split: if_splits)
  then show ?thesis by blast
qed

subsection \<open>Wiring\<close>

fun add_group :: "string \<Rightarrow> json \<Rightarrow> json" where
  "add_group cmd (JArray a) =
     JArray (if list_ex (\<lambda>g. group_has_exact_command g cmd) a then a else a @ [spnr_group cmd])"
| "add_group cmd v = v"

fun drop_groups :: "json \<Rightarrow> json" where
  "drop_groups (JArray a) = JArray (filter (\<lambda>g. \<not> group_is_spnr_hook g) a)"
| "drop_groups v = v"

definition on_events :: "(json \<Rightarrow> json) \<Rightarrow> string set \<Rightarrow> json_map \<Rightarrow> json_map" where
  "on_events f E = map (\<lambda>kv. if fst kv \<in> E then (fst kv, f (snd kv)) else kv)"

lemma on_events_keys [simp]: "map fst (on_events f E m) = map fst m"
  by (simp add: on_events_def comp_def if_distrib[of fst] cong: if_cong)

lemma on_events_wf [simp]: "hm_wf (on_events f E m) = hm_wf m"
  by (simp add: hm_wf_def)

lemma on_events_get:
  "hm_get (on_events f E m) k = (if k \<in> E then map_option f (hm_get m k) else hm_get m k)"
  unfolding on_events_def hm_get_def by (induction m) auto

lemma on_events_comp: "on_events f E (on_events g E m) = on_events (f \<circ> g) E m"
  by (simp add: on_events_def)

lemma on_events_none: "fst ` set m \<inter> E = {} \<Longrightarrow> on_events f E m = m"
  unfolding on_events_def by (induction m) auto

lemma on_events_append: "on_events f E (m @ m') = on_events f E m @ on_events f E m'"
  by (simp add: on_events_def)

lemma on_events_split: "e \<notin> E \<Longrightarrow> on_events f (insert e E) m = on_events f E (on_events f {e} m)"
  unfolding on_events_def by (induction m) auto

definition missing :: "string list \<Rightarrow> json_map \<Rightarrow> string list" where
  "missing es m = filter (\<lambda>e. hm_get m e = None) es"

definition fresh_events :: "(string \<Rightarrow> json) \<Rightarrow> string list \<Rightarrow> json_map" where
  "fresh_events f es = map (\<lambda>e. (e, f e)) es"

lemma wire_event_closed:
  assumes "hm_wf h" "wire_event cmd e h = Inr h'"
  shows "h' = (if hm_get h e = None then h @ [(e, JArray [spnr_group cmd])] else on_events (add_group cmd) {e} h)"
proof (cases "hm_get h e")
  case None
  with assms(2) show ?thesis by (auto simp: wire_event_def hm_get_or_def hm_insert_fresh)
next
  case (Some v)
  with assms(2) obtain a where a: "v = JArray a"
    by (auto simp: wire_event_def hm_get_or_def split: json.splits)
  have eq: "snd kv = v" if "kv \<in> set h" "fst kv = e" for kv
    using hm_get_Some_set[OF assms(1), of e "snd kv"] that Some by (cases kv) auto
  have "h' = hm_insert e (add_group cmd v) h"
    using assms(2) Some by (auto simp: wire_event_def hm_get_or_def a)
  also have "\<dots> = on_events (add_group cmd) {e} h"
    unfolding hm_insert_present[OF assms(1) Some] on_events_def using eq by (auto intro!: map_cong)
  finally show ?thesis using Some by simp
qed

lemma wire_event_wf: "hm_wf h \<Longrightarrow> wire_event cmd e h = Inr h' \<Longrightarrow> hm_wf h'"
  using wire_event_closed[of h cmd e h'] by (auto simp: hm_wf_def hm_get_None_keys split: if_splits)

text \<open>Closed form: the entries there are get the group, the missing events are appended.\<close>

lemma wire_events_closed:
  assumes "hm_wf h" "distinct es" "wire_events cmd es h = Inr h'"
  shows "h' = on_events (add_group cmd) (set es) h @ fresh_events (\<lambda>_. JArray [spnr_group cmd]) (missing es h)"
  using assms
proof (induction es arbitrary: h)
  case Nil
  then show ?case by (simp add: on_events_def fresh_events_def missing_def)
next
  case (Cons e es)
  from Cons.prems(3) obtain h1 where h1: "wire_event cmd e h = Inr h1" "wire_events cmd es h1 = Inr h'"
    by (auto split: sum.splits)
  have e: "e \<notin> set es" using Cons.prems(2) by simp
  have IH: "h' = on_events (add_group cmd) (set es) h1 @ fresh_events (\<lambda>_. JArray [spnr_group cmd]) (missing es h1)"
    using Cons.IH[OF wire_event_wf[OF Cons.prems(1) h1(1)] _ h1(2)] Cons.prems(2) by simp
  show ?case
  proof (cases "hm_get h e")
    case None
    then have h1': "h1 = h @ [(e, JArray [spnr_group cmd])]"
      using wire_event_closed[OF Cons.prems(1) h1(1)] by simp
    have m: "missing es h1 = missing es h"
      unfolding missing_def h1' using e by (intro filter_cong) (auto simp: hm_get_None_keys)
    have "on_events (add_group cmd) (set es) h1 = on_events (add_group cmd) (set es) h @ [(e, JArray [spnr_group cmd])]"
      using e by (simp add: h1' on_events_append) (simp add: on_events_def)
    moreover have "on_events (add_group cmd) (set (e # es)) h = on_events (add_group cmd) (set es) h"
      using None e unfolding list.set on_events_split[OF e]
      by (subst on_events_none[of h "{e}"]) (auto simp: hm_get_None_keys)
    ultimately show ?thesis using IH m None by (simp add: missing_def fresh_events_def)
  next
    case (Some v)
    then have h1': "h1 = on_events (add_group cmd) {e} h"
      using wire_event_closed[OF Cons.prems(1) h1(1)] by simp
    have "missing es h1 = missing es h"
      unfolding missing_def h1' by (intro filter_cong) (auto simp: on_events_get)
    with IH Some on_events_split[OF e] show ?thesis by (simp add: h1' missing_def)
  qed
qed

subsection \<open>Unwiring\<close>

fun is_array :: "json \<Rightarrow> bool" where
  "is_array (JArray _) = True"
| "is_array _ = False"

lemma retain_closed: "hm_wf h \<Longrightarrow> retain_foreign e h = on_events drop_groups {e} h"
proof (cases "hm_get h e")
  case None
  then have "on_events drop_groups {e} h = h" by (intro on_events_none) (auto simp: hm_get_None_keys)
  with None show ?thesis by (simp add: retain_foreign_def)
next
  case (Some v)
  assume wf: "hm_wf h"
  have eq: "snd kv = v" if "kv \<in> set h" "fst kv = e" for kv
    using hm_get_Some_set[OF wf, of e "snd kv"] that Some by (cases kv) auto
  have "on_events drop_groups {e} h = hm_insert e (drop_groups v) h"
    unfolding hm_insert_present[OF wf Some] on_events_def using eq by (auto intro!: map_cong)
  moreover have "hm_insert e v h = h"
    unfolding hm_insert_present[OF wf Some] using eq by (auto intro!: map_idI)
  moreover have "retain_foreign e h = (if is_array v then hm_insert e (drop_groups v) h else h)"
    by (cases v) (simp_all add: retain_foreign_def Some)
  ultimately show ?thesis by (cases v) simp_all
qed

lemma retain_all:
  "hm_wf h \<Longrightarrow> distinct es \<Longrightarrow> fold retain_foreign es h = on_events drop_groups (set es) h"
proof (induction es arbitrary: h)
  case Nil
  then show ?case by (simp add: on_events_def)
next
  case (Cons e es)
  then have "e \<notin> set es" by simp
  from on_events_split[OF this] Cons show ?case by (simp add: retain_closed)
qed

lemma prune_all:
  assumes "hm_wf (h @ t)" "\<And>e. e \<in> set es \<Longrightarrow> hm_get h e \<noteq> Some (JArray [])"
    and "fst ` set t \<subseteq> set es" "snd ` set t \<subseteq> {JArray []}"
  shows "fold prune_event es (h @ t) = h"
  using assms
proof (induction es arbitrary: t)
  case Nil
  then show ?case by simp
next
  case (Cons e es)
  have in_h: "hm_get (h @ t) e = hm_get h e" if "e \<notin> fst ` set t"
    using that map_of_eq_None_iff[of t e] by (simp add: hm_get_def map_add_def split: option.split)
  have in_t: "hm_get (h @ t) e = hm_get t e" if "e \<notin> fst ` set h"
    using that map_of_eq_None_iff[of h e] by (simp add: hm_get_def map_add_def split: option.split)
  have dis: "fst ` set h \<inter> fst ` set t = {}" and wt: "hm_wf t"
    using Cons.prems(1) by (auto simp: hm_wf_def)
  show ?case
  proof (cases "e \<in> fst ` set t")
    case False
    then have "prune_event e (h @ t) = h @ t"
      using in_h Cons.prems(2)[of e] by (simp add: prune_event_def)
    moreover have "fold prune_event es (h @ t) = h"
      using Cons.prems False by (intro Cons.IH) auto
    ultimately show ?thesis by simp
  next
    case True
    then obtain v where v: "hm_get t e = Some v" by (metis hm_get_None_keys not_None_eq)
    then have v0: "v = JArray []" using Cons.prems(4) hm_get_Some_set[OF wt] by fastforce
    have eh: "e \<notin> fst ` set h" using True dis by auto
    then have "hm_get (h @ t) e = Some (JArray [])" using in_t v v0 by simp
    then have p: "prune_event e (h @ t) = h @ map_remove e t"
      by (simp add: prune_event_def map_remove_append[OF eh])
    have mm: "mset t = add_mset (e, v) (mset (map_remove e t))" by (rule map_remove_mset[OF wt v])
    have "hm_wf (map_remove e t)" by (rule hm_wf_map_remove[OF wt])
    moreover have keys: "fst ` set (map_remove e t) = fst ` set t - {e}" by (rule map_remove_keys[OF wt])
    ultimately have "hm_wf (h @ map_remove e t)" using Cons.prems(1) dis by (auto simp: hm_wf_def)
    moreover have "snd ` set (map_remove e t) \<subseteq> {JArray []}"
      using Cons.prems(4) mset_eq_setD[of t "(e, v) # map_remove e t"] mm by auto
    ultimately show ?thesis
      unfolding fold.simps comp_apply p using Cons.prems(2,3) keys by (intro Cons.IH) auto
  qed
qed

subsection \<open>The round trip\<close>

definition hooks_clean :: "json_map \<Rightarrow> bool" where
  "hooks_clean m \<longleftrightarrow> hm_wf m \<and>
     (case hm_get m ''hooks'' of
        None \<Rightarrow> True
      | Some (JObject h) \<Rightarrow> hm_wf h \<and> h \<noteq> [] \<and>
          list_all (\<lambda>e. case hm_get h e of
              None \<Rightarrow> True
            | Some (JArray a) \<Rightarrow> a \<noteq> [] \<and> list_all (\<lambda>g. \<not> group_is_spnr_hook g) a
            | Some _ \<Rightarrow> False) SPNR_HOOK_EVENTS
      | Some _ \<Rightarrow> False)"

lemma spnr_group_commands: "group_commands (spnr_group cmd) = [cmd]"
  by (simp add: group_commands_def spnr_group_def hm_get_def List.map_filter_def)

lemma exact_is_spnr:
  "is_spnr_hook_command cmd \<Longrightarrow> group_has_exact_command g cmd \<Longrightarrow> group_is_spnr_hook g"
  by (auto simp: group_has_exact_command_def group_is_spnr_hook_def list_ex_iff)

lemma spnr_group_is_spnr: "is_spnr_hook_command cmd \<Longrightarrow> group_is_spnr_hook (spnr_group cmd)"
  by (simp add: group_is_spnr_hook_def spnr_group_commands)

lemma drop_add_group:
  assumes "is_spnr_hook_command cmd" "list_all (\<lambda>g. \<not> group_is_spnr_hook g) a"
  shows "drop_groups (add_group cmd (JArray a)) = JArray a"
  using assms exact_is_spnr[OF assms(1)] spnr_group_is_spnr[OF assms(1)]
  by (auto simp: list_all_iff list_ex_iff)

lemma hook_events_distinct [simp]: "distinct SPNR_HOOK_EVENTS"
  by (simp add: SPNR_HOOK_EVENTS_def)

lemma unwire_events:
  assumes cmd: "is_spnr_hook_command cmd" and wf: "hm_wf h"
    and clean: "\<And>e v. e \<in> set SPNR_HOOK_EVENTS \<Longrightarrow> hm_get h e = Some v \<Longrightarrow>
      \<exists>a. v = JArray a \<and> a \<noteq> [] \<and> list_all (\<lambda>g. \<not> group_is_spnr_hook g) a"
    and w: "wire_events cmd SPNR_HOOK_EVENTS h = Inr h'"
  shows "fold prune_event SPNR_HOOK_EVENTS (fold retain_foreign SPNR_HOOK_EVENTS h') = h"
proof -
  let ?E = "SPNR_HOOK_EVENTS" and ?g = "JArray [spnr_group cmd]"
  let ?t = "fresh_events (\<lambda>_. JArray []) (missing ?E h)"
  have h': "h' = on_events (add_group cmd) (set ?E) h @ fresh_events (\<lambda>_. ?g) (missing ?E h)"
    by (rule wire_events_closed[OF wf hook_events_distinct w])
  have keys: "map fst (fresh_events f (missing ?E h)) = missing ?E h" for f
    by (simp add: fresh_events_def comp_def)
  have wft: "hm_wf (h @ fresh_events f (missing ?E h))" for f
    using wf keys[of f] by (auto simp: hm_wf_def missing_def hm_get_None_keys simp flip: set_map)
  have inv: "on_events (drop_groups \<circ> add_group cmd) (set ?E) h = h"
    unfolding on_events_def
  proof (rule map_idI)
    fix kv assume kv: "kv \<in> set h"
    then have "hm_get h (fst kv) = Some (snd kv)" by (simp add: hm_get_Some_set[OF wf])
    with clean[of "fst kv"] drop_add_group[OF cmd]
    show "(if fst kv \<in> set ?E then (fst kv, (drop_groups \<circ> add_group cmd) (snd kv)) else kv) = kv"
      by (cases kv) fastforce
  qed
  have "on_events drop_groups (set ?E) (fresh_events (\<lambda>_. ?g) (missing ?E h)) = ?t"
    using spnr_group_is_spnr[OF cmd] by (auto simp: on_events_def fresh_events_def missing_def)
  moreover have "hm_wf h'" using wft[of "\<lambda>_. ?g"] unfolding h' by (simp add: hm_wf_def flip: set_map)
  ultimately have "fold retain_foreign ?E h' = h @ ?t"
    using inv by (simp add: retain_all) (simp add: h' on_events_append on_events_comp)
  moreover have "fold prune_event ?E (h @ ?t) = h"
  proof (rule prune_all[OF wft])
    show "hm_get h e \<noteq> Some (JArray [])" if "e \<in> set ?E" for e using clean[OF that] by auto
    show "fst ` set ?t \<subseteq> set ?E" by (auto simp: fresh_events_def missing_def)
    show "snd ` set ?t \<subseteq> {JArray []}" by (auto simp: fresh_events_def)
  qed
  ultimately show ?thesis by simp
qed

lemma unwire_wire:
  assumes "hooks_clean m" "is_spnr_hook_command cmd" "wire_hooks cmd m = Inr m'"
  shows "unwire_hooks m' = Some m"
proof -
  have wf: "hm_wf m" using assms(1) by (simp add: hooks_clean_def)
  show ?thesis
  proof (cases "hm_get m ''hooks''")
    case None
    then obtain h' where h': "wire_events cmd SPNR_HOOK_EVENTS [] = Inr h'"
        "m' = m @ [(''hooks'', JObject h')]"
      using assms(3) by (auto simp: wire_hooks_def hm_get_or_def hm_insert_fresh split: sum.splits)
    have "fold prune_event SPNR_HOOK_EVENTS (fold retain_foreign SPNR_HOOK_EVENTS h') = []"
      using unwire_events[OF assms(2) hm_wf_Nil _ h'(1)] by simp
    moreover have "hm_get m' ''hooks'' = Some (JObject h')"
      using None map_of_eq_None_iff[of m "''hooks''"] by (simp add: h'(2) hm_get_def map_add_def)
    moreover have "hm_insert ''hooks'' (JObject []) m' = m @ [(''hooks'', JObject [])]"
      using None unfolding h'(2) hm_insert_def hm_get_def by (induction m) (auto split: if_splits)
    moreover have "map_remove ''hooks'' (m @ [(''hooks'', JObject [])]) = m"
      using None by (simp add: hm_get_None_keys map_remove_append) (simp add: map_remove_def swap_remove_def)
    ultimately show ?thesis by (simp add: unwire_hooks_def)
  next
    case (Some v)
    then obtain h where h: "v = JObject h" "hm_wf h" "h \<noteq> []"
      and clean: "\<And>e v. e \<in> set SPNR_HOOK_EVENTS \<Longrightarrow> hm_get h e = Some v \<Longrightarrow>
        \<exists>a. v = JArray a \<and> a \<noteq> [] \<and> list_all (\<lambda>g. \<not> group_is_spnr_hook g) a"
      using assms(1) by (fastforce simp: hooks_clean_def list_all_iff split: json.splits)
    obtain h' where h': "wire_events cmd SPNR_HOOK_EVENTS h = Inr h'" "m' = hm_insert ''hooks'' (JObject h') m"
      using assms(3) Some h(1) by (auto simp: wire_hooks_def hm_get_or_def split: sum.splits)
    have "fold prune_event SPNR_HOOK_EVENTS (fold retain_foreign SPNR_HOOK_EVENTS h') = h"
      by (rule unwire_events[OF assms(2) h(2) clean h'(1)])
    moreover have "hm_insert ''hooks'' (JObject h) m' = m"
      using Some unfolding h'(2) h(1) hm_insert_def hm_get_def by (induction m) (auto split: if_splits)
    ultimately show ?thesis using h(3) by (simp add: unwire_hooks_def h'(2) maps)
  qed
qed

subsection \<open>Outside the condition\<close>

text \<open>
  Where \<open>hooks_clean\<close> fails, a removal is not the inverse: it drops a group with a command of the
  user beside spnr's, it drops empty entries the user had, and the removal of keys reorders others.
\<close>

lemma remove_drops_mixed_group:
  "unwire_hooks [(''hooks'', JObject [(''Stop'', JArray [JObject [(''hooks'', JArray
      [JObject [(''command'', JString ''mine'')], JObject [(''command'', JString ''spnr-hook'')]])]])])] = Some []"
  by (simp add: unwire_hooks_def SPNR_HOOK_EVENTS_def retain_foreign_def prune_event_def hm_get_def hm_insert_def
      map_remove_def swap_remove_def group_is_spnr_hook_def group_commands_def List.map_filter_def
      is_spnr_hook_command_def)

lemma remove_prunes_empty_entries:
  "unwire_hooks [(''hooks'', JObject [(''Stop'', JArray [])])] = Some []"
  by (simp add: unwire_hooks_def SPNR_HOOK_EVENTS_def retain_foreign_def prune_event_def hm_get_def hm_insert_def
      map_remove_def swap_remove_def)

lemma restore_without_snapshot_reorders:
  "strip_owned [(''spinnerVerbs'', v), (''a'', x), (''b'', y)] = ([(''b'', y), (''a'', x)], True)"
  by (simp add: strip_owned_def SPNR_OWNED_KEYS_def hm_get_def map_remove_def swap_remove_def)

subsection \<open>Through the file\<close>

lemma plain_group: "utf8_ok cmd \<Longrightarrow> 3 \<le> k \<Longrightarrow> plain_upto k (spnr_group cmd)"
proof -
  assume "utf8_ok cmd" "3 \<le> k"
  moreover from this(1) have "plain_upto (Suc (Suc (Suc 0))) (spnr_group cmd)"
    by (simp add: spnr_group_def plain_upto_simps plain_member_def hm_wf_def utf8_literal)
  ultimately show ?thesis by (simp add: plain_upto_mono)
qed

lemma plain_wire_event:
  assumes "plain_upto (Suc (Suc k)) (JObject h)" "3 \<le> k" "utf8_ok cmd" "utf8_ok e"
    and "wire_event cmd e h = Inr h'"
  shows "plain_upto (Suc (Suc k)) (JObject h')"
proof -
  obtain a where a: "hm_get_or (JArray []) h e = JArray a"
      "h' = hm_insert e (JArray (if list_ex (\<lambda>g. group_has_exact_command g cmd) a then a else a @ [spnr_group cmd])) h"
    using assms(5) by (auto simp: wire_event_def split: json.splits)
  have "plain_upto (Suc k) (JArray a)"
    using a(1) plain_lookup[OF assms(1), of e] by (auto simp: hm_get_or_def plain_upto_simps split: option.splits)
  then have "plain_upto (Suc k) (JArray (if list_ex (\<lambda>g. group_has_exact_command g cmd) a then a else a @ [spnr_group cmd]))"
    using plain_group[OF assms(3,2)] by (simp add: plain_upto_simps)
  then show ?thesis unfolding a(2) by (rule plain_insert[OF assms(1,4)])
qed

lemma plain_wire_events:
  assumes "3 \<le> k" "utf8_ok cmd"
  shows "plain_upto (Suc (Suc k)) (JObject h) \<Longrightarrow> list_all utf8_ok es \<Longrightarrow> wire_events cmd es h = Inr h' \<Longrightarrow>
    plain_upto (Suc (Suc k)) (JObject h')"
proof (induction es arbitrary: h)
  case (Cons e es)
  then show ?case using plain_wire_event[OF _ assms, of h e] by (auto split: sum.splits)
qed simp

lemma plain_wired:
  assumes "plain_json (JObject m)" "utf8_ok cmd" "wire_hooks cmd m = Inr m'"
  shows "plain_json (JObject m')"
proof -
  have m: "plain_upto (Suc 126) (JObject m)" using assms(1) by (simp add: plain_json_upto)
  obtain h h' where h: "hm_get_or (JObject []) m ''hooks'' = JObject h"
      "wire_events cmd SPNR_HOOK_EVENTS h = Inr h'" "m' = hm_insert ''hooks'' (JObject h') m"
    using assms(3) by (auto simp: wire_hooks_def split: json.splits sum.splits)
  have "plain_upto (Suc (Suc 124)) (JObject h)"
    using h(1) plain_lookup[OF m, of "''hooks''"]
    by (auto simp: hm_get_or_def plain_upto_def hm_wf_def split: option.splits)
  moreover have "list_all utf8_ok SPNR_HOOK_EVENTS" by (simp add: SPNR_HOOK_EVENTS_def utf8_literal)
  ultimately have "plain_upto (Suc (Suc 124)) (JObject h')"
    using plain_wire_events[OF _ assms(2) _ _ h(2), of 124] by simp
  then show ?thesis
    using plain_insert[OF m, of "''hooks''" "JObject h'"] by (simp add: h(3) plain_json_upto utf8_literal)
qed

lemma inject_hooks_writes:
  assumes "json_lib_ok L" "read_object L p d = (Inr m, d0)" "no_floats (JObject m)" "utf8_ok cmd"
    and "inject_hooks L p cmd d = (Inr (), d1)"
  obtains m' c where "wire_hooks cmd m = Inr m'" "hm_get (files d1) p = Some c" "parse_json L c = Some (JObject m')"
proof -
  obtain m' where m': "wire_hooks cmd m = Inr m'" "write_object L p m' d0 = (Inr (), d1)"
    using assms(2,5) by (auto simp: inject_hooks_def split: sum.splits)
  obtain c where c: "serialize L m' = Inr c" "parse_json L c = Some (JObject m')"
    using serialize_parses[OF assms(1) plain_wired[OF read_object_plain[OF assms(1-3)] assms(4) m'(1)]] by blast
  from m'(2) show thesis
    by (rule write_object_cases) (use that m'(1) c in \<open>auto simp: maps\<close>)
qed

lemma read_object_content:
  assumes "hm_get (files d) p = Some c" "parse_json L c = Some (JObject m)" "fst (read_object L p d) = Inr m1"
  shows "m1 = m"
  using assms by (auto simp: read_object_def read_file_def Let_def split: list.splits read_fault.splits)

text \<open>
  C15: removing the hooks is the exact inverse of wiring them. Wired into a file whose \<^verbatim>\<open>hooks\<close> object is
  absent or has no spnr group and nothing empty, the groups go in, the host finds them there, and
  when they are taken out the file parses to what it held, every key and event in its place.
\<close>

theorem hooks_roundtrip:
  assumes "json_lib_ok L" "read_object L p d = (Inr m, d0)" "no_floats (JObject m)" "hooks_clean m"
    and "is_spnr_hook_command cmd" "utf8_ok cmd"
    and "inject_hooks L p cmd d = (Inr (), d1)" "remove_hooks L p d1 = (Inr (), d2)"
  shows "\<exists>c. hm_get (files d2) p = Some c \<and> parse_json L c = Some (JObject m)"
proof -
  obtain m' c where m': "wire_hooks cmd m = Inr m'" "hm_get (files d1) p = Some c" "parse_json L c = Some (JObject m')"
    by (rule inject_hooks_writes[OF assms(1-3,6,7)])
  obtain m1 d1' where r: "read_object L p d1 = (Inr m1, d1')"
    using assms(8) by (auto simp: remove_hooks_def split: prod.splits sum.splits)
  with read_object_content[OF m'(2,3)] have "m1 = m'" by simp
  with r assms(8) unwire_wire[OF assms(4,5) m'(1)] have w: "write_object L p m d1' = (Inr (), d2)"
    by (simp add: remove_hooks_def)
  obtain c' where c': "serialize L m = Inr c'" "parse_json L c' = Some (JObject m)"
    using serialize_parses[OF assms(1) read_object_plain[OF assms(1-3)]] by blast
  from w show ?thesis by (rule write_object_cases) (use c' in \<open>auto simp: maps\<close>)
qed

lemma demo_clean: "hooks_clean demo_settings"
  by (simp add: hooks_clean_def demo_settings_def hm_wf_def hm_get_def SPNR_HOOK_EVENTS_def
      group_is_spnr_hook_def group_commands_def)

lemma demo_hook_command: "is_spnr_hook_command ''/x/spnr-hook''" "utf8_ok ''/x/spnr-hook''"
  by (simp_all add: is_spnr_hook_command_def ends_with_def utf8_literal)

lemma demo_wires: "\<exists>m'. wire_hooks ''/x/spnr-hook'' demo_settings = Inr m'"
  by (simp add: wire_hooks_def demo_settings_def hm_get_or_def hm_get_def SPNR_HOOK_EVENTS_def
      wire_event_def hm_insert_def)

definition demo_wired :: disk where
  "demo_wired = snd (inject_hooks demo_json ''s.json'' ''/x/spnr-hook'' demo_disk)"

lemma demo_inject_hooks: "inject_hooks demo_json ''s.json'' ''/x/spnr-hook'' demo_disk = (Inr (), demo_wired)"
proof -
  obtain m' where "wire_hooks ''/x/spnr-hook'' demo_settings = Inr m'" using demo_wires by blast
  then have "fst (inject_hooks demo_json ''s.json'' ''/x/spnr-hook'' demo_disk) = Inr ()"
    unfolding inject_hooks_def demo_read using demo_write[of _ _ demo_disk] demo_disk_writes by simp
  then show ?thesis by (simp add: demo_wired_def prod_eq_iff)
qed

lemma hooks_roundtrip_witness:
  "\<exists>c. hm_get (files (snd (remove_hooks demo_json ''s.json'' demo_wired))) ''s.json'' = Some c
     \<and> parse_json demo_json c = Some (JObject demo_settings)"
proof -
  obtain m' c where m': "wire_hooks ''/x/spnr-hook'' demo_settings = Inr m'"
      "hm_get (files demo_wired) ''s.json'' = Some c" "parse_json demo_json c = Some (JObject m')"
    by (rule inject_hooks_writes[OF demo_json_ok demo_read demo_no_floats demo_hook_command(2) demo_inject_hooks])
  have u: "unwire_hooks m' = Some demo_settings" by (rule unwire_wire[OF demo_clean demo_hook_command(1) m'(1)])
  have f: "reads demo_wired = []" "demo_wired = demo_wired\<lparr>writes := []\<rparr>"
    using fault_free_inject_hooks[of demo_disk demo_json "''s.json''" "''/x/spnr-hook''"]
    by (simp_all add: demo_wired_def fault_free_def demo_disk_def)
  have "read_object demo_json ''s.json'' demo_wired = (Inr m', demo_wired)"
    using m'(2,3) f(1) by (simp add: read_object_def read_file_def Let_def)
  then have "remove_hooks demo_json ''s.json'' demo_wired
      = write_object demo_json ''s.json'' demo_settings (demo_wired\<lparr>writes := []\<rparr>)"
    using u f(2) by (simp only: remove_hooks_def prod.case sum.case option.case)
  then have "remove_hooks demo_json ''s.json'' demo_wired = (Inr (), snd (remove_hooks demo_json ''s.json'' demo_wired))"
    by (simp add: demo_write prod_eq_iff)
  from hooks_roundtrip[OF demo_json_ok demo_read demo_no_floats demo_clean demo_hook_command demo_inject_hooks this]
  show ?thesis .
qed

end
