(* ===== verification/Cli.thy ===== *)
theory Cli
  imports Settings_Hooks Daemon
begin

section \<open>The command line (spnr-cli)\<close>

text \<open>
  What \<^verbatim>\<open>spnr\<close> finds when it is started (environment variables, the directory of the executable,
  and which system calls will fail) is the record \<open>cli_env\<close>; what it works on is the record
  \<open>machine\<close>: the disk of the settings component, the symbolic links, the datagrams sent and the lines
  printed. Parsing the arguments (clap) is outside; \<open>cli_run\<close> takes the parsed command. What
  the commands promise is in \<open>Cli_Laws\<close>.
\<close>

subsection \<open>Paths and files\<close>

text \<open>\<^verbatim>\<open>Path::join\<close> with a relative second path.\<close>

definition path_join :: "string \<Rightarrow> string \<Rightarrow> string" where
  "path_join p q = (if p = [] \<or> last p = CHR ''/'' then p @ q else p @ ''/'' @ q)"

record cli_env =
  var_spnr_home :: "string option"
  var_spnr_settings :: "string option"
  var_spnr_sock :: "string option"
  var_home :: "string option"
  exe_dir :: "string option"
  local_bin_made :: bool
  link_fails :: "string list"
  unremovable :: "string list"
  rmdir_left :: "string list"
  sock_up :: bool

text \<open>A link has its text and the path it names.\<close>

record machine =
  m_disk :: disk
  m_links :: "(string, string \<times> string) hmap"
  m_sent :: "(string \<times> bytes) list"
  m_out :: "string list"

text \<open>\<^verbatim>\<open>Path::exists\<close> follows links, at most 40 of them.\<close>

fun exists_at :: "nat \<Rightarrow> machine \<Rightarrow> string \<Rightarrow> bool" where
  "exists_at n M p =
     (case hm_get (m_links M) p of
        None \<Rightarrow> hm_get (files (m_disk M)) p \<noteq> None
      | Some (_, q) \<Rightarrow> (case n of 0 \<Rightarrow> False | Suc k \<Rightarrow> exists_at k M q))"

declare exists_at.simps [simp del]

definition path_exists :: "machine \<Rightarrow> string \<Rightarrow> bool" where
  "path_exists M p = exists_at 40 M p"

definition delete_paths :: "(string \<Rightarrow> bool) \<Rightarrow> machine \<Rightarrow> machine" where
  "delete_paths P M = M\<lparr>
     m_disk := (m_disk M)\<lparr>files := filter (\<lambda>kv. \<not> P (fst kv)) (files (m_disk M))\<rparr>,
     m_links := filter (\<lambda>kv. \<not> P (fst kv)) (m_links M)\<rparr>"

definition remove_file :: "cli_env \<Rightarrow> string \<Rightarrow> machine \<Rightarrow> machine" where
  "remove_file W p M = (if p \<in> set (unremovable W) then M else delete_paths (\<lambda>q. q = p) M)"

text \<open>\<^verbatim>\<open>symlink\<close> fails on a name that is taken.\<close>

definition make_link :: "cli_env \<Rightarrow> string \<Rightarrow> string \<Rightarrow> machine \<Rightarrow> bool \<times> machine" where
  "make_link W src dst M =
     (if dst \<in> set (link_fails W) \<or> hm_get (files (m_disk M)) dst \<noteq> None \<or> hm_get (m_links M) dst \<noteq> None
      then (False, M)
      else (True, M\<lparr>m_links := hm_insert dst (src, src) (m_links M)\<rparr>))"

definition under :: "string \<Rightarrow> string \<Rightarrow> bool" where
  "under dir p \<longleftrightarrow> dir \<noteq> [] \<and> starts_with (path_join dir []) p"

definition remove_dir_all :: "cli_env \<Rightarrow> string \<Rightarrow> machine \<Rightarrow> machine" where
  "remove_dir_all W dir = delete_paths (\<lambda>p. under dir p \<and> p \<notin> set (rmdir_left W))"

definition println :: "string \<Rightarrow> machine \<Rightarrow> machine" where
  "println s M = M\<lparr>m_out := m_out M @ [s]\<rparr>"

subsection \<open>Where things are\<close>

definition home_or_dot :: "cli_env \<Rightarrow> string" where
  "home_or_dot W = (case var_home W of None \<Rightarrow> ''.'' | Some h \<Rightarrow> h)"

definition spnr_home :: "cli_env \<Rightarrow> string" where
  "spnr_home W = (case var_spnr_home W of Some p \<Rightarrow> p | None \<Rightarrow> path_join (home_or_dot W) ''.spnr'')"

definition cli_settings_path :: "cli_env \<Rightarrow> string" where
  "cli_settings_path W = (case var_spnr_settings W of Some p \<Rightarrow> p
     | None \<Rightarrow> path_join (path_join (home_or_dot W) ''.claude'') ''settings.json'')"

definition sock_path :: "cli_env \<Rightarrow> string \<Rightarrow> string" where
  "sock_path W home = (case var_spnr_sock W of Some p \<Rightarrow> p | None \<Rightarrow> path_join home ''spnrd.sock'')"

definition local_bin :: "cli_env \<Rightarrow> string" where
  "local_bin W = path_join (path_join (home_or_dot W) ''.local'') ''bin''"

definition send_cmd :: "cli_env \<Rightarrow> socket_cmd \<Rightarrow> string \<Rightarrow> machine \<Rightarrow> machine" where
  "send_cmd W c sock M = (if sock_up W then M\<lparr>m_sent := m_sent M @ [(sock, encode (Cmd c))]\<rparr> else M)"

subsection \<open>Audit and status\<close>

definition queue_file :: "string \<Rightarrow> machine \<Rightarrow> disk_file \<times> machine" where
  "queue_file home M =
     (case read_file (path_join home ''queue.log'') (m_disk M) of
        (Content b, d) \<Rightarrow> (Some b, M\<lparr>m_disk := d\<rparr>) | (_, d) \<Rightarrow> (None, M\<lparr>m_disk := d\<rparr>))"

definition audit_records :: "string \<Rightarrow> machine \<Rightarrow> string list \<times> machine" where
  "audit_records home M = (case queue_file home M of (f, M1) \<Rightarrow> (map utf8_lossy (read_queue f), M1))"

definition status_summary :: "string \<Rightarrow> string \<Rightarrow> machine \<Rightarrow> string \<times> machine" where
  "status_summary home settings M =
     (case queue_file home M of (f, M1) \<Rightarrow>
        (case read_file settings (m_disk M1) of (r, d2) \<Rightarrow>
           (let injected = (case r of Content s \<Rightarrow> utf8_ok s \<and> str_contains ''\"spinnerVerbs\"'' s | _ \<Rightarrow> False)
            in (''spnr: '' @ show_nat (length (read_queue f)) @ '' queued event(s); spinner ''
                 @ (if injected then ''injected'' else ''stock''), M1\<lparr>m_disk := d2\<rparr>))))"

subsection \<open>Links to the binaries\<close>

definition BINARIES :: "string list" where
  "BINARIES = [''spnr'', ''spnrd'', ''spnr-hook'', ''spnr-status'']"

definition link_binary :: "cli_env \<Rightarrow> string \<Rightarrow> string \<Rightarrow> string list \<times> machine \<Rightarrow> string list \<times> machine" where
  "link_binary W bindir name = (\<lambda>(names, M).
     (let src = path_join bindir name; dst = path_join (local_bin W) name
      in if \<not> path_exists M src then (names, M)
         else (case make_link W src dst (remove_file W dst M) of
                 (ok, M1) \<Rightarrow> (if ok then names @ [name] else names, M1))))"

definition symlink_binaries :: "cli_env \<Rightarrow> string \<Rightarrow> machine \<Rightarrow> string list \<times> machine" where
  "symlink_binaries W bindir M =
     (if \<not> local_bin_made W then ([], M) else fold (link_binary W bindir) BINARIES ([], M))"

definition remove_symlink :: "cli_env \<Rightarrow> string \<Rightarrow> machine \<Rightarrow> machine" where
  "remove_symlink W name M =
     (let p = path_join (local_bin W) name
      in (case hm_get (m_links M) p of
            None \<Rightarrow> M
          | Some (t, _) \<Rightarrow> if str_contains ''spnr'' (utf8_lossy t) then remove_file W p M else M))"

definition remove_symlinks :: "cli_env \<Rightarrow> machine \<Rightarrow> machine" where
  "remove_symlinks W = fold (remove_symlink W) BINARIES"

subsection \<open>Commands\<close>

datatype cli_error = NoBinDir | HookMissing string | SnapshotFailed settings_error | WireFailed settings_error

definition arrow :: string where "arrow = map byte_of [226, 134, 146]"
definition em_dash :: string where "em_dash = map byte_of [226, 128, 148]"

fun join_str :: "string \<Rightarrow> string list \<Rightarrow> string" where
  "join_str sep [] = []"
| "join_str sep [x] = x"
| "join_str sep (x # y # ys) = x @ sep @ join_str sep (y # ys)"

definition install_report :: "string \<Rightarrow> string \<Rightarrow> string \<Rightarrow> string \<Rightarrow> string list \<Rightarrow> string list" where
  "install_report settings hook_cmd backup server names =
     [''spnr installed into '' @ utf8_lossy settings @ '':'',
      ''  hooks wired   '' @ arrow @ '' '' @ hook_cmd @ '' ('' @ join_str '', '' SPNR_HOOK_EVENTS @ '')'',
      ''  existing hooks left untouched '' @ mid_dot @ '' pristine settings backed up '' @ arrow @ '' ''
        @ utf8_lossy backup]
     @ (if names = [] then []
        else [''  binaries linked '' @ arrow @ '' ~/.local/bin/{'' @ join_str '','' names @ ''}''])
     @ ['''',
        ''Start the daemon to fetch a creative and inject the spinner:'',
        ''  SPNR_SERVER='' @ server @ '' spnrd &'',
        ''Then run a Claude Code turn '' @ em_dash @ '' the spinner shows the sponsored verb and'',
        ''the status line shows your live earnings. Reverse anytime with `spnr uninstall`.'']"

definition do_install ::
  "json_lib \<Rightarrow> cli_env \<Rightarrow> string \<Rightarrow> string \<Rightarrow> string \<Rightarrow> machine \<Rightarrow> (cli_error + unit) \<times> machine" where
  "do_install L W settings home server M =
     (case exe_dir W of
        None \<Rightarrow> (Inl NoBinDir, M)
      | Some bindir \<Rightarrow>
          (let hook_bin = path_join bindir ''spnr-hook''
           in if \<not> path_exists M hook_bin then (Inl (HookMissing (utf8_lossy hook_bin)), M)
              else
                (let hook_cmd = utf8_lossy hook_bin; backup = path_join home ''backup.json''
                 in (case snapshot L settings backup (m_disk M) of
                       (Inl e, d1) \<Rightarrow> (Inl (SnapshotFailed e), M\<lparr>m_disk := d1\<rparr>)
                     | (Inr _, d1) \<Rightarrow>
                         (case inject_hooks L settings hook_cmd d1 of
                            (Inl e, d2) \<Rightarrow> (Inl (WireFailed e), M\<lparr>m_disk := d2\<rparr>)
                          | (Inr _, d2) \<Rightarrow>
                              (case symlink_binaries W bindir (M\<lparr>m_disk := d2\<rparr>) of (names, M3) \<Rightarrow>
                                 (Inr (), fold println (install_report settings hook_cmd backup server names) M3)))))))"

definition do_uninstall :: "json_lib \<Rightarrow> cli_env \<Rightarrow> string \<Rightarrow> string \<Rightarrow> machine \<Rightarrow> machine" where
  "do_uninstall L W settings home M =
     (let backup = path_join home ''backup.json'';
          d1 = snd (restore L settings backup (m_disk M));
          d2 = snd (remove_hooks L settings d1)
      in remove_dir_all W home (remove_symlinks W (M\<lparr>m_disk := d2\<rparr>)))"

datatype cli_command =
    CliInstall string | CliLogin | CliStatus | CliRedeem | CliPause | CliResume | CliAudit | CliUninstall

definition LOGIN_URL :: string where "LOGIN_URL = ''https://spnr.sh/login''"
definition REDEEM_URL :: string where "REDEEM_URL = ''https://spnr.co/redeem''"

fun cli_run :: "json_lib \<Rightarrow> cli_env \<Rightarrow> cli_command \<Rightarrow> machine \<Rightarrow> (cli_error + unit) \<times> machine" where
  "cli_run L W (CliInstall server) M = do_install L W (cli_settings_path W) (spnr_home W) server M"
| "cli_run L W CliLogin M = (Inr (), fold println
     [''spnr login is not available yet '' @ em_dash @ '' the auth backend lands in the next slice.'',
      ''When live, this opens exactly: '' @ LOGIN_URL] M)"
| "cli_run L W CliStatus M =
     (case status_summary (spnr_home W) (cli_settings_path W) M of (s, M1) \<Rightarrow> (Inr (), println s M1))"
| "cli_run L W CliRedeem M = (Inr (), fold println
     [''spnr redeem is not available yet '' @ em_dash @ '' the settlement backend lands in the next slice.'',
      ''When live, this opens exactly: '' @ REDEEM_URL] M)"
| "cli_run L W CliPause M =
     (let backup = path_join (spnr_home W) ''backup.json'';
          d1 = snd (restore L (cli_settings_path W) backup (m_disk M))
      in (Inr (), println (''spnr paused '' @ em_dash @ '' stock spinner restored.'')
            (send_cmd W Pause (sock_path W (spnr_home W)) (M\<lparr>m_disk := d1\<rparr>))))"
| "cli_run L W CliResume M =
     (Inr (), println ''spnr resumed.'' (send_cmd W Resume (sock_path W (spnr_home W)) M))"
| "cli_run L W CliAudit M =
     (case audit_records (spnr_home W) M of (records, M1) \<Rightarrow>
        (Inr (), if records = [] then println ''(no queued events)'' M1 else fold println records M1))"
| "cli_run L W CliUninstall M =
     (Inr (), println (''spnr uninstalled '' @ em_dash @ '' settings restored from snapshot, state removed.'')
        (do_uninstall L W (cli_settings_path W) (spnr_home W) M))"

end
