(* ===== verification/Cli_Laws.thy ===== *)
theory Cli_Laws
  imports Cli
begin

section \<open>What installing and uninstalling promise (spnr-cli)\<close>

text \<open>
  Which paths the commands touch, and from that: an uninstallation undoes the installation and
  whatever the daemon and the user did to the settings in between; and what happens to a real binary
  in \<^verbatim>\<open>~/.local/bin\<close>.
\<close>

subsection \<open>Deleting and linking\<close>

lemma hm_get_filter: "hm_get (filter (\<lambda>kv. \<not> P (fst kv)) m) k = (if P k then None else hm_get m k)"
  unfolding hm_get_def by (induction m) auto

lemma delete_paths_get [simp]:
  "hm_get (files (m_disk (delete_paths P M))) p = (if P p then None else hm_get (files (m_disk M)) p)"
  "hm_get (m_links (delete_paths P M)) p = (if P p then None else hm_get (m_links M) p)"
  by (simp_all add: delete_paths_def hm_get_filter)

definition same_at :: "string \<Rightarrow> machine \<Rightarrow> machine \<Rightarrow> bool" where
  "same_at p M M' \<longleftrightarrow> hm_get (files (m_disk M')) p = hm_get (files (m_disk M)) p
     \<and> hm_get (m_links M') p = hm_get (m_links M) p
     \<and> reads (m_disk M') = reads (m_disk M) \<and> writes (m_disk M') = writes (m_disk M)"

lemma same_at_refl [simp]: "same_at p M M" by (simp add: same_at_def)

lemma same_at_trans: "same_at p M M' \<Longrightarrow> same_at p M' M'' \<Longrightarrow> same_at p M M''"
  by (simp add: same_at_def)

lemma delete_paths_same: "\<not> P p \<Longrightarrow> same_at p M (delete_paths P M)"
  by (simp add: same_at_def) (simp add: delete_paths_def)

lemma remove_file_same: "p \<noteq> q \<Longrightarrow> same_at p M (remove_file W q M)"
  by (simp add: remove_file_def delete_paths_same)

lemma make_link_same: "p \<noteq> dst \<Longrightarrow> same_at p M (snd (make_link W src dst M))"
  by (simp add: make_link_def same_at_def maps)

definition link_names :: "cli_env \<Rightarrow> string set" where
  "link_names W = path_join (local_bin W) ` set BINARIES"

lemma link_binary_same:
  assumes "p \<noteq> path_join (local_bin W) name"
  shows "same_at p (snd x) (snd (link_binary W dir name x))"
proof -
  let ?dst = "path_join (local_bin W) name" and ?M = "snd x"
  have "same_at p ?M (snd (make_link W src ?dst (remove_file W ?dst ?M)))" for src
    using same_at_trans[OF remove_file_same[OF assms] make_link_same[OF assms]] .
  from this[of "path_join dir name"] show ?thesis
    by (auto simp: link_binary_def Let_def split: prod.splits)
qed

lemma symlink_binaries_same:
  assumes "p \<notin> link_names W" shows "same_at p M (snd (symlink_binaries W dir M))"
proof -
  have "set ns \<subseteq> set BINARIES \<Longrightarrow> same_at p (snd x) (snd (fold (link_binary W dir) ns x))" for ns x
  proof (induction ns arbitrary: x)
    case (Cons n ns)
    then have "p \<noteq> path_join (local_bin W) n" using assms by (auto simp: link_names_def)
    from same_at_trans[OF link_binary_same[OF this] Cons.IH] Cons.prems show ?case by simp
  qed simp
  from this[of BINARIES "([], M)"] show ?thesis by (simp add: symlink_binaries_def)
qed

text \<open>Removing the links leaves alone whatever is not a link.\<close>

lemma remove_symlink_same: "hm_get (m_links M) p = None \<Longrightarrow> same_at p M (remove_symlink W n M)"
  by (auto simp: remove_symlink_def Let_def intro!: remove_file_same split: option.split)

lemma remove_symlinks_same: "hm_get (m_links M) p = None \<Longrightarrow> same_at p M (remove_symlinks W M)"
proof -
  have "hm_get (m_links M) p = None \<Longrightarrow> same_at p M (fold (remove_symlink W) ns M)" for ns M
  proof (induction ns arbitrary: M)
    case (Cons n ns)
    then have 1: "same_at p M (remove_symlink W n M)" by (simp add: remove_symlink_same)
    with Cons have "same_at p (remove_symlink W n M) (fold (remove_symlink W) ns (remove_symlink W n M))"
      by (simp add: same_at_def)
    with 1 show ?case using same_at_trans by fastforce
  qed simp
  then show "hm_get (m_links M) p = None \<Longrightarrow> same_at p M (remove_symlinks W M)"
    by (simp add: remove_symlinks_def)
qed

lemma println_same: "m_disk (fold println ls M) = m_disk M" "m_links (fold println ls M) = m_links M"
  by (induction ls arbitrary: M) (simp_all add: println_def)

lemma backup_no_link: "path_join home ''backup.json'' \<notin> link_names W"
proof -
  have "last (path_join home ''backup.json'') = CHR ''n''" by (simp add: path_join_def)
  moreover have "last (path_join dir name) \<noteq> CHR ''n''" if "name \<in> set BINARIES" for dir name
    using that by (auto simp: BINARIES_def path_join_def)
  ultimately show ?thesis by (auto simp: link_names_def)
qed

lemma backup_under: "home \<noteq> [] \<Longrightarrow> under home (path_join home ''backup.json'')"
  by (simp add: under_def starts_with_def path_join_def)

subsection \<open>Settings without spnr groups\<close>

lemma unwire_clean:
  assumes "hooks_clean m" shows "unwire_hooks m = None \<or> unwire_hooks m = Some m"
proof (cases "hm_get m ''hooks''")
  case None
  then show ?thesis by (simp add: unwire_hooks_def)
next
  case (Some v)
  have wf: "hm_wf m" using assms by (simp add: hooks_clean_def)
  obtain h where h: "v = JObject h" "hm_wf h" "h \<noteq> []"
    and clean: "\<And>e v. e \<in> set SPNR_HOOK_EVENTS \<Longrightarrow> hm_get h e = Some v \<Longrightarrow>
      \<exists>a. v = JArray a \<and> a \<noteq> [] \<and> list_all (\<lambda>g. \<not> group_is_spnr_hook g) a"
    using assms Some by (fastforce simp: hooks_clean_def list_all_iff split: json.splits)
  have "on_events drop_groups (set SPNR_HOOK_EVENTS) h = h"
    unfolding on_events_def
  proof (rule map_idI)
    fix kv assume "kv \<in> set h"
    then have "hm_get h (fst kv) = Some (snd kv)" by (simp add: hm_get_Some_set[OF h(2)])
    with clean[of "fst kv"]
    show "(if fst kv \<in> set SPNR_HOOK_EVENTS then (fst kv, drop_groups (snd kv)) else kv) = kv"
      by (cases kv) (fastforce simp: list_all_iff)
  qed
  then have r: "fold retain_foreign SPNR_HOOK_EVENTS h = h" by (simp add: retain_all h(2))
  have "fold prune_event SPNR_HOOK_EVENTS (h @ []) = h"
    using clean h(2) by (intro prune_all) auto
  moreover have "hm_insert ''hooks'' (JObject h) m = m"
    using Some unfolding h(1) hm_insert_def hm_get_def by (induction m) (auto split: if_splits)
  ultimately show ?thesis using Some r h(1,3) by (simp add: unwire_hooks_def)
qed

subsection \<open>Install, then uninstall\<close>

lemma install_steps:
  assumes "cli_run L W (CliInstall server) M = (Inr (), M1)"
    and "s = cli_settings_path W" "b = path_join (spnr_home W) ''backup.json''"
  obtains cmd d1 d2 dir where "exe_dir W = Some dir" "snapshot L s b (m_disk M) = (Inr (), d1)"
    "inject_hooks L s cmd d1 = (Inr (), d2)"
    "m_disk M1 = m_disk (snd (symlink_binaries W dir (M\<lparr>m_disk := d2\<rparr>)))"
    "m_links M1 = m_links (snd (symlink_binaries W dir (M\<lparr>m_disk := d2\<rparr>)))"
  using assms
  by (auto simp: do_install_def Let_def println_same split: option.splits if_splits prod.splits sum.splits)

lemma install_keeps_backup:
  assumes "cli_run L W (CliInstall server) M = (Inr (), M1)"
    and "s = cli_settings_path W" "b = path_join (spnr_home W) ''backup.json''" "s \<noteq> b"
    and "json_lib_ok L" "hm_get (files (m_disk M)) b = None" "read_object L s (m_disk M) = (Inr m, d0)"
    and "no_floats (JObject m)"
  obtains snap where "hm_get (files (m_disk M1)) b = Some snap" "parse_json L snap = Some (JObject m)"
proof (rule install_steps[OF assms(1-3)])
  fix cmd d1 d2 dir
  assume i: "snapshot L s b (m_disk M) = (Inr (), d1)" "inject_hooks L s cmd d1 = (Inr (), d2)"
    "m_disk M1 = m_disk (snd (symlink_binaries W dir (M\<lparr>m_disk := d2\<rparr>)))"
  obtain snap where s: "hm_get (files d1) b = Some snap" "parse_json L snap = Some (JObject m)"
    using snapshot_content[OF assms(5-8) i(1)] by blast
  then have "hm_get (files d2) b = Some snap"
    using backup_kept[OF assms(4) s(1), of L "OpInjectHooks cmd"] i(2) by simp
  moreover have "same_at b (M\<lparr>m_disk := d2\<rparr>) (snd (symlink_binaries W dir (M\<lparr>m_disk := d2\<rparr>)))"
    by (rule symlink_binaries_same) (simp only: assms(3) backup_no_link not_False_eq_True)
  ultimately show thesis using that s(2) i(3) by (simp add: same_at_def)
qed

lemma uninstall_restores:
  assumes "json_lib_ok L" "s \<noteq> path_join home ''backup.json''" "\<not> under home s" "fault_free (m_disk M)"
    and "hm_get (files (m_disk M)) (path_join home ''backup.json'') = Some snap"
    and "parse_json L snap = Some (JObject m)" "plain_json (JObject m)" "hooks_clean m"
    and "hm_get (m_links M) s = None"
  shows "\<exists>c. hm_get (files (m_disk (do_uninstall L W s home M))) s = Some c \<and> parse_json L c = Some (JObject m)"
proof -
  let ?b = "path_join home ''backup.json''"
  define d1 where "d1 = snd (restore L s ?b (m_disk M))"
  define d2 where "d2 = snd (remove_hooks L s d1)"
  have "restore L s ?b (m_disk M) = (Inr (), d1)"
    using fault_free_restore[OF assms(4,5), of L s] assms(6) by (simp add: d1_def)
  then have s1: "hm_get (files d1) s = Some snap"
    by (rule restore_files) (use assms(5) in \<open>auto simp: maps\<close>)
  have f1: "reads d1 = []"
    using fault_free_try_restore[OF assms(4), of L "\<lparr>settings_path = s, backup_path = ?b, verbs = [], statusline = None\<rparr>"]
    by (simp add: try_restore_def d1_def fault_free_def)
  have r: "read_object L s d1 = (Inr m, d1)"
    using s1 f1 assms(6) by (simp add: read_object_def read_file_def Let_def)
  have "\<exists>c. hm_get (files d2) s = Some c \<and> parse_json L c = Some (JObject m)"
  proof (cases "unwire_hooks m")
    case None
    then show ?thesis using r s1 assms(6) by (simp add: d2_def remove_hooks_def)
  next
    case (Some m')
    then have "unwire_hooks m = Some m" using unwire_clean[OF assms(8)] by simp
    then have d2: "d2 = snd (write_object L s m d1)" using r by (simp add: d2_def remove_hooks_def)
    obtain c where c: "serialize L m = Inr c" "parse_json L c = Some (JObject m)"
      using serialize_parses[OF assms(1,7)] by blast
    obtain x d' where w: "write_object L s m d1 = (x, d')" by force
    then show ?thesis
      by (rule write_object_cases) (use d2 w c s1 assms(6) in \<open>auto simp: maps\<close>)
  qed
  then obtain c where c: "hm_get (files d2) s = Some c" "parse_json L c = Some (JObject m)" by blast
  have "same_at s (M\<lparr>m_disk := d2\<rparr>) (remove_symlinks W (M\<lparr>m_disk := d2\<rparr>))"
    by (rule remove_symlinks_same) (simp add: assms(9))
  with c assms(3) show ?thesis
    by (simp add: do_uninstall_def Let_def remove_dir_all_def same_at_def d1_def d2_def)
qed

text \<open>
  C5: an uninstallation gives the host back the settings it had before the installation. Let the
  settings have no floating-point numbers, their \<^verbatim>\<open>hooks\<close>, if there are any, be an object that is not empty, with under each event spnr
  uses either nothing or a list that is not empty and has no group with spnr's hook (\<open>hooks_clean\<close>:
  removing the hooks prunes what is empty and drops such groups), let there be no backup of an earlier installation, the settings file be no symbolic link and lie outside spnr's
  directory, and no read or write fail during the uninstallation. Then, whatever the daemon, the host
  and the user wrote to the settings after the installation, and whatever failed then, the settings
  file parses afterwards to what it held before (groups of the user's own included), and nothing is
  left in spnr's directory but what could not be deleted.
\<close>

theorem uninstall_returns_to_stock:
  assumes "json_lib_ok L" "s = cli_settings_path W" "b = path_join (spnr_home W) ''backup.json''"
    and "spnr_home W \<noteq> []" "\<not> under (spnr_home W) s"
    and "hm_get (files (m_disk M)) b = None" "read_object L s (m_disk M) = (Inr m, d0)"
    and "no_floats (JObject m)" "hooks_clean m" "cli_run L W (CliInstall server) M = (Inr (), M1)"
    and "m_disk M2 = fold (settings_step L s b) ops (m_disk M1)" "fault_free (m_disk M2)"
    and "hm_get (m_links M2) s = None" "cli_run L W CliUninstall M2 = (r, M3)"
  shows "(\<exists>c. hm_get (files (m_disk M3)) s = Some c \<and> parse_json L c = Some (JObject m))
    \<and> {p. under (spnr_home W) p \<and> hm_get (files (m_disk M3)) p \<noteq> None} \<subseteq> set (rmdir_left W)"
proof -
  have sb: "s \<noteq> b" using backup_under[OF assms(4)] assms(3,5) by auto
  obtain snap where k: "hm_get (files (m_disk M1)) b = Some snap" "parse_json L snap = Some (JObject m)"
    by (rule install_keeps_backup[OF assms(10,2,3) sb assms(1,6-8)])
  have k2: "hm_get (files (m_disk M2)) b = Some snap"
    unfolding assms(11) by (rule backup_kept_run[OF sb k(1)])
  have M3: "m_disk M3 = m_disk (do_uninstall L W s (spnr_home W) M2)"
    using assms(14) println_same(1)[of "[l]" for l] by (auto simp: assms(2) println_def)
  have "\<exists>c. hm_get (files (m_disk M3)) s = Some c \<and> parse_json L c = Some (JObject m)"
    unfolding M3
    by (rule uninstall_restores[OF assms(1) sb[unfolded assms(3)] assms(5,12) k2[unfolded assms(3)] k(2)
      read_object_plain[OF assms(1,7,8)] assms(9,13)])
  moreover have "{p. under (spnr_home W) p \<and> hm_get (files (m_disk M3)) p \<noteq> None} \<subseteq> set (rmdir_left W)"
    unfolding M3 do_uninstall_def Let_def remove_dir_all_def by auto
  ultimately show ?thesis by blast
qed

subsection \<open>A witness\<close>

definition demo_cli :: cli_env where
  "demo_cli = \<lparr>var_spnr_home = Some ''/h'', var_spnr_settings = Some ''s.json'', var_spnr_sock = None,
     var_home = Some ''/u'', exe_dir = Some ''/x'', local_bin_made = True, link_fails = [],
     unremovable = [], rmdir_left = [], sock_up = True\<rparr>"

definition demo_machine :: machine where
  "demo_machine = \<lparr>m_disk = demo_disk\<lparr>files := files demo_disk @ [(''/x/spnr-hook'', ''elf'')]\<rparr>,
     m_links = [], m_sent = [], m_out = []\<rparr>"

lemma demo_write_fine: "fault_free d \<Longrightarrow> fst (write_object demo_json q m d) = Inr ()"
  by (simp add: fault_free_def write_object_def serialize_def demo_json_def atomic_write_def Let_def)

lemma demo_content:
  obtains c where "hm_get (files demo_disk) ''s.json'' = Some c" "parse_json demo_json c = Some (JObject demo_settings)"
  using demo_read by (auto simp: read_object_def read_file_def Let_def demo_disk_def hm_get_def demo_settings_def
      split: option.splits json.splits)

lemma read_plainly:
  "fault_free d \<Longrightarrow> hm_get (files d) p = Some c \<Longrightarrow> parse_json L c = Some (JObject m) \<Longrightarrow>
     read_object L p d = (Inr m, d)"
  by (simp add: read_object_def read_file_def Let_def fault_free_def)

lemma demo_installs:
  obtains M1 where "cli_run demo_json demo_cli (CliInstall ''http'') demo_machine = (Inr (), M1)"
    "fault_free (m_disk M1)" "hm_get (m_links M1) ''s.json'' = None"
    "read_object demo_json ''s.json'' (m_disk demo_machine) = (Inr demo_settings, m_disk demo_machine)"
proof -
  let ?s = "''s.json''" and ?b = "''/h/backup.json''" and ?c = "''/x/spnr-hook''" and ?d = "m_disk demo_machine"
  obtain c where c: "hm_get (files demo_disk) ?s = Some c" "parse_json demo_json c = Some (JObject demo_settings)"
    by (rule demo_content)
  have f: "fault_free ?d" "hm_get (files ?d) ?b = None"
    by (simp_all add: demo_machine_def demo_disk_def hm_get_def fault_free_def)
  have cd: "hm_get (files ?d) ?s = Some c" using c(1) by (simp add: demo_machine_def demo_disk_def hm_get_def)
  have r: "read_object demo_json ?s ?d = (Inr demo_settings, ?d)" by (rule read_plainly[OF f(1) cd c(2)])
  obtain d1 where d1: "write_object demo_json ?b demo_settings ?d = (Inr (), d1)"
    using demo_write_fine[OF f(1), of ?b demo_settings] by (metis prod.collapse)
  have sn: "snapshot demo_json ?s ?b ?d = (Inr (), d1)" by (simp add: snapshot_def f(2) r d1)
  have f1: "fault_free d1" using fault_free_write_object[OF f(1), of demo_json ?b demo_settings] d1 by simp
  have "hm_get (files d1) ?s = Some c" using d1 by (rule write_object_cases) (use cd in \<open>auto simp: maps\<close>)
  then have r1: "read_object demo_json ?s d1 = (Inr demo_settings, d1)" using f1 c(2) by (simp add: read_plainly)
  obtain m' where m': "wire_hooks ?c demo_settings = Inr m'" using demo_wires by blast
  obtain d2 where d2: "write_object demo_json ?s m' d1 = (Inr (), d2)"
    using demo_write_fine[OF f1, of ?s m'] by (metis prod.collapse)
  have ih: "inject_hooks demo_json ?s ?c d1 = (Inr (), d2)" by (simp add: inject_hooks_def r1 m' d2)
  have f2: "fault_free d2" using fault_free_write_object[OF f1, of demo_json ?s m'] d2 by simp
  let ?M = "demo_machine\<lparr>m_disk := d2\<rparr>"
  obtain ns M3 where sy: "symlink_binaries demo_cli ''/x'' ?M = (ns, M3)" by force
  have env: "cli_settings_path demo_cli = ?s" "path_join (spnr_home demo_cli) ''backup.json'' = ?b"
    "path_join ''/x'' ''spnr-hook'' = ?c" "exe_dir demo_cli = Some ''/x''"
    by (simp_all add: demo_cli_def cli_settings_path_def spnr_home_def path_join_def)
  have ex: "path_exists demo_machine ?c"
    by (simp add: path_exists_def exists_at.simps demo_machine_def demo_disk_def hm_get_def)
  have cmd: "utf8_lossy ?c = ?c" by (rule utf8_lossy_ascii) (simp add: byte_val_def)
  define M1 where "M1 = fold println (install_report ?s ?c ?b ''http'' ns) M3"
  have "cli_run demo_json demo_cli (CliInstall ''http'') demo_machine = (Inr (), M1)"
    unfolding cli_run.simps do_install_def env(4) by (simp add: env ex cmd sn ih sy M1_def)
  moreover have "same_at ?s ?M M3"
    using symlink_binaries_same[of ?s demo_cli ?M "''/x''"] sy
    by (simp add: link_names_def BINARIES_def path_join_def local_bin_def home_or_dot_def demo_cli_def)
  then have "fault_free (m_disk M1)" "hm_get (m_links M1) ?s = None"
    using f2 by (simp_all add: M1_def println_same same_at_def fault_free_def demo_machine_def)
  ultimately show thesis using that r by blast
qed

lemma uninstall_returns_to_stock_witness:
  "\<exists>M1 M3 c. cli_run demo_json demo_cli (CliInstall ''http'') demo_machine = (Inr (), M1)
     \<and> cli_run demo_json demo_cli CliUninstall M1 = (Inr (), M3)
     \<and> hm_get (files (m_disk M3)) ''s.json'' = Some c \<and> parse_json demo_json c = Some (JObject demo_settings)"
proof (rule demo_installs)
  fix M1
  assume i: "cli_run demo_json demo_cli (CliInstall ''http'') demo_machine = (Inr (), M1)"
    "fault_free (m_disk M1)" "hm_get (m_links M1) ''s.json'' = None"
    "read_object demo_json ''s.json'' (m_disk demo_machine) = (Inr demo_settings, m_disk demo_machine)"
  have env: "''s.json'' = cli_settings_path demo_cli" "''/h/backup.json'' = path_join (spnr_home demo_cli) ''backup.json''"
    "spnr_home demo_cli \<noteq> []" "\<not> under (spnr_home demo_cli) ''s.json''"
    by (simp_all add: demo_cli_def cli_settings_path_def spnr_home_def path_join_def under_def starts_with_def)
  have nb: "hm_get (files (m_disk demo_machine)) ''/h/backup.json'' = None"
    by (simp add: demo_machine_def demo_disk_def hm_get_def)
  obtain M3 where u: "cli_run demo_json demo_cli CliUninstall M1 = (Inr (), M3)" by simp
  have "m_disk M1 = fold (settings_step demo_json ''s.json'' ''/h/backup.json'') [] (m_disk M1)" by simp
  from uninstall_returns_to_stock[OF demo_json_ok env nb i(4) demo_no_floats demo_clean i(1) this i(2,3) u]
  show ?thesis using i(1) u by blast
qed

subsection \<open>Installing from the directory of the links\<close>

lemma link_to_itself: "hm_get (m_links M) p = Some (t, p) \<Longrightarrow> \<not> exists_at n M p"
  by (induction n) (simp_all add: exists_at.simps)

text \<open>
  \<^verbatim>\<open>symlink_binaries\<close> removes whatever has the name of a link. Run from \<^verbatim>\<open>~/.local/bin\<close> itself, it
  deletes the binaries and leaves links that point at themselves.
\<close>

lemma install_from_local_bin_deletes_binary:
  assumes "local_bin W = dir" "p = path_join dir name" "unremovable W = []" "link_fails W = []"
    and "hm_get (files (m_disk M)) p = Some elf" "hm_get (m_links M) p = None"
  shows "hm_get (files (m_disk (snd (link_binary W dir name (ns, M))))) p = None"
    and "\<not> path_exists (snd (link_binary W dir name (ns, M))) p"
proof -
  have ex: "path_exists M p" using assms(5,6) by (simp add: path_exists_def exists_at.simps)
  have g: "snd (link_binary W dir name (ns, M)) = (remove_file W p M)\<lparr>m_links := hm_insert p (p, p) (m_links (remove_file W p M))\<rparr>"
    using assms(1-4) ex by (simp add: link_binary_def make_link_def remove_file_def Let_def)
  show "hm_get (files (m_disk (snd (link_binary W dir name (ns, M))))) p = None"
    using assms(3) by (simp add: g remove_file_def)
  show "\<not> path_exists (snd (link_binary W dir name (ns, M))) p"
    unfolding path_exists_def by (rule link_to_itself[where t = p]) (simp add: g maps)
qed

end
