(* ===== verification/Startup.thy ===== *)
theory Startup
  imports Cli_Laws
begin

section \<open>The daemon's start, and the paths the four binaries agree on\<close>

text \<open>
  \<^verbatim>\<open>main\<close> of spnrd up to its receive loop: where it keeps its files, the pool it takes over, the
  injection through the adapter. The environment variables and the directory of the executable are
  those of \<open>cli_env\<close>. Lemmas: the served texts reach the spinner and nothing else of the host's
  settings changes; pausing and resuming from the command line; when the socket that the hook writes
  to is the one the daemon reads from.
\<close>

subsection \<open>Paths\<close>

definition daemon_home :: "cli_env \<Rightarrow> string" where
  "daemon_home W = (case var_spnr_home W of Some p \<Rightarrow> p | None \<Rightarrow> path_join (home_or_dot W) ''.spnr'')"

definition daemon_settings_path :: "cli_env \<Rightarrow> string" where
  "daemon_settings_path W = (case var_spnr_settings W of Some p \<Rightarrow> p
     | None \<Rightarrow> path_join (path_join (home_or_dot W) ''.claude'') ''settings.json'')"

definition daemon_sock :: "cli_env \<Rightarrow> string" where
  "daemon_sock W = path_join (daemon_home W) ''spnrd.sock''"

definition hook_sock_path :: "cli_env \<Rightarrow> string" where
  "hook_sock_path W = (case var_spnr_sock W of Some p \<Rightarrow> p
     | None \<Rightarrow> path_join (path_join (home_or_dot W) ''.spnr'') ''spnrd.sock'')"

definition status_sock_path :: "cli_env \<Rightarrow> string" where
  "status_sock_path W = (case var_spnr_sock W of Some p \<Rightarrow> p
     | None \<Rightarrow> path_join (path_join (home_or_dot W) ''.spnr'') ''spnrd.sock'')"

text \<open>\<^verbatim>\<open>SPNR_STATUS_CACHE\<close> is the first argument.\<close>

definition status_cache_path :: "string option \<Rightarrow> cli_env \<Rightarrow> string" where
  "status_cache_path var_cache W = (case var_cache of Some p \<Rightarrow> p
     | None \<Rightarrow> path_join (path_join (home_or_dot W) ''.spnr'') ''status.cache'')"

definition status_command :: "cli_env \<Rightarrow> machine \<Rightarrow> string" where
  "status_command W M =
     (case exe_dir W of
        None \<Rightarrow> ''spnr-status''
      | Some d \<Rightarrow>
          (let p = path_join d ''spnr-status''
           in if path_exists M p then utf8_lossy p else ''spnr-status''))"

subsection \<open>main\<close>

definition ad_text :: "ad \<Rightarrow> string" where
  "ad_text a = (case a of (_, txt, _, _) \<Rightarrow> txt)"

definition daemon_main ::
  "json_lib \<Rightarrow> crypto \<Rightarrow> cli_env \<Rightarrow> bytes \<Rightarrow> disk_fault \<Rightarrow> string option \<Rightarrow> string option \<Rightarrow> machine \<Rightarrow> daemon \<times> machine" where
  "daemon_main L C W csprng fault server body M =
     (let home = daemon_home W;
          d = daemon_new C csprng (hm_get (files (m_disk M)) (path_join home ''queue.log''))
                (hm_get (files (m_disk M)) (path_join home ''status.cache''))
      in (case server of
            None \<Rightarrow> (d, M)
          | Some srv \<Rightarrow>
              (let pool = serve_creatives (parse_json L) body;
                   adapter = \<lparr>settings_path = daemon_settings_path W,
                     backup_path = path_join home ''backup.json'', verbs = map ad_text pool,
                     statusline = Some (status_command W M)\<rparr>
               in (start_networked srv pool fault d,
                   if pool = [] then M else M\<lparr>m_disk := adapter_inject L adapter (m_disk M)\<rparr>))))"

subsection \<open>Which paths agree\<close>

lemma same_home: "daemon_home W = spnr_home W" "daemon_settings_path W = cli_settings_path W"
  by (simp_all add: daemon_home_def spnr_home_def daemon_settings_path_def cli_settings_path_def)

lemma path_join_append: "path_join p q = path_join p [] @ q"
  by (simp add: path_join_def)

text \<open>
  The hook and the status line find the daemon's socket unless \<^verbatim>\<open>SPNR_SOCK\<close> names another one, or
  \<^verbatim>\<open>SPNR_HOME\<close> moves the daemon's directory: the daemon and the command line follow \<^verbatim>\<open>SPNR_HOME\<close>, the
  hook and the status line do not.
\<close>

lemma sockets_agree:
  "var_spnr_sock W = None \<Longrightarrow> var_spnr_home W = None \<Longrightarrow>
     hook_sock_path W = daemon_sock W \<and> status_sock_path W = daemon_sock W \<and> sock_path W (spnr_home W) = daemon_sock W"
  by (simp add: hook_sock_path_def status_sock_path_def sock_path_def daemon_sock_def daemon_home_def spnr_home_def)

lemma spnr_home_hides_the_socket:
  "var_spnr_sock W = None \<Longrightarrow> var_spnr_home W = Some h \<Longrightarrow>
     hook_sock_path W = daemon_sock W \<longleftrightarrow> path_join h [] = path_join (path_join (home_or_dot W) ''.spnr'') []"
  unfolding hook_sock_path_def daemon_sock_def daemon_home_def
  by (simp add: path_join_append[of h "''spnrd.sock''"]
      path_join_append[of "path_join (home_or_dot W) ''.spnr''" "''spnrd.sock''"] eq_commute)

subsection \<open>The pool\<close>

lemma map_filter_all:
  "(\<And>x y. x \<in> set xs \<Longrightarrow> f x = Some y \<Longrightarrow> P y) \<Longrightarrow> list_all P (List.map_filter f xs)"
  by (auto simp: List.map_filter_def list_all_iff)

lemma wf_member: "json_wf v \<Longrightarrow> json_get v k = Some w \<Longrightarrow> json_wf w"
  by (cases v) (fastforce simp: hm_get_def list_all_iff dest!: map_of_SomeD)+

lemma parse_creative_utf8: "json_wf v \<Longrightarrow> parse_creative v = Some a \<Longrightarrow> utf8_ok (ad_text a)"
proof -
  assume v: "json_wf v" "parse_creative v = Some a"
  then obtain t where "get_str v ''text'' = Some t" "ad_text a = t"
    by (auto simp: parse_creative_def ad_text_def split: option.splits)
  moreover from this(1) obtain w where "json_get v ''text'' = Some w" "as_str w = Some t"
    by (auto simp: get_str_def split: option.splits)
  ultimately show ?thesis using wf_member[OF v(1), of "''text''" w] by (cases w) auto
qed

lemma pool_utf8:
  assumes "json_lib_ok L"
  shows "list_all (\<lambda>a. utf8_ok (ad_text a)) (serve_creatives (parse_json L) body)"
proof -
  have wf: "json_wf v" if "parse_json L b = Some v" for b v
    using assms that unfolding json_lib_ok_def by blast
  have one: "utf8_ok (ad_text a)" if "json_wf v" "json_get v k = Some c" "parse_creative c = Some a" for v k c a
    using parse_creative_utf8[OF wf_member[OF that(1,2)] that(3)] .
  have many: "list_all (\<lambda>a. utf8_ok (ad_text a)) (List.map_filter parse_creative arr)"
    if "json_wf v" "json_get v k = Some c" "as_array c = Some arr" for v k c arr
  proof (rule map_filter_all)
    fix x a assume x: "x \<in> set arr" "parse_creative x = Some a"
    have "json_wf c" by (rule wf_member[OF that(1,2)])
    then have "json_wf x" using that(3) x(1) by (cases c) (auto simp: list_all_iff)
    then show "utf8_ok (ad_text a)" using x(2) by (rule parse_creative_utf8)
  qed
  show ?thesis
    by (cases body) (auto simp: serve_creatives_def Let_def intro: many one wf split: option.split)
qed

subsection \<open>Lossy decoding gives valid UTF-8\<close>

lemma take_while_one: "length (takeWhile P (take (Suc 0) xs)) = Suc 0 \<longleftrightarrow> (\<exists>c ys. xs = c # ys \<and> P c)"
  by (cases xs) auto

lemma take_while_two:
  "length (takeWhile P (take (Suc (Suc 0)) xs)) = Suc (Suc 0) \<longleftrightarrow> (\<exists>c e ys. xs = c # e # ys \<and> P c \<and> P e)"
  by (cases xs; cases "tl xs") auto

lemma utf8_head_ok:
  assumes "utf8_head a s = (True, k)" shows "utf8_ok (a # take k s @ r) = utf8_ok r"
proof -
  obtain n where n: "utf8_tail_len a = Some n"
    using assms by (auto simp: utf8_head_def split: option.splits)
  consider "n = 0" "byte_val a < 128" | "n = 1" "\<not> byte_val a < 128" "byte_in 194 223 a"
    | "n = 2" "\<not> byte_val a < 128" "\<not> byte_in 194 223 a" "byte_in 224 239 a"
    | "n = 3" "\<not> byte_val a < 128" "\<not> byte_in 194 223 a" "\<not> byte_in 224 239 a" "byte_in 240 244 a"
    using n by (auto simp: utf8_tail_len_def split: if_splits)
  then show ?thesis
  proof cases
    case 1
    with assms n show ?thesis
      by (cases s) (auto simp: utf8_head_def utf8_ok.simps(2))
  next
    case 2
    with assms n obtain b s' where "s = b # s'" "utf8_second a b" "k = 1"
      by (cases s) (auto simp: utf8_head_def Let_def split: if_splits)
    with 2 show ?thesis by (auto simp: utf8_ok.simps(2) utf8_second_def byte_in_def)
  next
    case 3
    with assms n obtain b c s' where "s = b # c # s'" "utf8_second a b" "utf8_cont c" "k = 2"
      by (cases s) (auto simp: utf8_head_def Let_def numeral_2_eq_2 take_while_one split: if_splits)
    with 3 show ?thesis by (auto simp: utf8_ok.simps(2) utf8_second_def byte_in_def numeral_2_eq_2)
  next
    case 4
    with assms n obtain b c e s' where "s = b # c # e # s'" "utf8_second a b" "utf8_cont c" "utf8_cont e" "k = 3"
      by (cases s) (auto simp: utf8_head_def Let_def numeral_3_eq_3 take_while_two split: if_splits)
    with 4 show ?thesis by (auto simp: utf8_ok.simps(2) utf8_second_def byte_in_def numeral_3_eq_3)
  qed
qed

lemma utf8_lossy_ok: "utf8_ok (utf8_lossy b)"
proof (induction b rule: utf8_lossy.induct)
  case (2 a s)
  obtain ok k where h: "utf8_head a s = (ok, k)" by force
  have "utf8_ok (map byte_of [239, 191, 189] @ r) = utf8_ok r" for r
    by (simp add: utf8_ok.simps(2) byte_in_def utf8_cont_def)
  with 2[OF h[symmetric]] utf8_head_ok[of a s k] h show ?case
    by (simp add: utf8_lossy.simps(2))
qed simp

lemma status_command_utf8: "utf8_ok (status_command W M)"
  by (simp add: status_command_def Let_def utf8_lossy_ok utf8_literal split: option.split)

subsection \<open>The injection at the start\<close>

lemma write_fine:
  assumes "fault_free d" "serialize L m = Inr c"
  shows "write_object L p m d = (Inr (), d\<lparr>files := hm_insert p c (files d)\<rparr>)"
  using assms by (cases d) (simp add: write_object_def atomic_write_def fault_free_def)

lemma read_object_same:
  assumes "read_object L p d = (Inr m, d0)" "hm_get (files d') p = hm_get (files d) p" "fault_free d" "fault_free d'"
  shows "read_object L p d' = (Inr m, d')"
  using assms by (cases d') (auto simp: read_object_def read_file_def Let_def fault_free_def split: option.splits json.splits)

lemma try_inject_works:
  assumes L: "json_lib_ok L" and sb: "settings_path A \<noteq> backup_path A" and f: "fault_free d"
    and r: "read_object L (settings_path A) d = (Inr m, d0)" "no_floats (JObject m)"
    and u: "list_all utf8_ok (verbs A)" "pred_option utf8_ok (statusline A)"
  obtains d1 c where "try_inject L A d = (Inr (), d1)" "hm_get (files d1) (settings_path A) = Some c"
    "parse_json L c = Some (JObject (injected_map (verbs A) (statusline A) m))"
    "hm_get (files d1) (backup_path A) \<noteq> None"
proof -
  let ?s = "settings_path A" and ?b = "backup_path A"
  have pm: "plain_json (JObject m)" by (rule read_object_plain[OF L r])
  obtain c0 where c0: "serialize L m = Inr c0" using serialize_parses[OF L pm] by blast
  obtain c where c: "serialize L (injected_map (verbs A) (statusline A) m) = Inr c"
      "parse_json L c = Some (JObject (injected_map (verbs A) (statusline A) m))"
    using serialize_parses[OF L plain_injected[OF pm u]] by blast
  have r': "read_object L ?s d = (Inr m, d)" by (rule read_object_same[OF r(1) refl f f])
  obtain d2 where d2: "snapshot L ?s ?b d = (Inr (), d2)" "fault_free d2" "hm_get (files d2) ?b \<noteq> None"
      "hm_get (files d2) ?s = hm_get (files d) ?s"
  proof (cases "hm_get (files d) ?b")
    case None
    then have "snapshot L ?s ?b d = (Inr (), d\<lparr>files := hm_insert ?b c0 (files d)\<rparr>)"
      by (simp add: snapshot_def r' write_fine[OF f c0])
    then show thesis by (rule that) (use f sb in \<open>simp_all add: fault_free_def maps\<close>)
  next
    case (Some x)
    then show thesis using that[of d] f by (simp add: snapshot_def)
  qed
  have "read_object L ?s d2 = (Inr m, d2)" by (rule read_object_same[OF r(1) d2(4) f d2(2)])
  then have "try_inject L A d = (Inr (), d2\<lparr>files := hm_insert ?s c (files d2)\<rparr>)"
    by (simp add: try_inject_def d2(1) inject_def write_fine[OF d2(2) c(1)])
  then show thesis by (rule that) (use c(2) d2(3) sb in \<open>simp_all add: maps\<close>)
qed

lemma write_status_cache_ads: "d_ads (write_status_cache fault d) = d_ads d"
  by (simp add: write_status_cache_def featured_ad_def Let_def split: prod.split)

lemma start_networked_ads:
  assumes "pool \<noteq> []"
  shows "map snd (d_ads (start_networked srv pool fault d)) = map ad_text pool"
    and "d_tx (start_networked srv pool fault d) = Some []"
proof -
  obtain i t u k ps where p: "pool = (i, t, u, k) # ps" using assms by (cases pool) auto
  show "map snd (d_ads (start_networked srv pool fault d)) = map ad_text pool"
    by (simp add: start_networked_def p write_status_cache_ads ad_text_def case_prod_beta comp_def)
  show "d_tx (start_networked srv pool fault d) = Some []"
    by (simp add: start_networked_def)
qed

text \<open>
  C21: the texts the server serves are the ones the spinner shows. When the daemon starts on a disk
  that works, the host's settings afterwards list the texts of the pool, in order, as the spinner's
  verbs and the daemon's status line command (whatever status line the user had), every other member
  is as it was, a snapshot exists, and the daemon rotates over the same texts.
\<close>

theorem served_ads_reach_the_spinner:
  assumes "json_lib_ok L" "s = daemon_settings_path W" "b = path_join (daemon_home W) ''backup.json''" "s \<noteq> b"
    and "fault_free (m_disk M)" "read_object L s (m_disk M) = (Inr m, d0)" "no_floats (JObject m)"
    and "serve_creatives (parse_json L) body = pool" "pool \<noteq> []"
    and "daemon_main L C W csprng fault (Some srv) body M = (d, M')"
  shows "\<exists>c m'. hm_get (files (m_disk M')) s = Some c \<and> parse_json L c = Some (JObject m')
    \<and> hm_get m' ''spinnerVerbs'' = Some (JObject [(''mode'', JString ''replace''),
        (''verbs'', JArray (map (\<lambda>a. JString (ad_text a)) pool))])
    \<and> hm_get m' ''statusLine'' = Some (JObject [(''type'', JString ''command''),
        (''command'', JString (status_command W M)), (''refreshInterval'', json_uint 1)])
    \<and> filter (\<lambda>kv. fst kv \<notin> set SPNR_OWNED_KEYS) m' = filter (\<lambda>kv. fst kv \<notin> set SPNR_OWNED_KEYS) m
    \<and> hm_get (files (m_disk M')) b \<noteq> None \<and> map snd (d_ads d) = map ad_text pool \<and> d_tx d = Some []"
proof -
  let ?A = "\<lparr>settings_path = s, backup_path = b, verbs = map ad_text pool, statusline = Some (status_command W M)\<rparr>"
  have "list_all utf8_ok (verbs ?A)"
    using pool_utf8[OF assms(1), of body] by (simp add: assms(8) list.pred_map comp_def)
  moreover have "pred_option utf8_ok (statusline ?A)" by (simp add: status_command_utf8)
  ultimately obtain d1 c where i: "try_inject L ?A (m_disk M) = (Inr (), d1)" "hm_get (files d1) s = Some c"
    "parse_json L c = Some (JObject (injected_map (map ad_text pool) (Some (status_command W M)) m))"
    "hm_get (files d1) b \<noteq> None"
    using try_inject_works[of L ?A "m_disk M" m d0] assms(1,4-7) by auto
  have a: "adapter_inject L ?A (m_disk M) = d1" by (simp only: adapter_inject_def i(1) snd_conv)
  let ?d0 = "daemon_new C csprng (hm_get (files (m_disk M)) (path_join (daemon_home W) ''queue.log''))
      (hm_get (files (m_disk M)) (path_join (daemon_home W) ''status.cache''))"
  have "daemon_main L C W csprng fault (Some srv) body M = (start_networked srv pool fault ?d0, M\<lparr>m_disk := d1\<rparr>)"
    unfolding daemon_main_def Let_def option.case assms(8) assms(2,3)[symmetric] a
    by (simp only: assms(9) if_False)
  then have d: "d = start_networked srv pool fault ?d0" and "M' = M\<lparr>m_disk := d1\<rparr>"
    unfolding assms(10) prod.inject by blast+
  then have M': "m_disk M' = d1" by simp
  have "map snd (d_ads d) = map ad_text pool" "d_tx d = Some []"
    unfolding d using start_networked_ads[OF assms(9)] by blast+
  with i(2-4) show ?thesis
    by (intro exI[of _ c] exI[of _ "injected_map (map ad_text pool) (Some (status_command W M)) m"])
      (simp add: M' injected_get injected_foreign comp_def)
qed

text \<open>A response with one advertisement, in the code of \<open>demo_json\<close>.\<close>

definition demo_pool_json :: json where
  "demo_pool_json = JObject [(''creative'', JObject [(''id'', JString ''cr1''), (''text'', JString ''Try Acme''),
     (''url'', JString ''u''), (''short_code'', JString ''ac'')])]"

definition demo_pool_body :: string where
  "demo_pool_body = enc demo_pool_json @ [newline]"

lemma demo_pool: "serve_creatives (parse_json demo_json) (Some demo_pool_body) = [(''cr1'', ''Try Acme'', ''u'', ''ac'')]"
proof -
  have "plain_json demo_pool_json" by (simp add: demo_pool_json_def plain_json_def hm_wf_def utf8_literal)
  then have "parse_json demo_json demo_pool_body = Some demo_pool_json"
    using demo_json_ok by (auto simp: json_lib_ok_def demo_pool_body_def demo_json_def)
  then show ?thesis
    by (simp add: serve_creatives_def Let_def parse_creative_def get_str_def hm_get_def demo_pool_json_def)
qed

lemma served_ads_reach_the_spinner_witness:
  "\<exists>c m'. hm_get (files (m_disk (snd (daemon_main demo_json demo_crypto demo_cli [] NoFault (Some ''http'')
        (Some demo_pool_body) demo_machine)))) ''s.json'' = Some c
     \<and> parse_json demo_json c = Some (JObject m')
     \<and> hm_get m' ''spinnerVerbs'' = Some (JObject [(''mode'', JString ''replace''), (''verbs'', JArray [JString ''Try Acme''])])"
proof (rule demo_installs)
  assume r: "read_object demo_json ''s.json'' (m_disk demo_machine) = (Inr demo_settings, m_disk demo_machine)"
  let ?r = "daemon_main demo_json demo_crypto demo_cli [] NoFault (Some ''http'') (Some demo_pool_body) demo_machine"
  have s: "''s.json'' = daemon_settings_path demo_cli" "''s.json'' \<noteq> path_join (daemon_home demo_cli) ''backup.json''"
    by (simp_all add: demo_cli_def daemon_settings_path_def daemon_home_def path_join_def)
  have f: "fault_free (m_disk demo_machine)" by (simp add: demo_machine_def demo_disk_def fault_free_def)
  have d: "?r = (fst ?r, snd ?r)" by simp
  from served_ads_reach_the_spinner[OF demo_json_ok s(1) refl s(2) f r demo_no_floats demo_pool _ d]
  show ?thesis by (auto simp: ad_text_def)
qed

subsection \<open>Pausing and resuming from the command line\<close>

lemma pause_restores:
  assumes "s = cli_settings_path W" "b = path_join (spnr_home W) ''backup.json''" "fault_free (m_disk M)"
    and "hm_get (files (m_disk M)) b = Some snap" "parse_json L snap \<noteq> None" "cli_run L W CliPause M = (r, M')"
  shows "hm_get (files (m_disk M')) s = Some snap"
proof -
  have "restore L s b (m_disk M) = (Inr (), snd (restore L s b (m_disk M)))"
    by (rule fault_free_restore[OF assms(3-5)])
  then have "hm_get (files (snd (restore L s b (m_disk M)))) s = Some snap"
    by (rule restore_files) (use assms(4) in \<open>auto simp: maps\<close>)
  then show ?thesis
    using assms(6) by (auto simp: send_cmd_def println_def Let_def assms(1,2))
qed

text \<open>
  C40: a pause gives the host its stock settings and tells the daemon, whether or not the daemon runs;
  but a resume does not undo it. After a pause and a resume the daemon counts again, while the
  settings still are the ones from before the installation, without the verbs, the status line and
  the hooks.
\<close>

theorem resume_leaves_settings_stock:
  assumes "json_lib_ok L" "s = cli_settings_path W" "b = path_join (spnr_home W) ''backup.json''" "s \<noteq> b"
    and "hm_get (files (m_disk M)) b = None" "read_object L s (m_disk M) = (Inr m, d0)" "no_floats (JObject m)"
    and "cli_run L W (CliInstall server) M = (Inr (), M1)"
    and "m_disk M2 = fold (settings_step L s b) ops (m_disk M1)" "fault_free (m_disk M2)" "m_sent M2 = []"
    and "cli_run L W CliPause M2 = (Inr (), M3)" "cli_run L W CliResume M3 = (Inr (), M4)" "sock_up W"
    and "d' = fold (\<lambda>(_, datagram). receive C w datagram now) (m_sent M4) d"
  shows "(\<exists>c. hm_get (files (m_disk M3)) s = Some c \<and> parse_json L c = Some (JObject m))
    \<and> m_disk M4 = m_disk M3 \<and> \<not> d_paused d'
    \<and> map fst (m_sent M4) = [sock_path W (spnr_home W), sock_path W (spnr_home W)]"
proof -
  obtain snap where k: "hm_get (files (m_disk M1)) b = Some snap" "parse_json L snap = Some (JObject m)"
    by (rule install_keeps_backup[OF assms(8,2,3,4,1,5-7)])
  have k2: "hm_get (files (m_disk M2)) b = Some snap"
    unfolding assms(9) by (rule backup_kept_run[OF assms(4) k(1)])
  have "hm_get (files (m_disk M3)) s = Some snap"
    by (rule pause_restores[OF assms(2,3,10) k2 _ assms(12)]) (simp add: k(2))
  moreover have M4: "m_disk M4 = m_disk M3" "m_sent M4 = m_sent M3 @ [(sock_path W (spnr_home W), encode (Cmd Resume))]"
    using assms(13,14) by (auto simp: println_def send_cmd_def)
  moreover have M3: "m_sent M3 = [(sock_path W (spnr_home W), encode (Cmd Pause))]"
    using assms(11,12,14) by (auto simp: println_def send_cmd_def Let_def)
  moreover have dec: "decode (take 65536 (encode (Cmd c))) = Some (Cmd c)" for c
    using decode_encode_any[of "Cmd c"] by (cases c) simp_all
  have "\<not> d_paused d'"
    unfolding assms(15) M4(2) M3 by (simp add: receive_def dec handle_def del: encode.simps)
  ultimately show ?thesis using k(2) by simp
qed

lemma resume_leaves_settings_stock_witness:
  "\<exists>M1 M3 M4 c. cli_run demo_json demo_cli (CliInstall ''http'') demo_machine = (Inr (), M1)
     \<and> cli_run demo_json demo_cli CliPause (M1\<lparr>m_sent := []\<rparr>) = (Inr (), M3)
     \<and> cli_run demo_json demo_cli CliResume M3 = (Inr (), M4)
     \<and> hm_get (files (m_disk M3)) ''s.json'' = Some c \<and> parse_json demo_json c = Some (JObject demo_settings)"
proof (rule demo_installs)
  fix M1
  assume i: "cli_run demo_json demo_cli (CliInstall ''http'') demo_machine = (Inr (), M1)"
    "fault_free (m_disk M1)"
    "read_object demo_json ''s.json'' (m_disk demo_machine) = (Inr demo_settings, m_disk demo_machine)"
  let ?M2 = "M1\<lparr>m_sent := []\<rparr>"
  have env: "''s.json'' = cli_settings_path demo_cli" "''/h/backup.json'' = path_join (spnr_home demo_cli) ''backup.json''"
    "''s.json'' \<noteq> ''/h/backup.json''"
    by (simp_all add: demo_cli_def cli_settings_path_def spnr_home_def path_join_def)
  have nb: "hm_get (files (m_disk demo_machine)) ''/h/backup.json'' = None"
    by (simp add: demo_machine_def demo_disk_def hm_get_def)
  have up: "sock_up demo_cli" by (simp add: demo_cli_def)
  have o: "m_disk ?M2 = fold (settings_step demo_json ''s.json'' ''/h/backup.json'') [] (m_disk M1)" by simp
  have f: "fault_free (m_disk ?M2)" "m_sent ?M2 = []" using i(2) by simp_all
  obtain M3 where p: "cli_run demo_json demo_cli CliPause ?M2 = (Inr (), M3)" by (simp add: Let_def)
  obtain M4 where q: "cli_run demo_json demo_cli CliResume M3 = (Inr (), M4)" by simp
  from resume_leaves_settings_stock[OF demo_json_ok env nb i(3) demo_no_floats i(1) o f p q up refl]
  show ?thesis using i(1) p q by blast
qed

end
