(* ===== verification/Server_Main.thy ===== *)
theory Server_Main
  imports Server_Runs Server_Http
begin

section \<open>The server's start (main of spnr-server, open of db.rs)\<close>

text \<open>
  The configuration from the environment, the opening of the database file and the state that is
  served. The files are a map from paths to the tables in them; the network is the address that is
  bound. Lemmas: the defaults; started again on the same file the server has the same books, and on
  \<^verbatim>\<open>:memory:\<close> it has none.
\<close>

subsection \<open>The clock\<close>

text \<open>The seconds since the epoch, or None for a clock before it.\<close>

definition now_unix :: "u64 option \<Rightarrow> i64" where
  "now_unix clock = (case clock of Some secs \<Rightarrow> secs | None \<Rightarrow> 0)"

subsection \<open>Configuration\<close>

text \<open>The variables that are set and UTF-8.\<close>

record server_env =
  env_port :: "string option"
  env_db :: "string option"
  env_host :: "string option"
  env_home :: "string option"
  env_admin_token :: "string option"

type_synonym u16 = "16 word"

definition parse_u16 :: "string \<Rightarrow> u16 option" where
  "parse_u16 s =
     (case parse_digits (case s of c # s' \<Rightarrow> (if c = CHR ''+'' then s' else s) | [] \<Rightarrow> s) of
        None \<Rightarrow> None
      | Some n \<Rightarrow> (if n < 2 ^ 16 then Some (of_nat n) else None))"

definition server_port :: "server_env \<Rightarrow> u16" where
  "server_port E = (case Option.bind (env_port E) parse_u16 of Some p \<Rightarrow> p | None \<Rightarrow> 8787)"

definition server_db_path :: "server_env \<Rightarrow> string" where
  "server_db_path E =
     (case env_db E of
        Some p \<Rightarrow> p
      | None \<Rightarrow>
          (let home = (case env_home E of Some h \<Rightarrow> h | None \<Rightarrow> ''.'')
           in home @ ''/.spnr-server.db''))"

definition server_host :: "server_env \<Rightarrow> string" where
  "server_host E = (case env_host E of Some h \<Rightarrow> h | None \<Rightarrow> ''127.0.0.1'')"

subsection \<open>Opening\<close>

text \<open>
  \<^verbatim>\<open>open\<close>: \<^verbatim>\<open>init_schema\<close> creates what is not there yet. \<open>openable\<close> says whether SQLite can open the
  file of that path.
\<close>

definition db_open :: "(string \<Rightarrow> bool) \<Rightarrow> (string \<Rightarrow> conn option) \<Rightarrow> string \<Rightarrow> sql_error + conn" where
  "db_open openable db_files path =
     (if path = '':memory:'' then Inr empty_conn
      else if \<not> openable path then Inl OtherError
      else (case db_files path of Some c \<Rightarrow> Inr c | None \<Rightarrow> Inr empty_conn))"

text \<open>The address that is bound and the state behind the router; \<open>bindable\<close> says whether binding works.\<close>

datatype start_error = StoreError sql_error | BindError

definition server_main ::
    "crypto \<Rightarrow> u64 option \<Rightarrow> server_env \<Rightarrow> (string \<Rightarrow> bool) \<Rightarrow> (string \<Rightarrow> conn option) \<Rightarrow>
     (string \<times> u16 \<Rightarrow> bool) \<Rightarrow> start_error + ((string \<times> u16) \<times> app_state)" where
  "server_main C clock E openable db_files bindable =
     (let port = server_port E;
          db_path = server_db_path E;
          host = server_host E
      in (case db_open openable db_files db_path of
            Inl e \<Rightarrow> Inl (StoreError e)
          | Inr c \<Rightarrow>
              (case fst (open_state C (now_unix clock) (env_admin_token E) c) of
                 Inl e \<Rightarrow> Inl (StoreError e)
               | Inr state \<Rightarrow>
                   (if bindable (host, port) then Inr ((host, port), state) else Inl BindError))))"

subsection \<open>What it starts with\<close>

lemma port_examples:
  "parse_u16 ''65535'' = Some 65535" "parse_u16 ''65536'' = None" "parse_u16 ''-1'' = None"
  "parse_u16 '''' = None" "parse_u16 ''+80'' = Some 80" "parse_u16 '' 80'' = None"
  by (simp_all add: parse_u16_def parse_digits_def is_digit_def byte_val_def)

text \<open>A port that does not parse is no error: the default is taken.\<close>

lemma bad_port_is_default:
  "parse_u16 p = None \<Longrightarrow> server_port (E\<lparr>env_port := Some p\<rparr>) = 8787"
  by (simp add: server_port_def)

text \<open>On a first start nothing has been earned; every later state is one of a run from there.\<close>

lemma first_start:
  assumes "hex_ok C" "openable (server_db_path E)" "db_files (server_db_path E) = None"
    and "bindable (server_host E, server_port E)"
  obtains s where "server_main C clock E openable db_files bindable = Inr ((server_host E, server_port E), s)"
    "reachable C A 0 s" "books_ok s" "balances s = []"
proof -
  let ?o = "fst (open_state C (now_unix clock) (env_admin_token E) empty_conn)"
  obtain s where s: "?o = Inr s" "same_books (seeded\<lparr>db := Some empty_conn\<rparr>) s"
    using restart_restores[OF assms(1) seeded_durable, of empty_conn "now_unix clock" "env_admin_token E"] by auto
  moreover have "server_main C clock E openable db_files bindable = Inr ((server_host E, server_port E), s)"
    using s(1) assms(2-4) by (simp add: server_main_def db_open_def Let_def)
  moreover have "books_ok s" using boot_state[OF assms(1) s(1)] by simp
  moreover have "balances s = []" using s(2) by (simp add: same_books_def seeded_def)
  ultimately show ?thesis using reachable.boot[OF s(1)] that by blast
qed

text \<open>Started again on the file that a running server wrote, it has that server's books.\<close>

lemma second_start:
  assumes "hex_ok C" "reachable C A n s" "n \<le> 2 ^ 63" "db s = Some c"
    and "openable (server_db_path E)" "server_db_path E \<noteq> '':memory:''" "db_files (server_db_path E) = Some c"
    and "bindable (server_host E, server_port E)"
  obtains s' where "server_main C clock E openable db_files bindable = Inr ((server_host E, server_port E), s')"
    "same_books s s'"
proof -
  have "durable C s" using reachable_inv[OF assms(1-3)] by (simp add: run_inv_def)
  then obtain s' where "fst (open_state C (now_unix clock) (env_admin_token E) c) = Inr s'" "same_books s s'"
    using restart_restores[OF assms(1) _ assms(4)] by blast
  then show ?thesis
    using assms(5-8) by (intro that) (simp_all add: server_main_def db_open_def Let_def)
qed

text \<open>With \<^verbatim>\<open>SPNR_DB=:memory:\<close> every start is a first one.\<close>

lemma memory_start_forgets:
  assumes "hex_ok C" "env_db E = Some '':memory:''"
    and "server_main C clock E openable db_files bindable = Inr (addr, s)"
  shows "balances s = [] \<and> devices s = []"
proof -
  have "fst (open_state C (now_unix clock) (env_admin_token E) empty_conn) = Inr s"
    using assms(2,3) by (auto simp: server_main_def server_db_path_def db_open_def Let_def split: sum.splits if_splits)
  then have "same_books (seeded\<lparr>db := Some empty_conn\<rparr>) s"
    using restart_restores[OF assms(1) seeded_durable, of empty_conn "now_unix clock" "env_admin_token E"] by simp
  then show ?thesis by (simp add: same_books_def seeded_def)
qed

end
