(* ===== verification/Json_Pretty.thy ===== *)
theory Json_Pretty
  imports Json_Read_Demo
begin

section \<open>Pretty-printed JSON (serde_json::to_vec_pretty)\<close>

text \<open>
  The text \<^verbatim>\<open>to_vec_pretty\<close> is documented to print, and the law \<open>json_files_ok\<close> of a JSON library on
  files: it prints that text, and reads it, and the compact text, with or without a newline at the
  end. \<open>text_json\<close> is an instance, which squeezes white space out of a text and reads the rest.
\<close>

definition new_line :: "nat \<Rightarrow> bytes" where
  "new_line k = newline # replicate (2 * k) CHR '' ''"

text \<open>
  A text with \<open>nl k\<close> between the members of level \<open>k\<close> and \<open>colon\<close> after a key: pretty, or compact.
\<close>

fun layout :: "(nat \<Rightarrow> bytes) \<Rightarrow> bytes \<Rightarrow> nat \<Rightarrow> json \<Rightarrow> bytes" where
  "layout nl colon k JNull = ''null''"
| "layout nl colon k (JBool b) = (if b then ''true'' else ''false'')"
| "layout nl colon k (JNumber n) = json_text (\<lambda>_. []) (JNumber n)"
| "layout nl colon k (JString s) = string_text s"
| "layout nl colon k (JArray vs) =
     (if vs = [] then ''[]''
      else ''['' @ nl (k + 1) @ join ('','' @ nl (k + 1)) (map (layout nl colon (k + 1)) vs) @ nl k @ '']'')"
| "layout nl colon k (JObject m) =
     (if m = [] then ''{}''
      else ''{'' @ nl (k + 1)
        @ join ('','' @ nl (k + 1)) (map (\<lambda>kv. string_text (fst kv) @ colon @ layout nl colon (k + 1) (snd kv)) m)
        @ nl k @ ''}'')"

definition to_vec_pretty :: "json \<Rightarrow> bytes" where
  "to_vec_pretty v = layout new_line '': '' 0 v"

definition compact :: "json \<Rightarrow> bytes" where
  "compact v = json_text (\<lambda>_. []) v"

definition json_files_ok :: "json_lib \<Rightarrow> bool" where
  "json_files_ok L \<longleftrightarrow> json_lib_ok L
     \<and> (\<forall>v. plain_json v \<longrightarrow> print_json L v = Some (to_vec_pretty v)
          \<and> (\<forall>t \<in> {to_vec_pretty v, compact v}. parse_json L t = Some v \<and> parse_json L (t @ [newline]) = Some v))"

subsection \<open>White space\<close>

definition json_space :: "char \<Rightarrow> bool" where
  "json_space c \<longleftrightarrow> c = CHR '' '' \<or> c = CHR 9 \<or> c = CHR 10 \<or> c = CHR 13"

text \<open>The text without the white space outside of strings; the flag says whether it starts in one.\<close>

fun squeeze :: "bool \<Rightarrow> bytes \<Rightarrow> bytes" where
  "squeeze b [] = []"
| "squeeze False (c # s) =
     (if json_space c then squeeze False s else c # squeeze (c = CHR 0x22) s)"
| "squeeze True (c # s) =
     (if c = CHR 0x5C then (case s of [] \<Rightarrow> [c] | e # s1 \<Rightarrow> c # e # squeeze True s1)
      else c # squeeze (c \<noteq> CHR 0x22) s)"

lemma squeeze_string: "squeeze True (concat (map escape_char s) @ CHR 0x22 # r)
    = concat (map escape_char s) @ CHR 0x22 # squeeze False r"
proof (induction s)
  case (Cons c s)
  have h: "hexd k \<noteq> CHR 0x22 \<and> hexd k \<noteq> CHR 0x5C" if "k < 16" for k
  proof -
    have "list_all (\<lambda>k. hexd k \<noteq> CHR 0x22 \<and> hexd k \<noteq> CHR 0x5C) [0..<16]" by code_simp
    with that show ?thesis by (simp add: list_all_iff)
  qed
  have "c \<noteq> CHR 0x22 \<and> c \<noteq> CHR 0x5C" if "byte_val c \<noteq> 34" "byte_val c \<noteq> 92"
    using that by (auto simp: byte_val_def)
  with Cons h show ?case by (simp add: escape_char_def Let_def)
qed simp

lemma squeeze_string_text: "squeeze False (string_text s @ r) = string_text s @ squeeze False r"
  using squeeze_string[of s r] by (simp add: string_text_def json_space_def)

text \<open>A piece of text without white space and strings.\<close>

definition bare_text :: "bytes \<Rightarrow> bool" where
  "bare_text t \<longleftrightarrow> list_all (\<lambda>c. \<not> json_space c \<and> c \<noteq> CHR 0x22) t"

lemma squeeze_bare: "bare_text t \<Longrightarrow> squeeze False (t @ r) = t @ squeeze False r"
  unfolding bare_text_def by (induction t) auto

lemma squeeze_new_line: "squeeze False (new_line k @ r) = squeeze False r"
proof -
  have "squeeze False (replicate n CHR '' '' @ r) = squeeze False r" for n
    by (induction n) (simp_all add: json_space_def)
  then show ?thesis by (simp add: new_line_def json_space_def newline_def)
qed

lemma bare_digits: "bare_text (show_nat n)"
proof -
  have "list_all is_digit (show_nat n)" by (rule digits_show_nat)
  then show ?thesis
    unfolding bare_text_def by (rule list.pred_mono_strong) (auto simp: is_digit_def json_space_def byte_val_def)
qed

lemma bare_i64: "bare_text (show_i64 w)"
  using bare_digits by (simp add: show_i64_def) (simp add: bare_text_def json_space_def)

lemma bare_marks: "bare_text ''null''" "bare_text ''true''" "bare_text ''false''" "bare_text ''[''" "bare_text '']''"
  "bare_text ''{''" "bare_text ''}''" "bare_text '',''" "bare_text '':''" "bare_text ''[]''" "bare_text ''{}''"
  by (simp_all add: bare_text_def json_space_def)

lemma squeeze_join:
  assumes "\<And>x r. x \<in> set xs \<Longrightarrow> squeeze False (f x @ r) = g x @ squeeze False r"
    and "\<And>r. squeeze False (sep @ r) = sep' @ squeeze False r"
  shows "squeeze False (join sep (map f xs) @ r) = join sep' (map g xs) @ squeeze False r"
  using assms(1)
proof (induction xs arbitrary: r)
  case (Cons x xs)
  then show ?case by (cases xs) (simp_all add: assms(2))
qed simp

lemma squeeze_colon: "squeeze False ('': '' @ r) = '':'' @ squeeze False r"
  by (simp add: json_space_def)

lemma squeeze_layout:
  assumes "\<And>k r. squeeze False (nl k @ r) = squeeze False r"
    and "\<And>r. squeeze False (colon @ r) = '':'' @ squeeze False r" and "no_floats v"
  shows "squeeze False (layout nl colon k v @ r) = compact v @ squeeze False r"
  using assms
proof (induction nl colon k v arbitrary: r rule: layout.induct)
  case (3 nl colon k n)
  then show ?case
    using squeeze_bare[OF bare_digits] squeeze_bare[OF bare_i64] by (cases n) (simp_all add: compact_def)
next
  case (4 nl colon k s)
  then show ?case by (simp add: compact_def squeeze_string_text)
next
  case (5 nl colon k vs)
  show ?case
  proof (cases "vs = []")
    case True
    then show ?thesis using squeeze_bare[OF bare_marks(10), of r] by (simp add: compact_def)
  next
    case False
    have "squeeze False (join ('','' @ nl (k + 1)) (map (layout nl colon (k + 1)) vs) @ nl k @ '']'' @ r)
        = join '','' (map compact vs) @ squeeze False (nl k @ '']'' @ r)"
      using 5 False squeeze_bare[OF bare_marks(8)] by (intro squeeze_join) (simp_all add: list_all_iff)
    then show ?thesis
      using False squeeze_bare[OF bare_marks(4)] squeeze_bare[OF bare_marks(5), of r]
      by (simp add: 5(2) compact_def[abs_def] json_space_def)
  qed
next
  case (6 nl colon k m)
  let ?f = "\<lambda>kv. string_text (fst kv) @ colon @ layout nl colon (k + 1) (snd kv)"
  let ?g = "\<lambda>kv. string_text (fst kv) @ '':'' @ compact (snd kv)"
  show ?case
  proof (cases "m = []")
    case True
    then show ?thesis using squeeze_bare[OF bare_marks(11), of r] by (simp add: compact_def)
  next
    case False
    have "squeeze False (?f kv @ r) = ?g kv @ squeeze False r" if "kv \<in> set m" for kv r
      using 6 False that squeeze_string_text[of "fst kv" "colon @ layout nl colon (k + 1) (snd kv) @ r"]
      by (simp add: list_all_iff)
    then have "squeeze False (join ('','' @ nl (k + 1)) (map ?f m) @ nl k @ ''}'' @ r)
        = join '','' (map ?g m) @ squeeze False (nl k @ ''}'' @ r)"
      using 6(2) squeeze_bare[OF bare_marks(8)] by (intro squeeze_join) simp_all
    then show ?thesis
      using False squeeze_bare[OF bare_marks(6)] squeeze_bare[OF bare_marks(7), of r]
      by (simp add: 6(2) compact_def[abs_def] json_space_def)
  qed
qed (use squeeze_bare[OF bare_marks(1)] squeeze_bare[OF bare_marks(2)] squeeze_bare[OF bare_marks(3)] in
    \<open>simp_all add: compact_def\<close>)

lemma compact_layout: "compact v = layout (\<lambda>_. []) '':'' k v" if "no_floats v"
  using that
proof (induction "\<lambda>_ :: nat. [] :: bytes" "'':''" k v rule: layout.induct)
  case (5 k vs)
  then have "map compact vs = map (layout (\<lambda>_. []) '':'' (k + 1)) vs" by (cases vs) (auto simp: list_all_iff)
  then show ?case by (simp add: compact_def[abs_def] del: map_eq_conv)
next
  case (6 k m)
  then have "map (\<lambda>kv. string_text (fst kv) @ '':'' @ compact (snd kv)) m
      = map (\<lambda>kv. string_text (fst kv) @ '':'' @ layout (\<lambda>_. []) '':'' (k + 1) (snd kv)) m"
    by (cases m) (auto simp: list_all_iff)
  then show ?case by (simp add: compact_def[abs_def] del: map_eq_conv)
qed (simp_all add: compact_def)

lemma squeeze_texts:
  assumes "no_floats v" "t \<in> {to_vec_pretty v, compact v}"
  shows "squeeze False t = compact v" "squeeze False (t @ [newline]) = compact v"
proof -
  have nl: "squeeze False [newline] = []" by (simp add: newline_def json_space_def)
  have p: "squeeze False (to_vec_pretty v @ r) = compact v @ squeeze False r" for r
    unfolding to_vec_pretty_def using assms(1) by (intro squeeze_layout) (simp_all add: squeeze_new_line squeeze_colon[simplified])
  have c: "squeeze False (compact v @ r) = compact v @ squeeze False r" for r
    unfolding compact_layout[OF assms(1), of 0]
    using squeeze_bare[OF bare_marks(9)] assms(1) by (subst squeeze_layout) (simp_all add: compact_layout[of v 0])
  show "squeeze False t = compact v" "squeeze False (t @ [newline]) = compact v"
    using assms(2) p[of "[]"] p[of "[newline]"] c[of "[]"] c[of "[newline]"] nl by auto
qed

definition text_json :: json_lib where
  "text_json = \<lparr>
     parse_json = (\<lambda>b. case read_json (squeeze False b) of
         None \<Rightarrow> None | Some v \<Rightarrow> if json_wf v \<and> json_depth v < 128 then Some v else None),
     print_json = (\<lambda>v. Some (to_vec_pretty v))\<rparr>"

lemma text_json_ok: "json_files_ok text_json"
proof -
  have r: "parse_json text_json t = Some v \<and> parse_json text_json (t @ [newline]) = Some v"
    if "plain_json v" "t \<in> {to_vec_pretty v, compact v}" for v t
  proof -
    have "read_json (compact v) = Some v" using read_json_ok that(1) by (simp add: json_reader_ok_def compact_def)
    with that squeeze_texts[OF _ that(2)] show ?thesis by (simp add: text_json_def plain_json_def)
  qed
  moreover have "json_wf v \<and> json_depth v < 128" if "parse_json text_json b = Some v" for b v
    using that by (auto simp: text_json_def split: option.splits if_splits)
  ultimately show ?thesis by (simp add: json_files_ok_def json_lib_ok_def text_json_def)
qed

end
