(* ===== verification/Tests_Settings.thy ===== *)
theory Tests_Settings
  imports Json_Pretty Startup
begin

section \<open>The unit tests of spnr-settings (lib.rs, mod tests)\<close>

text \<open>
  The unit tests as definitions over a JSON library \<open>L\<close> and the path of the temporary directory, on a
  disk without faults. Values are compared with the order of their keys, which \<^verbatim>\<open>==\<close> on
  \<^verbatim>\<open>serde_json::Value\<close> does not look at, so a test here asks for more. The lemmas prove the tests for
  every library with \<open>json_files_ok\<close>.
\<close>

subsection \<open>Helpers\<close>

definition empty_dir :: disk where
  "empty_dir = \<lparr>files = [], reads = [], writes = []\<rparr>"

definition paths :: "string \<Rightarrow> string \<times> string" where
  "paths dir = (path_join dir ''settings.json'', path_join dir ''backup.json'')"

definition put_file :: "string \<Rightarrow> bytes \<Rightarrow> disk \<Rightarrow> disk" where
  "put_file path b d = d\<lparr>files := hm_insert path b (files d)\<rparr>"

text \<open>None is a panic.\<close>

definition write_value :: "json_lib \<Rightarrow> string \<Rightarrow> json \<Rightarrow> disk \<Rightarrow> disk option" where
  "write_value L path v d = map_option (\<lambda>b. put_file path b d) (print_json L v)"

definition read_value :: "json_lib \<Rightarrow> string \<Rightarrow> disk \<Rightarrow> json option" where
  "read_value L path d = Option.bind (hm_get (files d) path) (parse_json L)"

abbreviation num :: "nat \<Rightarrow> json" where "num n \<equiv> JNumber (PosInt (of_nat n))"

definition corpus :: "json list" where
  "corpus =
    [JObject [],
     JObject [(''model'', JString ''claude-opus-4-8''), (''theme'', JString ''dark'')],
     JObject
       [(''model'', JString ''x''),
        (''permissions'', JObject [(''allow'', JArray [JString ''Bash(git*)'']), (''deny'', JArray [])]),
        (''hooks'', JObject [(''Stop'', JArray [JObject [(''matcher'', JString ''''), (''hooks'', JArray [])]])]),
        (''statusLine'', JObject [(''type'', JString ''command''), (''command'', JString ''~/mine.sh'')]),
        (''spinnerVerbs'', JObject [(''mode'', JString ''append''), (''verbs'', JArray [JString ''Yak-shaving''])]),
        (''nested'', JObject [(''a'', JObject [(''b'', JArray [num 1, num 2, JObject [(''c'', JBool True)]])])])],
     JObject [(''env'', JObject [(''FOO'', JString ''bar'')]), (''z_last'', num 1), (''a_first'', num 2)]]"

definition ad_verb :: "string \<Rightarrow> string" where
  "ad_verb s = s @ CHR '' '' # map byte_of [226, 134, 151]"

text \<open>\<^verbatim>\<open>value[i]\<close> with a number.\<close>

definition nth_value :: "json \<Rightarrow> nat \<Rightarrow> json" where
  "nth_value j i = (case j of JArray vs \<Rightarrow> if i < length vs then vs ! i else JNull | _ \<Rightarrow> JNull)"

subsection \<open>Spinner verbs and status line\<close>

definition inject_preserves_every_unknown_key_and_order :: "json_lib \<Rightarrow> string \<Rightarrow> bool" where
  "inject_preserves_every_unknown_key_and_order L dir \<longleftrightarrow>
     (let (settings, _) = paths dir;
          original = JObject [(''model'', JString ''m''), (''permissions'', JObject [(''allow'', JArray [])]),
            (''theme'', JString ''dark''), (''z'', num 9)]
      in (case write_value L settings original empty_dir of
            None \<Rightarrow> False
          | Some d \<Rightarrow>
              (let (r, d) = inject L settings [ad_verb ''Sponsored''] None d
               in r = Inr () \<and> (case read_value L settings d of
                    None \<Rightarrow> False
                  | Some after \<Rightarrow>
                      json_index (json_index after ''spinnerVerbs'') ''mode'' = JString ''replace''
                      \<and> json_index (json_index after ''spinnerVerbs'') ''verbs'' = JArray [JString (ad_verb ''Sponsored'')]
                      \<and> list_all (\<lambda>k. json_index after k = json_index original k)
                          [''model'', ''permissions'', ''theme'', ''z'']
                      \<and> (case after of
                           JObject m \<Rightarrow> take 4 (map fst m) = [''model'', ''permissions'', ''theme'', ''z'']
                             \<and> m \<noteq> [] \<and> fst (last m) = ''spinnerVerbs''
                         | _ \<Rightarrow> False)))))"

definition snapshot_then_inject_then_restore_is_identity :: "json_lib \<Rightarrow> string \<Rightarrow> bool" where
  "snapshot_then_inject_then_restore_is_identity L dir \<longleftrightarrow>
     list_all (\<lambda>original.
       (let (settings, backup) = paths dir
        in (case write_value L settings original empty_dir of
              None \<Rightarrow> False
            | Some d \<Rightarrow>
                (let (r1, d) = snapshot L settings backup d;
                     (r2, d) = inject L settings [ad_verb ''A'', ad_verb ''B''] (Some ''spnr-status'') d;
                     (r3, d) = restore L settings backup d
                 in r1 = Inr () \<and> r2 = Inr () \<and> r3 = Inr () \<and> read_value L settings d = Some original)))) corpus"

definition snapshot_is_idempotent_and_pristine_preserving :: "json_lib \<Rightarrow> string \<Rightarrow> bool" where
  "snapshot_is_idempotent_and_pristine_preserving L dir \<longleftrightarrow>
     (let (settings, backup) = paths dir; original = JObject [(''model'', JString ''m'')]
      in (case write_value L settings original empty_dir of
            None \<Rightarrow> False
          | Some d \<Rightarrow>
              (let (r1, d) = snapshot L settings backup d;
                   (r2, d) = inject L settings [ad_verb ''Ad''] None d;
                   (r3, d) = snapshot L settings backup d
               in r1 = Inr () \<and> r2 = Inr () \<and> r3 = Inr () \<and> read_value L backup d = Some original)))"

definition restore_is_idempotent :: "json_lib \<Rightarrow> string \<Rightarrow> bool" where
  "restore_is_idempotent L dir \<longleftrightarrow>
     (let (settings, backup) = paths dir;
          original = JObject [(''model'', JString ''m''), (''theme'', JString ''light'')]
      in (case write_value L settings original empty_dir of
            None \<Rightarrow> False
          | Some d \<Rightarrow>
              (let (r1, d) = snapshot L settings backup d;
                   (r2, d) = inject L settings [ad_verb ''Ad''] None d;
                   (r3, d) = restore L settings backup d;
                   once = read_value L settings d;
                   (r4, d) = restore L settings backup d;
                   twice = read_value L settings d
               in r1 = Inr () \<and> r2 = Inr () \<and> r3 = Inr () \<and> r4 = Inr ()
                  \<and> once = Some original \<and> once = twice)))"

definition inject_is_idempotent :: "json_lib \<Rightarrow> string \<Rightarrow> bool" where
  "inject_is_idempotent L dir \<longleftrightarrow>
     (let (settings, _) = paths dir
      in (case write_value L settings (JObject [(''model'', JString ''m'')]) empty_dir of
            None \<Rightarrow> False
          | Some d \<Rightarrow>
              (let (r1, d) = inject L settings [ad_verb ''Ad''] None d;
                   once = read_value L settings d;
                   (r2, d) = inject L settings [ad_verb ''Ad''] None d;
                   twice = read_value L settings d
               in r1 = Inr () \<and> r2 = Inr () \<and> once \<noteq> None \<and> once = twice)))"

definition missing_settings_file_is_first_run_not_error :: "json_lib \<Rightarrow> string \<Rightarrow> bool" where
  "missing_settings_file_is_first_run_not_error L dir \<longleftrightarrow>
     (let (settings, backup) = paths dir;
          (r1, d) = snapshot L settings backup empty_dir;
          (r2, d) = inject L settings [ad_verb ''Ad''] None d;
          injected = read_value L settings d;
          (r3, d) = restore L settings backup d
      in r1 = Inr () \<and> r2 = Inr ()
         \<and> (case injected of None \<Rightarrow> False
            | Some v \<Rightarrow> json_index (json_index v ''spinnerVerbs'') ''mode'' = JString ''replace'')
         \<and> r3 = Inr () \<and> read_value L settings d = Some (JObject []))"

definition is_schema_drift :: "settings_error + unit \<Rightarrow> bool" where
  "is_schema_drift r = (case r of Inl (SchemaDrift _) \<Rightarrow> True | _ \<Rightarrow> False)"

definition refuses_to_clobber_a_non_object_settings_file :: "json_lib \<Rightarrow> string \<Rightarrow> bool" where
  "refuses_to_clobber_a_non_object_settings_file L dir \<longleftrightarrow>
     (let (settings, _) = paths dir;
          d = put_file settings ''[1,2,3]'' empty_dir;
          (r, d) = inject L settings [ad_verb ''Ad''] None d
      in is_schema_drift r \<and> hm_get (files d) settings = Some ''[1,2,3]'')"

definition atomic_write_replaces_whole_file_or_nothing :: "json_lib \<Rightarrow> string \<Rightarrow> bool" where
  "atomic_write_replaces_whole_file_or_nothing L dir \<longleftrightarrow>
     (let target = path_join dir ''settings.json''
      in (case write_value L target (JObject [(''original'', JBool True)]) empty_dir of
            None \<Rightarrow> False
          | Some d \<Rightarrow>
              (let (r, d) = atomic_write target (''{\"replaced\":true}'' @ [newline]) d;
                   names = List.map_filter (\<lambda>f. strip_prefix (path_join dir []) (fst f)) (files d);
                   leftovers = filter (str_contains ''.spnr-settings-'') names
               in r = Inr () \<and> read_value L target d = Some (JObject [(''replaced'', JBool True)]) \<and> leftovers = [])))"

definition statusline_injected_with_refresh_interval_1 :: "json_lib \<Rightarrow> string \<Rightarrow> bool" where
  "statusline_injected_with_refresh_interval_1 L dir \<longleftrightarrow>
     (let (settings, _) = paths dir
      in (case write_value L settings (JObject []) empty_dir of
            None \<Rightarrow> False
          | Some d \<Rightarrow>
              (let (r, d) = inject L settings [ad_verb ''Ad''] (Some ''spnr-status'') d
               in r = Inr () \<and> (case read_value L settings d of
                    None \<Rightarrow> False
                  | Some s \<Rightarrow>
                      json_index (json_index s ''statusLine'') ''type'' = JString ''command''
                      \<and> json_index (json_index s ''statusLine'') ''command'' = JString ''spnr-status''
                      \<and> json_index (json_index s ''statusLine'') ''refreshInterval'' = num 1))))"

subsection \<open>Hook wiring\<close>

definition host_group :: "string \<Rightarrow> string \<Rightarrow> json" where
  "host_group matcher command = JObject [(''matcher'', JString matcher),
     (''hooks'', JArray [JObject [(''type'', JString ''command''), (''command'', JString command)]])]"

definition host_with_hooks :: json where
  "host_with_hooks = JObject
     [(''model'', JString ''opus''),
      (''hooks'', JObject
        [(''PreToolUse'', JArray [host_group ''Bash'' ''/h/rtk-rewrite.sh'',
            host_group ''Grep|Glob|Bash'' ''node gitnexus.cjs'']),
         (''Stop'', JArray [host_group '''' ''/h/session-end.sh''])])]"

text \<open>\<^verbatim>\<open>hooks[event][i]["hooks"][0]["command"]\<close>\<close>

definition command_at :: "json \<Rightarrow> string \<Rightarrow> nat \<Rightarrow> json" where
  "command_at hooks event i =
     json_index (nth_value (json_index (nth_value (json_index hooks event) i) ''hooks'') 0) ''command''"

definition inject_hooks_appends_without_clobbering_existing_hooks :: "json_lib \<Rightarrow> string \<Rightarrow> bool" where
  "inject_hooks_appends_without_clobbering_existing_hooks L dir \<longleftrightarrow>
     (let (settings, _) = paths dir
      in (case write_value L settings host_with_hooks empty_dir of
            None \<Rightarrow> False
          | Some d \<Rightarrow>
              (let (r, d) = inject_hooks L settings ''/bin/spnr-hook'' d
               in r = Inr () \<and> (case read_value L settings d of
                    None \<Rightarrow> False
                  | Some after \<Rightarrow>
                      (let hooks = json_index after ''hooks''
                       in json_index hooks ''PreToolUse'' = json_index (json_index host_with_hooks ''hooks'') ''PreToolUse''
                          \<and> command_at hooks ''Stop'' 0 = JString ''/h/session-end.sh''
                          \<and> map_option length (as_array (json_index hooks ''Stop'')) = Some 2
                          \<and> command_at hooks ''Stop'' 1 = JString ''/bin/spnr-hook''
                          \<and> json_index (nth_value (json_index hooks ''Stop'') 1) ''matcher'' = JString ''''
                          \<and> command_at hooks ''UserPromptSubmit'' 0 = JString ''/bin/spnr-hook''
                          \<and> command_at hooks ''SessionEnd'' 0 = JString ''/bin/spnr-hook''
                          \<and> json_get hooks ''PostToolUse'' = None
                          \<and> json_index after ''model'' = JString ''opus'')))))"

definition inject_hooks_is_idempotent :: "json_lib \<Rightarrow> string \<Rightarrow> bool" where
  "inject_hooks_is_idempotent L dir \<longleftrightarrow>
     (let (settings, _) = paths dir
      in (case write_value L settings host_with_hooks empty_dir of
            None \<Rightarrow> False
          | Some d \<Rightarrow>
              (let (r1, d) = inject_hooks L settings ''/bin/spnr-hook'' d;
                   once = read_value L settings d;
                   (r2, d) = inject_hooks L settings ''/bin/spnr-hook'' d;
                   twice = read_value L settings d
               in r1 = Inr () \<and> r2 = Inr () \<and> once = twice
                  \<and> (case twice of None \<Rightarrow> False
                     | Some v \<Rightarrow> map_option length (as_array (json_index (json_index v ''hooks'') ''Stop'')) = Some 2))))"

definition remove_hooks_is_the_precise_inverse_leaving_foreign_hooks :: "json_lib \<Rightarrow> string \<Rightarrow> bool" where
  "remove_hooks_is_the_precise_inverse_leaving_foreign_hooks L dir \<longleftrightarrow>
     (let (settings, _) = paths dir; original = host_with_hooks
      in (case write_value L settings original empty_dir of
            None \<Rightarrow> False
          | Some d \<Rightarrow>
              (let (r1, d) = inject_hooks L settings ''/bin/spnr-hook'' d;
                   (r2, d) = remove_hooks L settings d
               in r1 = Inr () \<and> r2 = Inr () \<and> read_value L settings d = Some original)))"

definition remove_hooks_matches_bare_and_absolute_commands :: "json_lib \<Rightarrow> string \<Rightarrow> bool" where
  "remove_hooks_matches_bare_and_absolute_commands L dir \<longleftrightarrow>
     (let (settings, _) = paths dir
      in (case write_value L settings
             (JObject [(''hooks'', JObject [(''Stop'', JArray [host_group '''' ''spnr-hook''])])]) empty_dir of
            None \<Rightarrow> False
          | Some d \<Rightarrow>
              (let (r, d) = remove_hooks L settings d
               in r = Inr () \<and> read_value L settings d = Some (JObject []))))"

definition snapshot_then_inject_hooks_then_restore_is_identity :: "json_lib \<Rightarrow> string \<Rightarrow> bool" where
  "snapshot_then_inject_hooks_then_restore_is_identity L dir \<longleftrightarrow>
     (let (settings, backup) = paths dir; original = host_with_hooks
      in (case write_value L settings original empty_dir of
            None \<Rightarrow> False
          | Some d \<Rightarrow>
              (let (r1, d) = snapshot L settings backup d;
                   (r2, d) = inject_hooks L settings ''/bin/spnr-hook'' d;
                   (r3, d) = inject L settings [ad_verb ''Ad''] (Some ''spnr-status'') d;
                   (r4, d) = restore L settings backup d
               in r1 = Inr () \<and> r2 = Inr () \<and> r3 = Inr () \<and> r4 = Inr () \<and> read_value L settings d = Some original)))"

definition inject_hooks_creates_hooks_block_when_absent :: "json_lib \<Rightarrow> string \<Rightarrow> bool" where
  "inject_hooks_creates_hooks_block_when_absent L dir \<longleftrightarrow>
     (let (settings, _) = paths dir
      in (case write_value L settings (JObject [(''model'', JString ''m'')]) empty_dir of
            None \<Rightarrow> False
          | Some d \<Rightarrow>
              (let (r, d) = inject_hooks L settings ''/bin/spnr-hook'' d
               in r = Inr () \<and> (case read_value L settings d of
                    None \<Rightarrow> False
                  | Some after \<Rightarrow> json_index after ''model'' = JString ''m''
                      \<and> list_all (\<lambda>ev. command_at (json_index after ''hooks'') ev 0 = JString ''/bin/spnr-hook'')
                          SPNR_HOOK_EVENTS))))"

definition inject_hooks_refuses_a_non_object_hooks_value :: "json_lib \<Rightarrow> string \<Rightarrow> bool" where
  "inject_hooks_refuses_a_non_object_hooks_value L dir \<longleftrightarrow>
     (let (settings, _) = paths dir
      in (case write_value L settings (JObject [(''hooks'', JString ''nonsense'')]) empty_dir of
            None \<Rightarrow> False
          | Some d \<Rightarrow>
              (let (r, d) = inject_hooks L settings ''/bin/spnr-hook'' d
               in is_schema_drift r \<and> read_value L settings d = Some (JObject [(''hooks'', JString ''nonsense'')]))))"

subsection \<open>What an operation does to a file that holds a value\<close>

definition holds :: "json_lib \<Rightarrow> string \<Rightarrow> json \<Rightarrow> disk \<Rightarrow> bool" where
  "holds L p v d \<longleftrightarrow> fault_free d \<and> plain_json v \<and> (\<exists>b. hm_get (files d) p = Some b \<and> parse_json L b = Some v)"

text \<open>What \<^const>\<open>read_object\<close> finds, the empty object in a missing file included.\<close>

definition finds :: "json_lib \<Rightarrow> string \<Rightarrow> json_map \<Rightarrow> disk \<Rightarrow> bool" where
  "finds L p m d \<longleftrightarrow> fault_free d \<and> plain_json (JObject m) \<and> read_object L p d = (Inr m, d)"

definition changes :: "json_lib \<Rightarrow> string \<Rightarrow> json \<Rightarrow> disk \<Rightarrow> disk \<Rightarrow> bool" where
  "changes L p v d d' \<longleftrightarrow> holds L p v d' \<and> (\<forall>q. q \<noteq> p \<longrightarrow> hm_get (files d') q = hm_get (files d) q)"

lemma holds_finds: "holds L p (JObject m) d \<Longrightarrow> finds L p m d"
  by (cases d) (auto simp: holds_def finds_def fault_free_def read_object_def read_file_def Let_def)

lemma missing_finds: "fault_free d \<Longrightarrow> hm_get (files d) p = None \<Longrightarrow> finds L p [] d"
  by (cases d) (simp add: finds_def fault_free_def read_object_def read_file_def Let_def plain_json_def hm_wf_def)

lemma holds_read: "holds L p v d \<Longrightarrow> read_value L p d = Some v"
  by (auto simp: holds_def read_value_def)

lemma changed: "changes L p v d d' \<Longrightarrow> holds L p v d'" "changes L p v d d' \<Longrightarrow> read_value L p d' = Some v"
  by (simp_all add: changes_def holds_read)

lemma unchanged: "changes L p v d d' \<Longrightarrow> holds L q w d \<Longrightarrow> q \<noteq> p \<Longrightarrow> holds L q w d'"
  by (auto simp: changes_def holds_def)

lemma found: "finds L p m d \<Longrightarrow> fault_free d" "finds L p m d \<Longrightarrow> plain_json (JObject m)"
  by (simp_all add: finds_def)

lemma changes_write:
  assumes "json_lib_ok L" "fault_free d" "plain_json (JObject m)"
  obtains d' where "write_object L p m d = (Inr (), d')" "changes L p (JObject m) d d'"
proof -
  obtain c where c: "serialize L m = Inr c" "parse_json L c = Some (JObject m)"
    using serialize_parses[OF assms(1,3)] by blast
  show ?thesis
    by (rule that[OF write_fine[OF assms(2) c(1)]]) (use assms c(2) in \<open>simp add: changes_def holds_def fault_free_def maps\<close>)
qed

lemma does_write:
  assumes "json_files_ok L" "plain_json v" "fault_free d"
  obtains d' where "write_value L p v d = Some d'" "changes L p v d d'"
  by (rule that[of "put_file p (to_vec_pretty v) d"])
    (use assms in \<open>simp_all add: write_value_def put_file_def changes_def holds_def fault_free_def json_files_ok_def maps\<close>)

lemma does_inject:
  assumes "json_lib_ok L" "finds L p m d" "list_all utf8_ok vs" "pred_option utf8_ok sl"
  obtains d' where "inject L p vs sl d = (Inr (), d')" "changes L p (JObject (injected_map vs sl m)) d d'"
proof -
  have m: "plain_json (JObject (injected_map vs sl m))" "fault_free d"
    using assms(2) plain_injected[OF _ assms(3,4)] by (simp_all add: finds_def)
  obtain d' where "write_object L p (injected_map vs sl m) d = (Inr (), d')" "changes L p (JObject (injected_map vs sl m)) d d'"
    by (rule changes_write[OF assms(1) m(2,1)])
  then show ?thesis using that assms(2) by (simp add: inject_def finds_def)
qed

lemma does_inject_hooks:
  assumes "json_lib_ok L" "finds L p m d" "utf8_ok cmd" "wire_hooks cmd m = Inr m'"
  obtains d' where "inject_hooks L p cmd d = (Inr (), d')" "changes L p (JObject m') d d'"
proof -
  have m: "plain_json (JObject m')" "fault_free d" using assms(2) plain_wired[OF _ assms(3,4)] by (simp_all add: finds_def)
  obtain d' where "write_object L p m' d = (Inr (), d')" "changes L p (JObject m') d d'"
    by (rule changes_write[OF assms(1) m(2,1)])
  then show ?thesis using that assms(2,4) by (simp add: inject_hooks_def finds_def)
qed

lemma does_remove_hooks:
  assumes "json_lib_ok L" "finds L p m d" "unwire_hooks m = Some m'" "plain_json (JObject m')"
  obtains d' where "remove_hooks L p d = (Inr (), d')" "changes L p (JObject m') d d'"
proof -
  obtain d' where "write_object L p m' d = (Inr (), d')" "changes L p (JObject m') d d'"
    by (rule changes_write[OF assms(1) found(1)[OF assms(2)] assms(4)])
  then show ?thesis using that assms(2,3) by (simp add: remove_hooks_def finds_def)
qed

lemma does_snapshot:
  assumes "json_lib_ok L" "finds L p m d" "hm_get (files d) b = None"
  obtains d' where "snapshot L p b d = (Inr (), d')" "changes L b (JObject m) d d'"
proof -
  obtain d' where "write_object L b m d = (Inr (), d')" "changes L b (JObject m) d d'"
    by (rule changes_write[OF assms(1) found(1,2)[OF assms(2)]])
  then show ?thesis using that assms(2,3) by (simp add: snapshot_def finds_def)
qed

lemma snapshot_again: "holds L b v d \<Longrightarrow> snapshot L p b d = (Inr (), d)"
  by (auto simp: holds_def snapshot_def)

lemma does_restore:
  assumes "holds L b v d"
  obtains d' where "restore L p b d = (Inr (), d')" "changes L p v d d'"
proof -
  obtain c where "hm_get (files d) b = Some c" "parse_json L c = Some v" "fault_free d" "plain_json v"
    using assms by (auto simp: holds_def)
  then have "restore L p b d = (Inr (), d\<lparr>files := hm_insert p c (files d)\<rparr>)"
      "changes L p v d (d\<lparr>files := hm_insert p c (files d)\<rparr>)"
    by (cases d; simp add: restore_def read_file_def atomic_write_def fault_free_def Let_def changes_def holds_def maps)+
  then show ?thesis by (rule that)
qed

lemma files_lib: "json_files_ok L \<Longrightarrow> json_lib_ok L"
  by (simp add: json_files_ok_def)

lemma empty_dir_fields [simp]: "fault_free empty_dir" "hm_get (files empty_dir) p = None"
  by (simp_all add: empty_dir_def fault_free_def hm_get_def)

lemma two_files: "path_join dir ''settings.json'' \<noteq> path_join dir ''backup.json''"
  by (simp add: path_join_append[of dir "''settings.json''"] path_join_append[of dir "''backup.json''"])

lemma ad_verb_ok: "list_all (\<lambda>c. byte_val c < 128) s \<Longrightarrow> utf8_ok (ad_verb s)"
proof -
  have "byte_val (CHR '' '') = 32" by (simp add: byte_val_def)
  then show "list_all (\<lambda>c. byte_val c < 128) s \<Longrightarrow> utf8_ok (ad_verb s)"
    by (induction s) (simp_all add: ad_verb_def utf8_ok.simps byte_in_def utf8_cont_def)
qed

lemma ads_ok:
  "list_all utf8_ok [ad_verb ''Ad'']" "list_all utf8_ok [ad_verb ''A'', ad_verb ''B'']"
  "list_all utf8_ok [ad_verb ''Sponsored'']" "pred_option utf8_ok None" "pred_option utf8_ok (Some ''spnr-status'')"
  by (simp_all add: ad_verb_ok utf8_literal)

lemma hook_path_ok: "utf8_ok ''/bin/spnr-hook''"
  by (simp add: utf8_literal)

subsection \<open>The tests pass\<close>

lemma full_cycle:
  fixes dir :: string
  defines "p \<equiv> path_join dir ''settings.json''" and "b \<equiv> path_join dir ''backup.json''"
  assumes L: "json_files_ok L" and m: "plain_json (JObject m)" and u: "list_all utf8_ok vs" "pred_option utf8_ok sl"
  obtains d1 d2 d3 d4 where "write_value L p (JObject m) empty_dir = Some d1"
    "snapshot L p b d1 = (Inr (), d2)" "inject L p vs sl d2 = (Inr (), d3)" "holds L b (JObject m) d3"
    "restore L p b d3 = (Inr (), d4)" "holds L p (JObject m) d4" "holds L b (JObject m) d4"
proof -
  note l = files_lib[OF L]
  obtain d1 where 1: "write_value L p (JObject m) empty_dir = Some d1" "changes L p (JObject m) empty_dir d1"
    by (rule does_write[OF L m empty_dir_fields(1)])
  have b1: "hm_get (files d1) b = None" and ne: "p \<noteq> b" "b \<noteq> p"
    using 1(2) two_files[of dir] by (auto simp: changes_def p_def b_def)
  obtain d2 where 2: "snapshot L p b d1 = (Inr (), d2)" "changes L b (JObject m) d1 d2"
    by (rule does_snapshot[OF l holds_finds[OF changed(1)[OF 1(2)]] b1])
  obtain d3 where 3: "inject L p vs sl d2 = (Inr (), d3)" "changes L p (JObject (injected_map vs sl m)) d2 d3"
    by (rule does_inject[OF l holds_finds[OF unchanged[OF 2(2) changed(1)[OF 1(2)] ne(1)]] u])
  have b3: "holds L b (JObject m) d3" by (rule unchanged[OF 3(2) changed(1)[OF 2(2)] ne(2)])
  obtain d4 where 4: "restore L p b d3 = (Inr (), d4)" "changes L p (JObject m) d3 d4"
    by (rule does_restore[OF b3])
  show ?thesis by (rule that[OF 1(1) 2(1) 3(1) b3 4(1) changed(1)[OF 4(2)] unchanged[OF 4(2) b3 ne(2)]])
qed

lemma literals_plain:
  "plain_json (JObject [(''model'', JString ''m'')])"
  "plain_json (JObject [(''model'', JString ''m''), (''theme'', JString ''light'')])"
  "plain_json (JObject [(''model'', JString ''m''), (''permissions'', JObject [(''allow'', JArray [])]),
     (''theme'', JString ''dark''), (''z'', num 9)])"
  "plain_json (JObject [])" "plain_json (JObject [(''original'', JBool True)])"
  "plain_json (JObject [(''replaced'', JBool True)])" "plain_json (JArray [num 1, num 2, num 3])"
  "plain_json (JObject [(''hooks'', JString ''nonsense'')])" "plain_json host_with_hooks"
  "plain_json (JObject [(''hooks'', JObject [(''Stop'', JArray [host_group '''' ''spnr-hook''])])])"
  by code_simp+

lemma corpus_plain: "list_all (\<lambda>v. plain_json v \<and> type_name v = ''object'') corpus"
  by code_simp

lemma object_members: "type_name v = ''object'' \<Longrightarrow> \<exists>m. v = JObject m"
  by (cases v) simp_all

lemma compact_reads:
  "json_files_ok L \<Longrightarrow> plain_json v \<Longrightarrow> parse_json L (compact v) = Some v \<and> parse_json L (compact v @ [newline]) = Some v"
  by (simp add: json_files_ok_def)

lemma inject_preserves_passes:
  assumes "json_files_ok L" shows "inject_preserves_every_unknown_key_and_order L dir"
proof -
  let ?m = "[(''model'', JString ''m''), (''permissions'', JObject [(''allow'', JArray [])]),
     (''theme'', JString ''dark''), (''z'', num 9)]" and ?p = "path_join dir ''settings.json''"
  obtain d1 where 1: "write_value L ?p (JObject ?m) empty_dir = Some d1" "changes L ?p (JObject ?m) empty_dir d1"
    by (rule does_write[OF assms literals_plain(3) empty_dir_fields(1)])
  obtain d2 where 2: "inject L ?p [ad_verb ''Sponsored''] None d1 = (Inr (), d2)"
      "changes L ?p (JObject (injected_map [ad_verb ''Sponsored''] None ?m)) d1 d2"
    by (rule does_inject[OF files_lib[OF assms] holds_finds[OF changed(1)[OF 1(2)]] ads_ok(3,4)])
  show ?thesis
    using 1(1) 2(1) changed(2)[OF 2(2)]
    by (simp add: inject_preserves_every_unknown_key_and_order_def paths_def Let_def json_index_def injected_map_def
        hm_insert_def hm_get_def)
qed

lemma snapshot_inject_restore_passes:
  assumes "json_files_ok L" shows "snapshot_then_inject_then_restore_is_identity L dir"
proof -
  let ?p = "path_join dir ''settings.json''" and ?b = "path_join dir ''backup.json''"
  have "case write_value L ?p v empty_dir of None \<Rightarrow> False
      | Some d \<Rightarrow> (let (r1, d) = snapshot L ?p ?b d; (r2, d) = inject L ?p [ad_verb ''A'', ad_verb ''B''] (Some ''spnr-status'') d;
           (r3, d) = restore L ?p ?b d
         in r1 = Inr () \<and> r2 = Inr () \<and> r3 = Inr () \<and> read_value L ?p d = Some v)" if "v \<in> set corpus" for v
  proof -
    have "plain_json v" "type_name v = ''object''" using corpus_plain that by (simp_all add: list_all_iff)
    with object_members[of v] obtain m where v: "v = JObject m" "plain_json (JObject m)" by blast
    show ?thesis
      by (rule full_cycle[OF assms v(2) ads_ok(2,5), of dir]) (simp_all add: v(1) holds_read)
  qed
  then show ?thesis by (simp add: snapshot_then_inject_then_restore_is_identity_def paths_def list_all_iff Let_def)
qed

lemma snapshot_idempotent_passes:
  assumes "json_files_ok L" shows "snapshot_is_idempotent_and_pristine_preserving L dir"
  by (rule full_cycle[OF assms literals_plain(1) ads_ok(1,4), of dir])
    (simp_all add: snapshot_is_idempotent_and_pristine_preserving_def paths_def Let_def snapshot_again holds_read)

lemma restore_idempotent_passes:
  assumes "json_files_ok L" shows "restore_is_idempotent L dir"
proof (rule full_cycle[OF assms literals_plain(2) ads_ok(1,4), of dir])
  let ?p = "path_join dir ''settings.json''" and ?b = "path_join dir ''backup.json''"
  let ?v = "JObject [(''model'', JString ''m''), (''theme'', JString ''light'')]"
  fix d1 d2 d3 d4
  assume *: "write_value L ?p ?v empty_dir = Some d1" "snapshot L ?p ?b d1 = (Inr (), d2)"
    "inject L ?p [ad_verb ''Ad''] None d2 = (Inr (), d3)" "restore L ?p ?b d3 = (Inr (), d4)"
    "holds L ?p ?v d4" "holds L ?b ?v d4"
  obtain d5 where "restore L ?p ?b d4 = (Inr (), d5)" "changes L ?p ?v d4 d5" by (rule does_restore[OF *(6)])
  then show ?thesis using * by (simp add: restore_is_idempotent_def paths_def Let_def holds_read changed)
qed

lemma inject_idempotent_passes:
  assumes "json_files_ok L" shows "inject_is_idempotent L dir"
proof -
  let ?p = "path_join dir ''settings.json''" and ?m = "[(''model'', JString ''m'')]" and ?vs = "[ad_verb ''Ad'']"
  note l = files_lib[OF assms]
  obtain d1 where 1: "write_value L ?p (JObject ?m) empty_dir = Some d1" "changes L ?p (JObject ?m) empty_dir d1"
    by (rule does_write[OF assms literals_plain(1) empty_dir_fields(1)])
  obtain d2 where 2: "inject L ?p ?vs None d1 = (Inr (), d2)" "changes L ?p (JObject (injected_map ?vs None ?m)) d1 d2"
    by (rule does_inject[OF l holds_finds[OF changed(1)[OF 1(2)]] ads_ok(1,4)])
  obtain d3 where 3: "inject L ?p ?vs None d2 = (Inr (), d3)"
      "changes L ?p (JObject (injected_map ?vs None (injected_map ?vs None ?m))) d2 d3"
    by (rule does_inject[OF l holds_finds[OF changed(1)[OF 2(2)]] ads_ok(1,4)])
  show ?thesis
    using 1(1) 2(1) 3(1) changed(2)[OF 2(2)] changed(2)[OF 3(2)]
    by (simp add: inject_is_idempotent_def paths_def Let_def injected_idem)
qed

lemma first_run_passes:
  assumes "json_files_ok L" shows "missing_settings_file_is_first_run_not_error L dir"
proof -
  let ?p = "path_join dir ''settings.json''" and ?b = "path_join dir ''backup.json''" and ?vs = "[ad_verb ''Ad'']"
  note l = files_lib[OF assms]
  have ne: "?b \<noteq> ?p" using two_files[of dir] by simp
  obtain d1 where 1: "snapshot L ?p ?b empty_dir = (Inr (), d1)" "changes L ?b (JObject []) empty_dir d1"
    by (rule does_snapshot[OF l missing_finds[OF empty_dir_fields]  empty_dir_fields(2)])
  have "fault_free d1" "hm_get (files d1) ?p = None" using 1(2) ne by (simp_all add: changes_def holds_def)
  note f1 = missing_finds[OF this]
  obtain d2 where 2: "inject L ?p ?vs None d1 = (Inr (), d2)" "changes L ?p (JObject (injected_map ?vs None [])) d1 d2"
    by (rule does_inject[OF l f1 ads_ok(1,4)])
  obtain d3 where 3: "restore L ?p ?b d2 = (Inr (), d3)" "changes L ?p (JObject []) d2 d3"
    by (rule does_restore[OF unchanged[OF 2(2) changed(1)[OF 1(2)] ne]])
  show ?thesis
    using 1(1) 2(1) 3(1) changed(2)[OF 2(2)] changed(2)[OF 3(2)]
    by (simp add: missing_settings_file_is_first_run_not_error_def paths_def Let_def injected_map_def hm_insert_def
        json_index_def hm_get_def)
qed

lemma non_object_refused:
  assumes "json_files_ok L" "fault_free d" "hm_get (files d) p = Some ''[1,2,3]''"
  shows "\<exists>e. read_object L p d = (Inl (SchemaDrift e), d)"
proof -
  have "compact (JArray [num 1, num 2, num 3]) = ''[1,2,3]''" by code_simp
  then have "parse_json L ''[1,2,3]'' = Some (JArray [num 1, num 2, num 3])"
    using compact_reads[OF assms(1) literals_plain(7)] by simp
  then show ?thesis
    using assms(2,3) by (cases d) (simp add: read_object_def read_file_def fault_free_def Let_def)
qed

lemma refuses_to_clobber_passes:
  assumes "json_files_ok L" shows "refuses_to_clobber_a_non_object_settings_file L dir"
proof -
  let ?p = "path_join dir ''settings.json''"
  let ?d = "put_file ?p ''[1,2,3]'' empty_dir"
  have d: "fault_free ?d" "hm_get (files ?d) ?p = Some ''[1,2,3]''"
    by (simp_all add: put_file_def empty_dir_def fault_free_def maps)
  from non_object_refused[OF assms d] show ?thesis
    using d(2) by (auto simp: refuses_to_clobber_a_non_object_settings_file_def paths_def Let_def inject_def is_schema_drift_def)
qed

lemma statusline_passes:
  assumes "json_files_ok L" shows "statusline_injected_with_refresh_interval_1 L dir"
proof -
  let ?p = "path_join dir ''settings.json''" and ?vs = "[ad_verb ''Ad'']" and ?sl = "Some ''spnr-status''"
  obtain d1 where 1: "write_value L ?p (JObject []) empty_dir = Some d1" "changes L ?p (JObject []) empty_dir d1"
    by (rule does_write[OF assms literals_plain(4) empty_dir_fields(1)])
  obtain d2 where 2: "inject L ?p ?vs ?sl d1 = (Inr (), d2)" "changes L ?p (JObject (injected_map ?vs ?sl [])) d1 d2"
    by (rule does_inject[OF files_lib[OF assms] holds_finds[OF changed(1)[OF 1(2)]] ads_ok(1,5)])
  show ?thesis
    using 1(1) 2(1) changed(2)[OF 2(2)]
    by (simp add: statusline_injected_with_refresh_interval_1_def paths_def Let_def json_index_def injected_map_def
        hm_insert_def hm_get_def json_uint_def)
qed

lemma atomic_write_passes:
  assumes "json_files_ok L" shows "atomic_write_replaces_whole_file_or_nothing L dir"
proof -
  let ?p = "path_join dir ''settings.json''" and ?new = "''{\"replaced\":true}'' @ [newline]"
  obtain c where c: "write_value L ?p (JObject [(''original'', JBool True)]) empty_dir = Some (put_file ?p c empty_dir)"
    using assms literals_plain(5) by (fastforce simp: write_value_def json_files_ok_def)
  have "compact (JObject [(''replaced'', JBool True)]) = ''{\"replaced\":true}''" by code_simp
  then have n: "parse_json L ?new = Some (JObject [(''replaced'', JBool True)])"
    using compact_reads[OF assms literals_plain(6)] by simp
  have "strip_prefix (path_join dir []) ?p = Some ''settings.json''"
    by (simp add: path_join_append[of dir "''settings.json''"] strip_prefix_append)
  moreover have "\<not> str_contains ''.spnr-settings-'' ''settings.json''" by code_simp
  ultimately show ?thesis
    using c n by (simp add: atomic_write_replaces_whole_file_or_nothing_def Let_def atomic_write_def put_file_def
        empty_dir_def read_value_def hm_insert_def hm_get_def List.map_filter_def)
qed

subsection \<open>The tests of the hooks pass\<close>

definition host_map :: json_map where
  "host_map = (case host_with_hooks of JObject m \<Rightarrow> m | _ \<Rightarrow> [])"

definition wired_map :: json_map where
  "wired_map =
     [(''model'', JString ''opus''),
      (''hooks'', JObject
        [(''PreToolUse'', JArray [host_group ''Bash'' ''/h/rtk-rewrite.sh'',
            host_group ''Grep|Glob|Bash'' ''node gitnexus.cjs'']),
         (''Stop'', JArray [host_group '''' ''/h/session-end.sh'', host_group '''' ''/bin/spnr-hook'']),
         (''UserPromptSubmit'', JArray [host_group '''' ''/bin/spnr-hook'']),
         (''SessionEnd'', JArray [host_group '''' ''/bin/spnr-hook''])])]"

lemma host_with_hooks_object: "host_with_hooks = JObject host_map"
  by (simp add: host_map_def host_with_hooks_def)

lemma wires:
  "wire_hooks ''/bin/spnr-hook'' host_map = Inr wired_map" "wire_hooks ''/bin/spnr-hook'' wired_map = Inr wired_map"
  "unwire_hooks wired_map = Some host_map"
  "wire_hooks ''/bin/spnr-hook'' [(''model'', JString ''m'')]
     = Inr [(''model'', JString ''m''), (''hooks'', JObject (map (\<lambda>e. (e, JArray [host_group '''' ''/bin/spnr-hook'']))
         SPNR_HOOK_EVENTS))]"
  "unwire_hooks [(''hooks'', JObject [(''Stop'', JArray [host_group '''' ''spnr-hook''])])] = Some []"
  "\<exists>e. wire_hooks ''/bin/spnr-hook'' [(''hooks'', JString ''nonsense'')] = Inl (SchemaDrift e)"
proof -
  show "\<exists>e. wire_hooks ''/bin/spnr-hook'' [(''hooks'', JString ''nonsense'')] = Inl (SchemaDrift e)"
    by (simp add: wire_hooks_def hm_get_or_def hm_get_def)
qed code_simp+

lemma wired:
  assumes "json_files_ok L"
  obtains d1 d2 where "write_value L p host_with_hooks empty_dir = Some d1" "holds L p host_with_hooks d1"
    "inject_hooks L p ''/bin/spnr-hook'' d1 = (Inr (), d2)" "holds L p (JObject wired_map) d2"
proof -
  obtain d1 where 1: "write_value L p host_with_hooks empty_dir = Some d1" "changes L p host_with_hooks empty_dir d1"
    by (rule does_write[OF assms literals_plain(9) empty_dir_fields(1)])
  note h = changed(1)[OF 1(2)]
  obtain d2 where 2: "inject_hooks L p ''/bin/spnr-hook'' d1 = (Inr (), d2)" "changes L p (JObject wired_map) d1 d2"
    by (rule does_inject_hooks[OF files_lib[OF assms] holds_finds[OF h[unfolded host_with_hooks_object]] hook_path_ok wires(1)])
  show ?thesis by (rule that[OF 1(1) h 2(1) changed(1)[OF 2(2)]])
qed

lemma wired_contents:
  "(let hooks = json_index (JObject wired_map) ''hooks''
    in json_index hooks ''PreToolUse'' = json_index (json_index host_with_hooks ''hooks'') ''PreToolUse''
       \<and> command_at hooks ''Stop'' 0 = JString ''/h/session-end.sh''
       \<and> map_option length (as_array (json_index hooks ''Stop'')) = Some 2
       \<and> command_at hooks ''Stop'' 1 = JString ''/bin/spnr-hook''
       \<and> json_index (nth_value (json_index hooks ''Stop'') 1) ''matcher'' = JString ''''
       \<and> command_at hooks ''UserPromptSubmit'' 0 = JString ''/bin/spnr-hook''
       \<and> command_at hooks ''SessionEnd'' 0 = JString ''/bin/spnr-hook''
       \<and> json_get hooks ''PostToolUse'' = None
       \<and> json_index (JObject wired_map) ''model'' = JString ''opus'')"
  by code_simp

lemma inject_hooks_appends_passes:
  assumes "json_files_ok L" shows "inject_hooks_appends_without_clobbering_existing_hooks L dir"
  by (rule wired[OF assms, of "path_join dir ''settings.json''"])
    (use wired_contents in \<open>simp add: inject_hooks_appends_without_clobbering_existing_hooks_def paths_def Let_def holds_read\<close>)

lemma inject_hooks_idempotent_passes:
  assumes "json_files_ok L" shows "inject_hooks_is_idempotent L dir"
proof (rule wired[OF assms, of "path_join dir ''settings.json''"])
  let ?p = "path_join dir ''settings.json''"
  fix d1 d2
  assume *: "write_value L ?p host_with_hooks empty_dir = Some d1"
    "inject_hooks L ?p ''/bin/spnr-hook'' d1 = (Inr (), d2)" "holds L ?p (JObject wired_map) d2"
  obtain d3 where "inject_hooks L ?p ''/bin/spnr-hook'' d2 = (Inr (), d3)" "changes L ?p (JObject wired_map) d2 d3"
    by (rule does_inject_hooks[OF files_lib[OF assms] holds_finds[OF *(3)] hook_path_ok wires(2)])
  then show ?thesis
    using * wired_contents by (simp add: inject_hooks_is_idempotent_def paths_def Let_def holds_read changed)
qed

lemma remove_hooks_inverse_passes:
  assumes "json_files_ok L" shows "remove_hooks_is_the_precise_inverse_leaving_foreign_hooks L dir"
proof (rule wired[OF assms, of "path_join dir ''settings.json''"])
  let ?p = "path_join dir ''settings.json''"
  fix d1 d2
  assume *: "write_value L ?p host_with_hooks empty_dir = Some d1"
    "inject_hooks L ?p ''/bin/spnr-hook'' d1 = (Inr (), d2)" "holds L ?p (JObject wired_map) d2"
  obtain d3 where "remove_hooks L ?p d2 = (Inr (), d3)" "changes L ?p host_with_hooks d2 d3"
    unfolding host_with_hooks_object
    by (rule does_remove_hooks[OF files_lib[OF assms] holds_finds[OF *(3)] wires(3) literals_plain(9)[unfolded host_with_hooks_object]])
  then show ?thesis
    using * by (simp add: remove_hooks_is_the_precise_inverse_leaving_foreign_hooks_def paths_def Let_def changed)
qed

lemma remove_hooks_bare_passes:
  assumes "json_files_ok L" shows "remove_hooks_matches_bare_and_absolute_commands L dir"
proof -
  let ?p = "path_join dir ''settings.json''"
  let ?m = "[(''hooks'', JObject [(''Stop'', JArray [host_group '''' ''spnr-hook''])])]"
  obtain d1 where 1: "write_value L ?p (JObject ?m) empty_dir = Some d1" "changes L ?p (JObject ?m) empty_dir d1"
    by (rule does_write[OF assms literals_plain(10) empty_dir_fields(1)])
  obtain d2 where 2: "remove_hooks L ?p d1 = (Inr (), d2)" "changes L ?p (JObject []) d1 d2"
    by (rule does_remove_hooks[OF files_lib[OF assms] holds_finds[OF changed(1)[OF 1(2)]] wires(5) literals_plain(4)])
  show ?thesis
    using 1(1) 2(1) changed(2)[OF 2(2)] by (simp add: remove_hooks_matches_bare_and_absolute_commands_def paths_def Let_def)
qed

lemma snapshot_hooks_restore_passes:
  assumes "json_files_ok L" shows "snapshot_then_inject_hooks_then_restore_is_identity L dir"
proof -
  let ?p = "path_join dir ''settings.json''" and ?b = "path_join dir ''backup.json''"
  note l = files_lib[OF assms] and ne = two_files[of dir] two_files[of dir, symmetric]
  obtain d1 where 1: "write_value L ?p (JObject host_map) empty_dir = Some d1" "changes L ?p (JObject host_map) empty_dir d1"
    by (rule does_write[OF assms literals_plain(9)[unfolded host_with_hooks_object] empty_dir_fields(1)])
  have b1: "hm_get (files d1) ?b = None" using 1(2) ne by (simp add: changes_def)
  obtain d2 where 2: "snapshot L ?p ?b d1 = (Inr (), d2)" "changes L ?b (JObject host_map) d1 d2"
    by (rule does_snapshot[OF l holds_finds[OF changed(1)[OF 1(2)]] b1])
  obtain d3 where 3: "inject_hooks L ?p ''/bin/spnr-hook'' d2 = (Inr (), d3)" "changes L ?p (JObject wired_map) d2 d3"
    by (rule does_inject_hooks[OF l holds_finds[OF unchanged[OF 2(2) changed(1)[OF 1(2)] ne(1)]] hook_path_ok wires(1)])
  obtain d4 m' where 4: "inject L ?p [ad_verb ''Ad''] (Some ''spnr-status'') d3 = (Inr (), d4)" "changes L ?p m' d3 d4"
    by (rule does_inject[OF l holds_finds[OF changed(1)[OF 3(2)]] ads_ok(1,5)])
  have "holds L ?b (JObject host_map) d4"
    by (rule unchanged[OF 4(2) unchanged[OF 3(2) changed(1)[OF 2(2)] ne(2)] ne(2)])
  then obtain d5 where "restore L ?p ?b d4 = (Inr (), d5)" "changes L ?p (JObject host_map) d4 d5" by (rule does_restore)
  then show ?thesis
    using 1(1) 2(1) 3(1) 4(1)
    by (simp add: snapshot_then_inject_hooks_then_restore_is_identity_def paths_def Let_def host_with_hooks_object changed)
qed

lemma inject_hooks_creates_passes:
  assumes "json_files_ok L" shows "inject_hooks_creates_hooks_block_when_absent L dir"
proof -
  let ?p = "path_join dir ''settings.json''"
  let ?m = "[(''model'', JString ''m''), (''hooks'', JObject (map (\<lambda>e. (e, JArray [host_group '''' ''/bin/spnr-hook'']))
         SPNR_HOOK_EVENTS))]"
  obtain d1 where 1: "write_value L ?p (JObject [(''model'', JString ''m'')]) empty_dir = Some d1"
      "changes L ?p (JObject [(''model'', JString ''m'')]) empty_dir d1"
    by (rule does_write[OF assms literals_plain(1) empty_dir_fields(1)])
  obtain d2 where 2: "inject_hooks L ?p ''/bin/spnr-hook'' d1 = (Inr (), d2)" "changes L ?p (JObject ?m) d1 d2"
    by (rule does_inject_hooks[OF files_lib[OF assms] holds_finds[OF changed(1)[OF 1(2)]] hook_path_ok wires(4)])
  have "json_index (JObject ?m) ''model'' = JString ''m''
      \<and> list_all (\<lambda>ev. command_at (json_index (JObject ?m) ''hooks'') ev 0 = JString ''/bin/spnr-hook'') SPNR_HOOK_EVENTS"
    by code_simp
  then show ?thesis
    using 1(1) 2(1) changed(2)[OF 2(2)] by (simp add: inject_hooks_creates_hooks_block_when_absent_def paths_def Let_def)
qed

lemma inject_hooks_refuses_passes:
  assumes "json_files_ok L" shows "inject_hooks_refuses_a_non_object_hooks_value L dir"
proof -
  let ?p = "path_join dir ''settings.json''" and ?v = "JObject [(''hooks'', JString ''nonsense'')]"
  obtain d1 where 1: "write_value L ?p ?v empty_dir = Some d1" "changes L ?p ?v empty_dir d1"
    by (rule does_write[OF assms literals_plain(8) empty_dir_fields(1)])
  have "read_object L ?p d1 = (Inr [(''hooks'', JString ''nonsense'')], d1)"
    using holds_finds[OF changed(1)[OF 1(2)]] by (simp add: finds_def)
  then show ?thesis
    using 1(1) changed(2)[OF 1(2)] wires(6)
    by (auto simp: inject_hooks_refuses_a_non_object_hooks_value_def paths_def Let_def inject_hooks_def is_schema_drift_def)
qed

end
