(* ===== verification/Tests_Cli.thy ===== *)
theory Tests_Cli
  imports Tests_Settings
begin

section \<open>The unit tests of spnr-adapters and of spnr-cli\<close>

text \<open>
  As in \<^theory_text>\<open>Tests_Settings\<close>: definitions over a JSON library and the path of the temporary
  directory, and the lemmas that they hold. The parsing of the arguments (clap) is not modelled,
  nor is its test.
\<close>

subsection \<open>spnr-adapters\<close>

definition claude_new :: "string \<Rightarrow> string \<Rightarrow> string list \<Rightarrow> string option \<Rightarrow> claude_code_cli" where
  "claude_new settings backup vs sl =
     \<lparr>settings_path = settings, backup_path = backup, verbs = vs, statusline = sl\<rparr>"

definition adapter :: "string \<Rightarrow> claude_code_cli" where
  "adapter dir = claude_new (path_join dir ''settings.json'') (path_join dir ''backup.json'')
     [ad_verb ''Sponsored''] (Some ''spnr-status'')"

definition roundtrip_original :: bytes where
  "roundtrip_original = ''{'' @ newline # ''  \"model\": \"m\",'' @ newline # ''  \"theme\": \"dark\"'' @ newline # ''}'' @ [newline]"

text \<open>\<^verbatim>\<open>read_to_string(..).unwrap()\<close>: None is a panic.\<close>

definition read_to_string :: "string \<Rightarrow> disk \<Rightarrow> string option" where
  "read_to_string path d =
     (case hm_get (files d) path of None \<Rightarrow> None | Some b \<Rightarrow> if utf8_ok b then Some b else None)"

definition inject_then_restore_roundtrips_the_host_file :: "json_lib \<Rightarrow> string \<Rightarrow> bool" where
  "inject_then_restore_roundtrips_the_host_file L dir \<longleftrightarrow>
     (let d = put_file (path_join dir ''settings.json'') roundtrip_original empty_dir;
          a = adapter dir;
          (r1, d) = try_inject L a d
      in r1 = Inr ()
         \<and> (case read_to_string (settings_path a) d of
              None \<Rightarrow> False
            | Some injected \<Rightarrow>
                str_contains ''spinnerVerbs'' injected \<and> str_contains ''\"refreshInterval\"'' injected
                \<and> str_contains ''\"model\"'' injected
                \<and> (let (r2, d) = try_restore L a d
                   in r2 = Inr ()
                      \<and> (case Option.bind (read_to_string (settings_path a) d) (parse_json L) of
                           None \<Rightarrow> False
                         | Some back \<Rightarrow> parse_json L roundtrip_original = Some back))))"

definition event_source_is_hooks :: "string \<Rightarrow> bool" where
  "event_source_is_hooks dir \<longleftrightarrow> adapter_event_source (adapter dir) = Hooks"

definition trait_inject_is_fail_stock_on_a_non_object_settings_file :: "json_lib \<Rightarrow> string \<Rightarrow> bool" where
  "trait_inject_is_fail_stock_on_a_non_object_settings_file L dir \<longleftrightarrow>
     (let d = put_file (path_join dir ''settings.json'') ''[1,2,3]'' empty_dir;
          a = adapter dir;
          d = adapter_inject L a d
      in hm_get (files d) (settings_path a) = Some ''[1,2,3]'')"

subsection \<open>spnr-cli\<close>

definition bare_machine :: "disk \<Rightarrow> machine" where
  "bare_machine d = \<lparr>m_disk = d, m_links = [], m_sent = [], m_out = []\<rparr>"

definition audit_reads_framed_queue_records :: "string \<Rightarrow> bool" where
  "audit_reads_framed_queue_records dir \<longleftrightarrow>
     (let qp = path_join dir ''queue.log'';
          bytes = fold (\<lambda>rec bytes. bytes @ be32 (length rec) @ rec) [''{\"type\":\"imp\"}'', ''{\"type\":\"gap\"}''] [];
          recs = fst (audit_records dir (bare_machine (put_file qp bytes empty_dir)))
      in recs = [''{\"type\":\"imp\"}'', ''{\"type\":\"gap\"}''])"

definition status_reports_injected_vs_stock :: "string \<Rightarrow> bool" where
  "status_reports_injected_vs_stock dir \<longleftrightarrow>
     (let settings = path_join dir ''settings.json'';
          d = put_file settings ''{}'' empty_dir;
          first = fst (status_summary dir settings (bare_machine d));
          d = put_file settings ''{\"spinnerVerbs\":{\"mode\":\"replace\",\"verbs\":[]}}'' d;
          second = fst (status_summary dir settings (bare_machine d))
      in str_contains ''stock'' first \<and> str_contains ''injected'' second)"

text \<open>A directory exists here while there is a path under it; \<open>W\<close> is the environment of the test runner.\<close>

definition uninstall_restores_settings_and_removes_state :: "json_lib \<Rightarrow> cli_env \<Rightarrow> string \<Rightarrow> bool" where
  "uninstall_restores_settings_and_removes_state L W dir \<longleftrightarrow>
     (let settings = path_join dir ''settings.json'';
          home = path_join dir ''spnr-home'';
          original = ''{'' @ newline # ''  \"model\": \"m\"'' @ newline # ''}'' @ [newline];
          d = put_file (path_join home ''backup.json'') original empty_dir;
          d = put_file settings
                (''{\"model\":\"m\",\"spinnerVerbs\":{\"mode\":\"replace\",\"verbs\":[\"'' @ ad_verb ''Ad'' @ ''\"]}}'') d;
          M = do_uninstall L W settings home (bare_machine d)
      in Option.bind (read_to_string settings (m_disk M)) (parse_json L) = Some (JObject [(''model'', JString ''m'')])
         \<and> \<not> list_ex (\<lambda>f. under home (fst f)) (files (m_disk M)))"

subsection \<open>The tests pass\<close>

lemma non_object_file:
  "fault_free (put_file p b empty_dir)" "hm_get (files (put_file p b empty_dir)) p = Some b"
  "q \<noteq> p \<Longrightarrow> hm_get (files (put_file p b empty_dir)) q = None"
  by (simp_all add: put_file_def fault_free_def empty_dir_def maps)

lemma event_source_passes: "event_source_is_hooks dir"
  by (simp add: event_source_is_hooks_def adapter_event_source_def)

lemma trait_inject_passes:
  assumes "json_files_ok L" shows "trait_inject_is_fail_stock_on_a_non_object_settings_file L dir"
proof -
  let ?p = "path_join dir ''settings.json''"
  obtain e where e: "read_object L ?p (put_file ?p ''[1,2,3]'' empty_dir)
      = (Inl (SchemaDrift e), put_file ?p ''[1,2,3]'' empty_dir)"
    using non_object_refused[OF assms non_object_file(1,2)] by blast
  have "hm_get (files (put_file ?p ''[1,2,3]'' empty_dir)) (path_join dir ''backup.json'') = None"
    using two_files[of dir] by (simp add: non_object_file(3))
  then show ?thesis
    by (simp add: trait_inject_is_fail_stock_on_a_non_object_settings_file_def adapter_inject_def try_inject_def
        adapter_def claude_new_def snapshot_def e Let_def non_object_file(2))
qed

lemma audit_passes: "audit_reads_framed_queue_records dir"
proof -
  let ?recs = "[''{\"type\":\"imp\"}'', ''{\"type\":\"gap\"}'']"
  define b where "b = fold (\<lambda>rec bytes. bytes @ be32 (length rec) @ rec) ?recs []"
  have "records_ok ?recs" by (simp add: records_ok_def length_frame)
  from read_all_frames[OF this torn_Nil] have "read_queue (Some b) = ?recs"
    by (simp add: b_def frame_def read_queue_eq_read_all)
  moreover have "map utf8_lossy ?recs = ?recs" by code_simp
  ultimately have r: "map utf8_lossy (read_queue (Some b)) = ?recs" by metis
  have "read_file (path_join dir ''queue.log'') (put_file (path_join dir ''queue.log'') b empty_dir)
      = (Content b, put_file (path_join dir ''queue.log'') b empty_dir)"
    by (simp add: read_file_def put_file_def empty_dir_def Let_def maps)
  then have "fst (audit_records dir (bare_machine (put_file (path_join dir ''queue.log'') b empty_dir))) = ?recs"
    using r by (simp add: audit_records_def queue_file_def bare_machine_def)
  then show ?thesis by (simp only: audit_reads_framed_queue_records_def Let_def b_def)
qed

lemma summary_of:
  assumes "read_file (path_join dir ''queue.log'') d = (NotFound, d)" "read_file p d = (Content s, d)"
  shows "fst (status_summary dir p (bare_machine d)) = ''spnr: '' @ show_nat (length (read_queue None))
    @ '' queued event(s); spinner ''
    @ (if utf8_ok s \<and> str_contains ''\"spinnerVerbs\"'' s then ''injected'' else ''stock'')"
  using assms by (simp add: status_summary_def queue_file_def bare_machine_def Let_def)

lemma status_passes: "status_reports_injected_vs_stock dir"
proof -
  let ?p = "path_join dir ''settings.json''" and ?t = "''{\"spinnerVerbs\":{\"mode\":\"replace\",\"verbs\":[]}}''"
  let ?d1 = "put_file ?p ''{}'' empty_dir"
  have q: "path_join dir ''queue.log'' \<noteq> ?p"
    by (simp add: path_join_append[of dir "''settings.json''"] path_join_append[of dir "''queue.log''"])
  have d: "read_file (path_join dir ''queue.log'') (put_file ?p b e) = (NotFound, put_file ?p b e)"
      "read_file ?p (put_file ?p b e) = (Content b, put_file ?p b e)" if "e \<in> {empty_dir, ?d1}" for b e
    using that q by (auto simp: read_file_def put_file_def empty_dir_def Let_def maps)
  have "str_contains ''stock'' (''spnr: '' @ show_nat (length (read_queue None)) @ '' queued event(s); spinner ''
      @ (if utf8_ok ''{}'' \<and> str_contains ''\"spinnerVerbs\"'' ''{}'' then ''injected'' else ''stock''))"
    "str_contains ''injected'' (''spnr: '' @ show_nat (length (read_queue None)) @ '' queued event(s); spinner ''
      @ (if utf8_ok ?t \<and> str_contains ''\"spinnerVerbs\"'' ?t then ''injected'' else ''stock''))"
    by code_simp+
  then show ?thesis
    using summary_of[OF d, of empty_dir "''{}''"] summary_of[OF d, of ?d1 ?t]
    by (simp add: status_reports_injected_vs_stock_def Let_def)
qed

lemma serialize_pretty:
  "json_files_ok L \<Longrightarrow> plain_json (JObject m) \<Longrightarrow> serialize L m = Inr (to_vec_pretty (JObject m) @ [newline])"
  by (simp add: serialize_def json_files_ok_def)

lemma pretty_reads:
  "json_files_ok L \<Longrightarrow> plain_json v \<Longrightarrow> parse_json L (to_vec_pretty v @ [newline]) = Some v"
  by (simp add: json_files_ok_def)

definition injected_text :: bytes where
  "injected_text = to_vec_pretty (JObject (injected_map [ad_verb ''Sponsored''] (Some ''spnr-status'')
     [(''model'', JString ''m''), (''theme'', JString ''dark'')])) @ [newline]"

lemma injected_text_shows:
  "utf8_ok injected_text" "str_contains ''spinnerVerbs'' injected_text"
  "str_contains ''\"refreshInterval\"'' injected_text" "str_contains ''\"model\"'' injected_text"
  by code_simp+

lemma pretty_originals:
  "roundtrip_original = to_vec_pretty (JObject [(''model'', JString ''m''), (''theme'', JString ''dark'')]) @ [newline]"
  "''{'' @ newline # ''  \"model\": \"m\"'' @ newline # ''}'' @ [newline]
     = to_vec_pretty (JObject [(''model'', JString ''m'')]) @ [newline]"
  "plain_json (JObject [(''model'', JString ''m''), (''theme'', JString ''dark'')])"
  "utf8_ok roundtrip_original" "utf8_ok (''{'' @ newline # ''  \"model\": \"m\"'' @ newline # ''}'' @ [newline])"
  by code_simp+

lemma roundtrip_passes:
  assumes "json_files_ok L" shows "inject_then_restore_roundtrips_the_host_file L dir"
proof -
  let ?p = "path_join dir ''settings.json''" and ?b = "path_join dir ''backup.json''"
  let ?m = "[(''model'', JString ''m''), (''theme'', JString ''dark'')]" and ?vs = "[ad_verb ''Sponsored'']"
  let ?d0 = "put_file ?p roundtrip_original empty_dir"
  note l = files_lib[OF assms] and ne = two_files[of dir] two_files[of dir, symmetric]
  have p: "parse_json L roundtrip_original = Some (JObject ?m)"
    using pretty_reads[OF assms pretty_originals(3)] by (simp add: pretty_originals(1))
  have h0: "holds L ?p (JObject ?m) ?d0" by (simp add: holds_def non_object_file p pretty_originals(3))
  obtain m where m: "m = injected_map ?vs (Some ''spnr-status'') ?m" "plain_json (JObject m)"
    using plain_injected[OF pretty_originals(3) ads_ok(3,5)] by simp
  have r0: "read_object L ?p ?d0 = (Inr ?m, ?d0)" using holds_finds[OF h0] by (simp add: finds_def)
  define d1 where "d1 = ?d0\<lparr>files := hm_insert ?b roundtrip_original (files ?d0)\<rparr>"
  have "serialize L ?m = Inr roundtrip_original"
    using serialize_pretty[OF assms pretty_originals(3)] by (simp add: pretty_originals(1))
  from write_fine[OF non_object_file(1) this] have 1: "snapshot L ?p ?b ?d0 = (Inr (), d1)"
    using ne by (simp add: snapshot_def r0 non_object_file(3) d1_def)
  have h1: "holds L ?p (JObject ?m) d1" "holds L ?b (JObject ?m) d1"
    using h0 p ne by (simp_all add: holds_def d1_def fault_free_def maps)
  define d2 where "d2 = d1\<lparr>files := hm_insert ?p injected_text (files d1)\<rparr>"
  have f1: "fault_free d1" "read_object L ?p d1 = (Inr ?m, d1)" using holds_finds[OF h1(1)] by (simp_all add: finds_def)
  have 2: "inject L ?p ?vs (Some ''spnr-status'') d1 = (Inr (), d2)"
    using write_fine[OF f1(1) serialize_pretty[OF assms m(2)]]
    by (simp add: inject_def f1(2) m(1) d2_def injected_text_def)
  have h2: "holds L ?b (JObject ?m) d2" "hm_get (files d2) ?b = Some roundtrip_original"
    using h1 ne by (simp_all add: holds_def d2_def d1_def fault_free_def maps)
  have "restore L ?p ?b d2 = (Inr (), d2\<lparr>files := hm_insert ?p roundtrip_original (files d2)\<rparr>)"
    using h2 p by (cases d2) (simp add: restore_def read_file_def atomic_write_def holds_def fault_free_def Let_def)
  then show ?thesis
    using 1 2 injected_text_shows p pretty_originals(4)
    by (simp add: inject_then_restore_roundtrips_the_host_file_def adapter_def claude_new_def try_inject_def try_restore_def
        Let_def read_to_string_def d2_def maps)
qed

lemma no_links_removed: "m_links M = [] \<Longrightarrow> remove_symlinks W M = M"
  by (simp add: remove_symlinks_def BINARIES_def remove_symlink_def hm_get_def)

lemma settings_not_under_home:
  "\<not> under (path_join dir ''spnr-home'') (path_join dir ''settings.json'')"
proof -
  have "path_join (path_join dir ''spnr-home'') [] = path_join dir [] @ ''spnr-home/''"
    using path_join_append[of dir "''spnr-home''"] by (simp add: path_join_def)
  then show ?thesis
    by (simp add: under_def starts_with_def path_join_append[of dir "''settings.json''"])
qed

lemma uninstall_passes:
  assumes "json_files_ok L" "rmdir_left W = []"
  shows "uninstall_restores_settings_and_removes_state L W dir"
proof -
  let ?p = "path_join dir ''settings.json''" and ?h = "path_join dir ''spnr-home''"
  let ?b = "path_join ?h ''backup.json''" and ?m = "[(''model'', JString ''m'')]"
  define original where "original = ''{'' @ newline # ''  \"model\": \"m\"'' @ newline # ''}'' @ [newline]"
  have o: "parse_json L original = Some (JObject ?m)" "utf8_ok original"
    using pretty_reads[OF assms(1) literals_plain(1)] pretty_originals(5) by (simp_all add: original_def pretty_originals(2)[symmetric])
  have ub: "under ?h ?b" by (simp add: under_def starts_with_def path_join_def)
  have ne: "?p \<noteq> ?b" using ub settings_not_under_home[of dir] by metis
  define d where "d = put_file ?p (''{\"model\":\"m\",\"spinnerVerbs\":{\"mode\":\"replace\",\"verbs\":[\"'' @ ad_verb ''Ad'' @ ''\"]}}'')
      (put_file ?b original empty_dir)"
  define d' where "d' = d\<lparr>files := hm_insert ?p original (files d)\<rparr>"
  have f: "fault_free d" "hm_get (files d) ?b = Some original"
    using ne by (simp_all add: d_def put_file_def fault_free_def empty_dir_def maps)
  have r: "restore L ?p ?b d = (Inr (), d')"
    using f o by (cases d) (simp add: restore_def read_file_def atomic_write_def fault_free_def Let_def d'_def)
  have "read_object L ?p d' = (Inr ?m, d')"
    using f o by (cases d) (simp add: read_object_def read_file_def fault_free_def Let_def d'_def maps)
  then have u: "remove_hooks L ?p d' = (Inr (), d')"
    by (simp add: remove_hooks_def unwire_hooks_def hm_get_def)
  have "do_uninstall L W ?p ?h (bare_machine d) = delete_paths (under ?h) (bare_machine d')"
    by (simp add: do_uninstall_def Let_def bare_machine_def r u no_links_removed remove_dir_all_def assms(2))
  moreover have "hm_get (files (m_disk (delete_paths (under ?h) (bare_machine d')))) ?p = Some original"
    using settings_not_under_home[of dir]
    by (simp add: delete_paths_get bare_machine_def d'_def maps)
  moreover have "\<not> list_ex (\<lambda>f. under ?h (fst f)) (files (m_disk (delete_paths (under ?h) (bare_machine d'))))"
    by (simp add: delete_paths_def list_ex_iff)
  ultimately show ?thesis
    unfolding uninstall_restores_settings_and_removes_state_def Let_def original_def[symmetric] d_def[symmetric]
    using o by (simp add: read_to_string_def)
qed

end
