(* ===== verification/Tests_Engine.thy ===== *)
theory Tests_Engine
  imports Engine
begin

section \<open>The engine's unit tests (engine.rs, mod tests)\<close>

text \<open>
  The unit tests of the engine as definitions, with their helpers \<^verbatim>\<open>run\<close> and
  \<^verbatim>\<open>heartbeats_every_sec\<close>. \<open>dense_run\<close> gives the value of every test with a heartbeat at each
  second at once, for any length of the wait; the tests are instances.
\<close>

text \<open>The timeline; an event of another name panics.\<close>

fun run_timeline :: "(nat \<times> string) list \<Rightarrow> session \<Rightarrow> nat \<Rightarrow> nat option" where
  "run_timeline [] s acc = Some acc"
| "run_timeline ((ts, ev) # events) s acc =
     (if ev = ''prompt'' then run_timeline events (on_prompt_submit ts s) acc
      else if ev = ''pre'' then run_timeline events (on_pre_tool ts s) acc
      else if ev = ''post'' then run_timeline events (on_post_tool ts s) acc
      else if ev = ''stop'' then (case on_stop ts s of (n, s') \<Rightarrow> run_timeline events s' (acc + n))
      else if ev = ''hb'' then run_timeline events (on_heartbeat ts s) acc
      else None)"

definition run_test :: "(nat \<times> string) list \<Rightarrow> nat option" where
  "run_test events = run_timeline events default_session 0"

definition heartbeats_every_sec :: "nat \<Rightarrow> nat \<Rightarrow> (nat \<times> string) list" where
  "heartbeats_every_sec from_ms to_ms = map (\<lambda>s. (s * 1000, ''hb'')) [from_ms div 1000 ..< to_ms div 1000 + 1]"

subsection \<open>The tests\<close>

definition dense_heartbeats_yield_floor_seconds_over_five :: bool where
  "dense_heartbeats_yield_floor_seconds_over_five \<longleftrightarrow>
     run_test ([(0, ''prompt'')] @ heartbeats_every_sec 0 30000 @ [(30000, ''stop'')]) = Some 6"

definition headless_no_heartbeats_earns_zero :: bool where
  "headless_no_heartbeats_earns_zero \<longleftrightarrow> run_test [(0, ''prompt''), (60000, ''stop'')] = Some 0"

definition never_exceeds_ground_truth_wall_seconds_over_five :: bool where
  "never_exceeds_ground_truth_wall_seconds_over_five \<longleftrightarrow>
     (case run_test ([(0, ''prompt'')] @ map (\<lambda>s. (s * 3000, ''hb'')) [0..<40] @ [(120000, ''stop'')]) of
        Some imp \<Rightarrow> (let wall_seconds = 120 in imp \<le> wall_seconds div IMPRESSION_SECONDS)
      | None \<Rightarrow> False)"

definition tool_running_time_is_excluded :: bool where
  "tool_running_time_is_excluded \<longleftrightarrow>
     run_test ([(0, ''prompt'')] @ heartbeats_every_sec 0 120000
       @ [(10000, ''pre''), (110000, ''post''), (120000, ''stop'')]) = Some 4"

definition interval_cap_is_enforced :: bool where
  "interval_cap_is_enforced \<longleftrightarrow>
     run_test ([(0, ''prompt'')] @ heartbeats_every_sec 0 600000 @ [(600000, ''stop'')])
       = Some MAX_IMPRESSIONS_PER_INTERVAL"

definition paused_session_earns_zero :: bool where
  "paused_session_earns_zero \<longleftrightarrow>
     (let s = on_prompt_submit 0 (set_paused True default_session);
          s = fold (\<lambda>sec. on_heartbeat (sec * 1000)) [0..<30] s
      in fst (on_stop 30000 s) = 0)"

definition partial_trailing_second_is_dropped :: bool where
  "partial_trailing_second_is_dropped \<longleftrightarrow>
     run_test ([(0, ''prompt'')] @ heartbeats_every_sec 0 30000 @ [(29900, ''stop'')]) = Some 5"

subsection \<open>Dense heartbeats\<close>

lemma run_beats:
  "run_timeline (map (\<lambda>s. (f s, ''hb'')) ks @ rest) s acc
     = run_timeline rest (s\<lparr>heartbeats := heartbeats s @ map f ks\<rparr>) acc"
  by (induction ks arbitrary: s) (simp_all add: on_heartbeat_def)

text \<open>With a heartbeat at every second from zero, every whole second of a sub-span counts.\<close>

lemma dense_counts:
  assumes "m * 1000 \<le> c" "c \<le> n * 1000 + 999"
  shows "countable_seconds_in (m * 1000) c (map (\<lambda>s. s * 1000) [0..<n + 1]) GATE_WINDOW_MS False True
    = (c - m * 1000) div 1000"
proof (cases "c = m * 1000")
  case False
  with assms have lt: "m * 1000 < c" by simp
  have "fresh_tick (map (\<lambda>s. s * 1000) [0..<n + 1]) GATE_WINDOW_MS (m * 1000 + k * 1000)"
    if "k \<in> set [1..<(c - m * 1000) div 1000 + 1]" for k
  proof -
    have "k \<le> (c - m * 1000) div 1000" using that by (simp only: set_upt) simp
    then have "k * 1000 \<le> c - m * 1000" by (simp add: less_eq_div_iff_mult_less_eq)
    then have "m + k < n + 1" using assms by linarith
    then have "(m + k) * 1000 \<in> set (map (\<lambda>s. s * 1000) [0..<n + 1])"
      unfolding set_map set_upt by (intro imageI) simp
    then show ?thesis unfolding fresh_tick_def by (intro bexI[of _ "(m + k) * 1000"]) (simp_all add: algebra_simps)
  qed
  then have all: "filter (\<lambda>k. fresh_tick (map (\<lambda>s. s * 1000) [0..<n + 1]) GATE_WINDOW_MS (m * 1000 + k * 1000))
      [1..<(c - m * 1000) div 1000 + 1] = [1..<(c - m * 1000) div 1000 + 1]"
    by (intro filter_True) blast
  have "length [1..<(c - m * 1000) div 1000 + 1] = (c - m * 1000) div 1000" by simp
  with lt show ?thesis unfolding countable_filter all by simp
qed (simp add: countable_filter)

lemma dense_run:
  assumes "t \<le> n * 1000 + 999"
  shows "run_test ([(0, ''prompt'')] @ heartbeats_every_sec 0 (n * 1000) @ [(t, ''stop'')]) = Some (min (t div 1000 div 5) 60)"
  using dense_counts[of 0 t n] assms
  by (simp add: run_test_def heartbeats_every_sec_def run_beats engine_ops default_session_def
      IMPRESSION_SECONDS_def MAX_IMPRESSIONS_PER_INTERVAL_def Let_def del: upt_Suc)

text \<open>
  The bound of the sparse test holds for every heartbeat pattern: an interval never earns more than
  a fifth of its seconds.
\<close>

lemma interval_bound:
  "run_test ([(0, ''prompt'')] @ map (\<lambda>s. (f s, ''hb'')) ks @ [(t, ''stop'')]) = Some n \<Longrightarrow> n \<le> t div 1000 div 5"
proof -
  assume a: "run_test ([(0, ''prompt'')] @ map (\<lambda>s. (f s, ''hb'')) ks @ [(t, ''stop'')]) = Some n"
  let ?c = "countable_seconds_in 0 t (map f ks) GATE_WINDOW_MS False True"
  have "n = min (?c div 5) 60"
    using a by (simp add: run_test_def run_beats engine_ops default_session_def
        IMPRESSION_SECONDS_def MAX_IMPRESSIONS_PER_INTERVAL_def Let_def)
  moreover have "?c \<le> t div 1000"
    using countable_le_wall[of 0 t "map f ks" GATE_WINDOW_MS False True] by (simp add: less_eq_div_iff_mult_less_eq)
  ultimately show ?thesis by (simp add: div_le_mono min.coboundedI1)
qed

lemma run_always_returns: "list_all (\<lambda>(ts, ev). ev \<in> {''prompt'', ''pre'', ''post'', ''stop'', ''hb''}) xs \<Longrightarrow>
    \<exists>n. run_timeline xs s acc = Some n"
  by (induction xs s acc rule: run_timeline.induct) (auto split: prod.splits)

lemma tool_test_counts:
  "run_test ([(0, ''prompt'')] @ heartbeats_every_sec 0 120000 @ [(10000, ''pre''), (110000, ''post''), (120000, ''stop'')])
     = Some 4"
  using dense_counts[of 0 10000 120] dense_counts[of 110 120000 120]
  by (simp add: run_test_def heartbeats_every_sec_def run_beats engine_ops default_session_def
      IMPRESSION_SECONDS_def MAX_IMPRESSIONS_PER_INTERVAL_def Let_def del: upt_Suc)

text \<open>
  The model passes the unit tests of the engine.
\<close>

lemma engine_tests_pass:
  "dense_heartbeats_yield_floor_seconds_over_five" "headless_no_heartbeats_earns_zero"
  "never_exceeds_ground_truth_wall_seconds_over_five" "tool_running_time_is_excluded"
  "interval_cap_is_enforced" "paused_session_earns_zero" "partial_trailing_second_is_dropped"
proof -
  show "dense_heartbeats_yield_floor_seconds_over_five" "interval_cap_is_enforced" "partial_trailing_second_is_dropped"
    using dense_run[of 30000 30] dense_run[of 600000 600] dense_run[of 29900 30]
    by (simp_all add: dense_heartbeats_yield_floor_seconds_over_five_def interval_cap_is_enforced_def
        partial_trailing_second_is_dropped_def MAX_IMPRESSIONS_PER_INTERVAL_def)
  show "headless_no_heartbeats_earns_zero"
    using interval_bound[of "\<lambda>s. s" "[]" 60000]
    by (simp add: headless_no_heartbeats_earns_zero_def run_test_def engine_ops default_session_def Let_def
        countable_card fresh_tick_def)
  show "tool_running_time_is_excluded" using tool_test_counts by (simp add: tool_running_time_is_excluded_def)
  show "paused_session_earns_zero"
  proof -
    have "fold (\<lambda>sec. on_heartbeat (sec * 1000)) [0..<30] s = fold on_heartbeat (map (\<lambda>sec. sec * 1000) [0..<30]) s" for s
      by (simp add: fold_map comp_def)
    then show ?thesis
      unfolding paused_session_earns_zero_def Let_def
      by (simp only: on_heartbeats_fold) (simp add: engine_ops default_session_def countable_card Let_def)
  qed
  show "never_exceeds_ground_truth_wall_seconds_over_five"
  proof -
    let ?tl = "[(0, ''prompt'')] @ map (\<lambda>s. (s * 3000, ''hb'')) [0..<40] @ [(120000, ''stop'')]"
    obtain n where n: "run_test ?tl = Some n"
      unfolding run_test_def using run_always_returns[of ?tl default_session 0] by (auto simp: list_all_iff)
    with interval_bound[OF n] show ?thesis
      by (simp add: never_exceeds_ground_truth_wall_seconds_over_five_def IMPRESSION_SECONDS_def)
  qed
qed

end
