(* ===== verification/Hot_Path.thy ===== *)
theory Hot_Path
  imports Daemon
begin

section \<open>From the host's standard input to an impression (main of spnr-hook and spnr-status)\<close>

text \<open>
  The two binaries the host starts, with their exit status and the datagrams they send, and the
  daemon at the other end of the socket: a turn as the host runs it, from the JSON on standard input
  to the event in the queue. Lemmas: neither binary ever fails the host; a turn earns exactly the
  impressions of the seconds at which the status line ran.
\<close>

subsection \<open>Sending\<close>

text \<open>
  \<^verbatim>\<open>UnixDatagram::unbound\<close>, \<^verbatim>\<open>set_nonblocking\<close> and \<^verbatim>\<open>send_to\<close> each can fail; \<open>up\<close> says that none does.
  The result and the datagrams that left, with the path they went to.
\<close>

type_synonym datagrams = "(string \<times> bytes) list"

definition send :: "bool \<Rightarrow> socket_msg \<Rightarrow> string \<Rightarrow> (unit + unit) \<times> datagrams" where
  "send up msg sock = (if up then (Inr (), [(sock, encode msg)]) else (Inl (), []))"

definition send_heartbeat :: "bool \<Rightarrow> string \<Rightarrow> string \<Rightarrow> (unit + unit) \<times> datagrams" where
  "send_heartbeat up session_id sock = (if up then (Inr (), [(sock, encode (Heartbeat session_id))]) else (Inl (), []))"

text \<open>\<^verbatim>\<open>read_to_string\<close>: nothing for a missing file and for one that is not UTF-8.\<close>

definition read_cache :: "disk_file \<Rightarrow> string option" where
  "read_cache f = (case f of None \<Rightarrow> None | Some line \<Rightarrow> if utf8_ok line then Some line else None)"

subsection \<open>The two programs\<close>

definition EXIT_SUCCESS :: nat where "EXIT_SUCCESS = 0"

definition hook_main :: "bool \<Rightarrow> string \<Rightarrow> bytes option \<Rightarrow> nat \<times> datagrams" where
  "hook_main up sock stdin =
     (EXIT_SUCCESS,
      (case stdin of
         None \<Rightarrow> []
       | Some blob \<Rightarrow>
           if \<not> utf8_ok blob then []
           else (case extract_pair blob of
                   None \<Rightarrow> []
                 | Some (ev, sid) \<Rightarrow> snd (send up (Hook ev sid) sock))))"

text \<open>What is printed comes first.\<close>

definition status_main :: "bool \<Rightarrow> string \<Rightarrow> disk_file \<Rightarrow> bytes option \<Rightarrow> nat \<times> string \<times> datagrams" where
  "status_main up sock cache stdin =
     (EXIT_SUCCESS,
      (case read_cache cache of Some line \<Rightarrow> line | None \<Rightarrow> []),
      (case stdin of
         None \<Rightarrow> []
       | Some blob \<Rightarrow>
           if \<not> utf8_ok blob then []
           else (case skim_session blob of
                   None \<Rightarrow> []
                 | Some sid \<Rightarrow> snd (send_heartbeat up sid sock))))"

lemma mains_send_what_run_sends:
  "map snd (snd (hook_main up sock stdin)) = (case hook_run stdin of Some d \<Rightarrow> if up then [d] else [] | None \<Rightarrow> [])"
  "fst (snd (status_main up sock cache stdin)) = fst (status_run cache stdin)"
  "map snd (snd (snd (status_main up sock cache stdin)))
     = (case snd (status_run cache stdin) of Some d \<Rightarrow> if up then [d] else [] | None \<Rightarrow> [])"
  by (auto simp: hook_main_def hook_run_def send_def status_main_def status_run_def send_heartbeat_def
      read_cache_def split: option.split)

text \<open>
  Whatever the host writes, whether the daemon runs or not: exit status 0, and at most one datagram,
  to the socket.
\<close>

lemma hot_path_never_fails:
  "fst (hook_main up sock stdin) = 0 \<and> length (snd (hook_main up sock stdin)) \<le> 1
     \<and> fst ` set (snd (hook_main up sock stdin)) \<subseteq> {sock}"
  "fst (status_main up sock cache stdin) = 0 \<and> length (snd (snd (status_main up sock cache stdin))) \<le> 1
     \<and> fst ` set (snd (snd (status_main up sock cache stdin))) \<subseteq> {sock}"
  by (auto simp: hook_main_def status_main_def send_def send_heartbeat_def EXIT_SUCCESS_def
      split: option.split)

subsection \<open>The host and the daemon\<close>

text \<open>A call of the host, when it happens, and how the daemon's disk behaves then.\<close>

datatype host_call = HookCall bytes | StatusCall bytes

fun call_datagrams :: "string \<Rightarrow> host_call \<Rightarrow> datagrams" where
  "call_datagrams sock (HookCall p) = snd (hook_main True sock (Some p))"
| "call_datagrams sock (StatusCall p) = snd (snd (status_main True sock None (Some p)))"

definition host_step :: "crypto \<Rightarrow> string \<Rightarrow> surroundings \<times> host_call \<times> u64 \<Rightarrow> daemon \<Rightarrow> daemon" where
  "host_step C sock x d = (case x of (w, call, now) \<Rightarrow>
     fold (\<lambda>(_, datagram). receive C w datagram now) (call_datagrams sock call) d)"

definition host_run :: "crypto \<Rightarrow> string \<Rightarrow> (surroundings \<times> host_call \<times> u64) list \<Rightarrow> daemon \<Rightarrow> daemon" where
  "host_run C sock xs d = fold (host_step C sock) xs d"

text \<open>
  UTF-8 input from which the hook takes an event and a session, and from which the status line takes
  a session; what else stands in it, escapes included, does not matter.
\<close>

definition hook_payload :: "bytes \<Rightarrow> string \<Rightarrow> string \<Rightarrow> bool" where
  "hook_payload p ev sid \<longleftrightarrow> utf8_ok p \<and> extract_pair p = Some (ev, sid)"

definition status_payload :: "bytes \<Rightarrow> string \<Rightarrow> bool" where
  "status_payload p sid \<longleftrightarrow> utf8_ok p \<and> skim_session p = Some sid"

lemma payload_pair:
  "extract_pair p = Some (ev, sid) \<Longrightarrow> skim_string p KEY_EVENT = Some ev \<and> skim_string p KEY_SESSION = Some sid"
  by (auto simp: extract_pair_def split: option.splits if_splits)

lemma received:
  assumes "list_all utf8_ok (msg_strings m)" "list_all (\<lambda>s. length s \<le> 4096) (msg_strings m)"
  shows "receive C w (encode m) now d = handle C w m now d"
proof -
  have wf: "msg_wf m" using assms by (auto simp: msg_wf_def list_all_iff)
  have "length (encode m) \<le> 65536"
    using assms(2) by (cases m) (auto simp: put_str_def be16_def Let_def)
  with decode_encode[OF wf] show ?thesis by (simp add: receive_def)
qed

lemma hook_step:
  assumes "hook_payload p ev sid" "length ev \<le> 4096" "length sid \<le> 4096"
  shows "host_step C sock (w, HookCall p, now) d = handle C w (Hook ev sid) now d"
proof -
  have p: "utf8_ok p" "extract_pair p = Some (ev, sid)" using assms(1) by (simp_all add: hook_payload_def)
  have "utf8_ok ev" "utf8_ok sid" using payload_pair[OF p(2)] skim_utf8 by blast+
  then show ?thesis
    using p assms(2,3) by (simp add: host_step_def hook_main_def send_def received del: encode.simps)
qed

lemma status_step:
  assumes "status_payload p sid" "utf8_ok sid" "length sid \<le> 4096"
  shows "host_step C sock (w, StatusCall p, now) d = handle C w (Heartbeat sid) now d"
  using assms
  by (simp add: status_payload_def host_step_def status_main_def send_heartbeat_def received del: encode.simps)

subsection \<open>A wait\<close>

text \<open>The daemon while heartbeats arrive: only the session's heartbeats grow.\<close>

definition heartbeats_run :: "crypto \<Rightarrow> string \<Rightarrow> (surroundings \<times> u64) list \<Rightarrow> daemon \<Rightarrow> daemon" where
  "heartbeats_run C sid beats = fold (\<lambda>(w, t). handle C w (Heartbeat sid) t) beats"

lemma beats_run:
  assumes "hm_get (d_sessions d) sid = Some s" "d' = heartbeats_run C sid beats d"
  shows "hm_get (d_sessions d') sid = Some (s\<lparr>heartbeats := heartbeats s @ map (\<lambda>(w, t). unat t) beats\<rparr>)
    \<and> d_paused d' = d_paused d \<and> d_ctr d' = d_ctr d \<and> d_prev d' = d_prev d \<and> d_key d' = d_key d
    \<and> d_salt d' = d_salt d \<and> d_queue d' = d_queue d \<and> d_tx d' = d_tx d
    \<and> d_impressions_total d' = d_impressions_total d \<and> d_current_creative d' = d_current_creative d"
  using assms(1) unfolding assms(2)
proof (induction beats arbitrary: d s)
  case Nil
  then show ?case by (simp add: heartbeats_run_def)
next
  case (Cons b beats)
  obtain w t where b: "b = (w, t)" by (cases b)
  let ?d = "handle C w (Heartbeat sid) t d"
  have "hm_get (d_sessions ?d) sid = Some (on_heartbeat (unat t) s)"
    using Cons.prems by (simp add: handle_def Let_def daemon_fields maps)
  note IH = Cons.IH[OF this]
  have run: "heartbeats_run C sid (b # beats) d = heartbeats_run C sid beats ?d"
    by (simp add: heartbeats_run_def b)
  have "d_paused ?d = d_paused d" "d_ctr ?d = d_ctr d" "d_prev ?d = d_prev d" "d_key ?d = d_key d"
    "d_salt ?d = d_salt d" "d_queue ?d = d_queue d" "d_tx ?d = d_tx d"
    "d_impressions_total ?d = d_impressions_total d" "d_current_creative ?d = d_current_creative d"
    by (simp_all add: handle_def Let_def daemon_fields)
  with IH show ?case unfolding run by (simp add: b on_heartbeat_def)
qed

lemma prompt_handled:
  "hm_get (d_sessions (handle C w (Hook ''UserPromptSubmit'' sid) t d)) sid
     = Some (on_prompt_submit (unat t) (set_paused (d_paused d) (hm_get_or default_session (d_sessions d) sid)))"
  by (simp add: handle_def Let_def maps)

text \<open>A prompt, heartbeats and a stop.\<close>

definition turn_run :: "crypto \<Rightarrow> string \<Rightarrow> surroundings \<times> u64 \<Rightarrow> (surroundings \<times> u64) list \<Rightarrow> surroundings \<times> u64 \<Rightarrow>
    daemon \<Rightarrow> daemon" where
  "turn_run C sid prompt beats stop d =
     handle C (fst stop) (Hook ''Stop'' sid) (snd stop)
       (heartbeats_run C sid beats (handle C (fst prompt) (Hook ''UserPromptSubmit'' sid) (snd prompt) d))"

definition turn_counts :: "daemon \<Rightarrow> string \<Rightarrow> u64 \<Rightarrow> u64 list \<Rightarrow> u64 \<Rightarrow> nat" where
  "turn_counts d sid t0 ts t1 =
     min (countable_seconds_in (unat t0) (unat t1) (map unat ts) GATE_WINDOW_MS (d_paused d)
            (tty_attested (hm_get_or default_session (d_sessions d) sid)) div 5) 60"

definition turn_imp :: "crypto \<Rightarrow> surroundings \<Rightarrow> string \<Rightarrow> nat \<Rightarrow> u64 \<Rightarrow> daemon \<Rightarrow> event" where
  "turn_imp C w sid n t1 d =
     \<lparr>ev_v = 1, ev_id = sur_id w, ev_ctr = d_ctr d, ev_prev = d_prev d, ev_t = t1 div 1000, ev_ty = Imp,
      ev_session = fingerprint C d sid, ev_creative = d_current_creative d, ev_n = Some (of_nat n)\<rparr>"

lemma turn_earns:
  assumes "d' = turn_run C sid (w0, t0) beats (w1, t1) d" "n = turn_counts d sid t0 (map snd beats) t1"
    and "e = turn_imp C w1 sid n t1 d"
  shows "d_impressions_total d' = d_impressions_total d + of_nat n
    \<and> d_ctr d' = d_ctr d + (if n = 0 then 0 else 1)
    \<and> d_prev d' = (if n = 0 then d_prev d else chain_next C (canonical_bytes C e))
    \<and> d_queue d' = (if n = 0 then d_queue d else snd (append_rec (sur_queue w1) (d_queue d) (envelope C (d_key d) e)))
    \<and> d_tx d' = (if n = 0 then d_tx d else map_option (\<lambda>sent. sent @ [envelope C (d_key d) e]) (d_tx d))"
proof -
  define d1 where "d1 = handle C w0 (Hook ''UserPromptSubmit'' sid) t0 d"
  define d2 where "d2 = heartbeats_run C sid beats d1"
  have q: "emitted C w0 (Hook ''UserPromptSubmit'' sid) t0 d = None" by (simp add: emitted_def)
  have d': "d' = handle C w1 (Hook ''Stop'' sid) t1 d2" by (simp add: assms(1) turn_run_def d2_def d1_def)
  have p1: "d_paused d1 = d_paused d" by (simp add: d1_def handle_def Let_def)
  note d2 = beats_run[OF prompt_handled refl, of C sid beats C w0 t0 d, folded d1_def, folded d2_def]
  have stop: "stop_impressions sid (unat t1) d2 = n"
    using d2 p1 unfolding assms(2) turn_counts_def
    by (simp add: stop_impressions_def hm_get_or_def[of _ "d_sessions d2"] engine_ops engine_consts Let_def
        case_prod_unfold comp_def)
  have same: "d_ctr d2 = d_ctr d" "d_prev d2 = d_prev d" "d_key d2 = d_key d" "d_salt d2 = d_salt d"
    "d_queue d2 = d_queue d" "d_tx d2 = d_tx d" "d_impressions_total d2 = d_impressions_total d"
    "d_current_creative d2 = d_current_creative d"
    using d2 handle_quiet[OF q] by (simp_all add: d1_def daemon_fields)
  have "n \<le> 60" by (simp add: assms(2) turn_counts_def)
  then have "(ucast (of_nat n :: u64) :: u32) = of_nat n"
    by (simp add: word_unat_eq_iff unsigned_ucast_eq unat_of_nat take_bit_nat_eq_self)
  then have ev: "imp_event C w1 sid (of_nat n) t1 d2 = e"
    by (simp add: imp_event_def fingerprint_def same assms(3) turn_imp_def)
  show ?thesis
    by (simp add: d' handle_stop stop Let_def daemon_fields same ev)
qed

text \<open>
  C11: a turn of one session without tool calls, from the host's standard input to the queue. The host
  runs the hook with a prompt, the status line any number of times, and the hook with the stop, on any
  UTF-8 input from which both binaries take the same session id, of at most 4096 bytes; the daemon
  receives what they send. Then the daemon counts exactly the impressions of the seconds at which the
  status line ran: with none, nothing is emitted; otherwise it appends and sends one signed event for
  them, on the chain of the device and under the session's fingerprint.
\<close>

theorem host_turn_earns:
  assumes "hook_payload p0 ''UserPromptSubmit'' sid" "hook_payload p1 ''Stop'' sid" "length sid \<le> 4096"
    and "list_all (\<lambda>(w, p, t). status_payload p sid) beats"
    and "d' = host_run C sock ((w0, HookCall p0, t0) # map (\<lambda>(w, p, t). (w, StatusCall p, t)) beats @ [(w1, HookCall p1, t1)]) d"
    and "n = turn_counts d sid t0 (map (\<lambda>(w, p, t). t) beats) t1" "e = turn_imp C w1 sid n t1 d"
  shows "d_impressions_total d' = d_impressions_total d + of_nat n
    \<and> d_ctr d' = d_ctr d + (if n = 0 then 0 else 1)
    \<and> d_queue d' = (if n = 0 then d_queue d else snd (append_rec (sur_queue w1) (d_queue d) (envelope C (d_key d) e)))
    \<and> d_tx d' = (if n = 0 then d_tx d else map_option (\<lambda>sent. sent @ [envelope C (d_key d) e]) (d_tx d))"
proof -
  have "extract_pair p0 = Some (''UserPromptSubmit'', sid)" using assms(1) by (simp add: hook_payload_def)
  then have u: "utf8_ok sid" using payload_pair skim_utf8 by blast
  have "fold (host_step C sock) (map (\<lambda>(w, p, t). (w, StatusCall p, t)) beats) x
      = heartbeats_run C sid (map (\<lambda>(w, p, t). (w, t)) beats) x" for x
    using assms(4) by (induction beats arbitrary: x) (auto simp: heartbeats_run_def status_step u assms(3))
  then have "d' = turn_run C sid (w0, t0) (map (\<lambda>(w, p, t). (w, t)) beats) (w1, t1) d"
    using assms(1-3) by (simp add: assms(5) turn_run_def host_run_def hook_step)
  from turn_earns[OF this, of n e] assms(6,7) show ?thesis by (simp add: comp_def case_prod_unfold)
qed

text \<open>A prompt with escapes, three looks at the status line and a stop: one impression.\<close>

definition demo_hook :: "string \<Rightarrow> bytes" where
  "demo_hook ev = ''{'' @ quoted ''session_id'' @ '':'' @ quoted ''s1'' @ '',''
     @ quoted ''prompt'' @ '':'' @ quoted (''say '' @ [backslash, quote] @ ''hi'' @ [backslash, quote, backslash] @ ''n'') @ '',''
     @ quoted ''hook_event_name'' @ '':'' @ quoted ev @ ''}''"

definition demo_status :: bytes where
  "demo_status = ''{'' @ quoted ''session_id'' @ '':'' @ quoted ''s1'' @ ''}''"

lemma demo_payloads:
  "hook_payload (demo_hook ''UserPromptSubmit'') ''UserPromptSubmit'' ''s1''"
  "hook_payload (demo_hook ''Stop'') ''Stop'' ''s1''"
  "status_payload demo_status ''s1''"
  by code_simp+

lemma host_turn_earns_witness:
  "d_impressions_total (host_run demo_crypto ''sock''
     [(demo_sur, HookCall (demo_hook ''UserPromptSubmit''), 1000), (demo_sur, StatusCall demo_status, 1500),
      (demo_sur, StatusCall demo_status, 3500), (demo_sur, StatusCall demo_status, 5500),
      (demo_sur, HookCall (demo_hook ''Stop''), 6500)] (booted demo_crypto [] ''srv'' [])) = 1"
proof -
  let ?beats = "[(demo_sur, demo_status, 1500), (demo_sur, demo_status, 3500), (demo_sur, demo_status, 5500 :: u64)]"
  let ?d = "booted demo_crypto [] ''srv'' []"
  have b: "list_all (\<lambda>(w, p, t). status_payload p ''s1'') ?beats" by (simp add: demo_payloads)
  have n: "1 = turn_counts ?d ''s1'' 1000 (map (\<lambda>(w, p, t). t) ?beats) 6500"
    using demo_counts by (simp add: turn_counts_def booted_def daemon_fields default_session_def hm_get_or_def hm_get_def)
  show ?thesis
    using host_turn_earns[OF demo_payloads(1,2) _ b refl n refl, of demo_crypto "''sock''" demo_sur demo_sur]
    by (simp add: booted_def start_networked_def daemon_new_def Let_def)
qed

end
