(* ===== verification/Tests_Readers.thy ===== *)
theory Tests_Readers
  imports Hot_Path Timing_Meta
begin

section \<open>The unit tests of the readers (queue.rs, spnr-meta, spnr-hook, spnr-status)\<close>

text \<open>
  The unit tests of the queue, of the timing reader and of the two hot-path binaries as definitions.
  A temporary file is the content of the file, missing at first.
\<close>

definition up_triangle :: string where "up_triangle = map byte_of [226, 150, 178]"
definition ne_arrow :: string where "ne_arrow = map byte_of [226, 134, 151]"

subsection \<open>queue.rs\<close>

definition append_then_read_roundtrips_in_order :: bool where
  "append_then_read_roundtrips_in_order \<longleftrightarrow>
     (let (r1, p) = append_rec NoFault None ''first'';
          (r2, p) = append_rec NoFault p ''second'';
          (r3, p) = append_rec NoFault p []
      in r1 = Inr () \<and> r2 = Inr () \<and> r3 = Inr ()
         \<and> read_all p = [''first'', ''second'', []])"

definition missing_file_reads_empty :: bool where
  "missing_file_reads_empty \<longleftrightarrow> read_all None = []"

definition truncated_tail_is_ignored_not_fatal :: bool where
  "truncated_tail_is_ignored_not_fatal \<longleftrightarrow>
     (let (r, p) = append_rec NoFault None ''complete'';
          p = append_bytes p (be32 99);
          p = append_bytes p ''partial''
      in r = Inr () \<and> read_all p = [''complete''])"

lemma append_then_read_roundtrips_in_order_passes: "append_then_read_roundtrips_in_order"
proof -
  have "read_all (append_many None [''first'', ''second'', []]) = [''first'', ''second'', []]"
    by (rule read_all_append_many) (simp add: records_ok_def frame_def)
  then show ?thesis
    by (simp add: append_then_read_roundtrips_in_order_def append_many_def append_rec_def)
qed

lemma missing_file_reads_empty_passes: "missing_file_reads_empty"
  by code_simp

lemma truncated_tail_is_ignored_not_fatal_passes: "truncated_tail_is_ignored_not_fatal"
proof -
  have "torn (be32 99 @ ''partial'')"
    by (simp add: torn_def be32_def un32_def)
  from read_all_frames[OF _ this, of "[''complete'']"] show ?thesis
    by (simp add: truncated_tail_is_ignored_not_fatal_def append_rec_def append_bytes_def records_ok_def frame_def)
qed

subsection \<open>spnr-meta\<close>

definition extracts_timestamp_and_allowlisted_event :: bool where
  "extracts_timestamp_and_allowlisted_event \<longleftrightarrow>
     parse_timings ''{\"type\":\"assistant\",\"timestamp\":1781234567,\"role\":\"x\"}''
       = [\<lparr>tm_ts = 1781234567, tm_event = ''assistant''\<rparr>]"

definition fractional_timestamp_truncates_to_seconds :: bool where
  "fractional_timestamp_truncates_to_seconds \<longleftrightarrow>
     (case parse_timings ''{\"timestamp\":1781234567.987,\"type\":\"user\"}'' of
        t # _ \<Rightarrow> tm_ts t = 1781234567 | [] \<Rightarrow> False)"

definition unknown_type_collapses_to_unknown_never_arbitrary_text :: bool where
  "unknown_type_collapses_to_unknown_never_arbitrary_text \<longleftrightarrow>
     parse_timings ''{\"type\":\"definitely-not-a-real-label\",\"timestamp\":42}''
       = [\<lparr>tm_ts = 42, tm_event = ''unknown''\<rparr>]"

definition lines_without_numeric_timestamp_are_skipped :: bool where
  "lines_without_numeric_timestamp_are_skipped \<longleftrightarrow>
     parse_timings (''{\"timestamp\":\"2026-06-12T10:00:00Z\",\"type\":\"user\"}'' @ [byte_of 10]
       @ ''{\"type\":\"user\"}'' @ [byte_of 10]) = []"

text \<open>The derived \<^verbatim>\<open>Debug\<close> of a list of records; the labels have nothing to escape.\<close>

definition show_int :: "int \<Rightarrow> string" where
  "show_int i = (if i < 0 then ''-'' @ show_nat (nat (- i)) else show_nat (nat i))"

definition debug_timings :: "timing list \<Rightarrow> string" where
  "debug_timings ts = ''['' @ join '', '' (map (\<lambda>t.
     ''Timing { ts: '' @ show_int (tm_ts t) @ '', event: \"'' @ tm_event t @ ''\" }'') ts) @ '']''"

definition META_CANARY :: string where "META_CANARY = ''SUPER_SECRET_API_KEY_sk-deadbeef''"

definition canary_data :: string where
  "canary_data = join [byte_of 10]
     [''{\"type\":\"assistant\",\"timestamp\":1000,\"content\":\"'' @ META_CANARY @ ''\"}'',
      ''{\"type\":\"user\",\"timestamp\":1001,\"message\":{\"text\":\"'' @ META_CANARY @ ''\"}}'',
      ''{\"timestamp\":1002,\"type\":\"user\",\"text\":\"oops '' @ [backslash] @ ''\"type'' @ [backslash] @ ''\":''
        @ [backslash] @ ''\"'' @ META_CANARY @ [backslash] @ ''\"\"}'']"

definition canary_in_content_never_escapes :: bool where
  "canary_in_content_never_escapes \<longleftrightarrow>
     (let timings = parse_timings canary_data
      in length timings = 3
         \<and> list_all (\<lambda>t. \<not> str_contains ''deadbeef'' (tm_event t)
              \<and> (tm_event t = ''assistant'' \<or> tm_event t = ''user'')) timings
         \<and> \<not> str_contains META_CANARY (debug_timings timings))"

definition missing_file_returns_empty_never_panics :: bool where
  "missing_file_returns_empty_never_panics \<longleftrightarrow> read_timings None = []"

text \<open>One line, from its two tokens.\<close>

lemma line_read:
  "trim l = l \<Longrightarrow> value_for_key l ''timestamp'' = Some tok \<Longrightarrow> parse_unix_seconds tok = Some n \<Longrightarrow>
     value_for_key l ''type'' = Some ty \<Longrightarrow> unquote ty = label \<Longrightarrow> l \<noteq> [] \<Longrightarrow>
     parse_line l = Some \<lparr>tm_ts = n, tm_event = if label \<in> set EVENT_LABELS then label else UNKNOWN\<rparr>"
  by (simp add: parse_line_def)

lemma line_skipped:
  "trim l = l \<Longrightarrow> (case value_for_key l ''timestamp'' of None \<Rightarrow> True | Some tok \<Rightarrow> parse_unix_seconds tok = None) \<Longrightarrow>
     parse_line l = None"
  by (auto simp: parse_line_def split: option.splits)

lemma seconds_read:
  "trim t = t \<Longrightarrow> trim_matches quote t = t \<Longrightarrow> split_once CHR ''.'' t = s \<Longrightarrow>
     parse_unix_seconds t = parse_i64 (case s of Some (a, _) \<Rightarrow> a | None \<Rightarrow> t)"
  by (simp add: parse_unix_seconds_def)

lemmas decimal = parse_i64_def parse_digits_def is_digit_def byte_val_def

lemma seconds:
  "parse_unix_seconds ''1781234567'' = Some 1781234567" "parse_unix_seconds ''1781234567.987'' = Some 1781234567"
  "parse_unix_seconds ''42'' = Some 42" "parse_unix_seconds ''1000'' = Some 1000"
  "parse_unix_seconds ''1001'' = Some 1001" "parse_unix_seconds ''1002'' = Some 1002"
  by (subst seconds_read, code_simp, code_simp, rule refl, simp add: decimal)+

lemma extracts_timestamp_and_allowlisted_event_passes: "extracts_timestamp_and_allowlisted_event"
proof -
  let ?l = "''{\"type\":\"assistant\",\"timestamp\":1781234567,\"role\":\"x\"}''"
  have "str_lines ?l = [?l]" by code_simp
  moreover have "parse_line ?l = Some \<lparr>tm_ts = 1781234567, tm_event = if ''assistant'' \<in> set EVENT_LABELS then ''assistant'' else UNKNOWN\<rparr>"
    by (rule line_read[OF _ _ seconds(1), where ty = "''\"assistant\"''"]) code_simp+
  ultimately show ?thesis
    by (simp add: extracts_timestamp_and_allowlisted_event_def parse_timings_def List.map_filter_def EVENT_LABELS_def)
qed

lemma fractional_timestamp_truncates_to_seconds_passes: "fractional_timestamp_truncates_to_seconds"
proof -
  let ?l = "''{\"timestamp\":1781234567.987,\"type\":\"user\"}''"
  have "str_lines ?l = [?l]" by code_simp
  moreover have "parse_line ?l = Some \<lparr>tm_ts = 1781234567, tm_event = if ''user'' \<in> set EVENT_LABELS then ''user'' else UNKNOWN\<rparr>"
    by (rule line_read[OF _ _ seconds(2), where ty = "''\"user\"''"]) code_simp+
  ultimately show ?thesis
    by (simp add: fractional_timestamp_truncates_to_seconds_def parse_timings_def List.map_filter_def)
qed

lemma unknown_type_collapses_to_unknown_never_arbitrary_text_passes:
  "unknown_type_collapses_to_unknown_never_arbitrary_text"
proof -
  let ?l = "''{\"type\":\"definitely-not-a-real-label\",\"timestamp\":42}''"
  have "str_lines ?l = [?l]" by code_simp
  moreover have "parse_line ?l = Some \<lparr>tm_ts = 42, tm_event = if ''definitely-not-a-real-label'' \<in> set EVENT_LABELS
      then ''definitely-not-a-real-label'' else UNKNOWN\<rparr>"
    by (rule line_read[OF _ _ seconds(3), where ty = "''\"definitely-not-a-real-label\"''"]) code_simp+
  ultimately show ?thesis
    by (simp add: unknown_type_collapses_to_unknown_never_arbitrary_text_def parse_timings_def List.map_filter_def
        EVENT_LABELS_def UNKNOWN_def)
qed

lemma lines_without_numeric_timestamp_are_skipped_passes: "lines_without_numeric_timestamp_are_skipped"
proof -
  let ?a = "''{\"timestamp\":\"2026-06-12T10:00:00Z\",\"type\":\"user\"}''" and ?b = "''{\"type\":\"user\"}''"
  have l: "str_lines (?a @ [byte_of 10] @ ?b @ [byte_of 10]) = [?a, ?b]" by code_simp
  have iso: "parse_unix_seconds ''\"2026-06-12T10:00:00Z\"'' = None"
  proof -
    have "trim ''\"2026-06-12T10:00:00Z\"'' = ''\"2026-06-12T10:00:00Z\"''"
      "trim_matches quote ''\"2026-06-12T10:00:00Z\"'' = ''2026-06-12T10:00:00Z''"
      "split_once CHR ''.'' ''2026-06-12T10:00:00Z'' = None" by code_simp+
    then show ?thesis by (simp add: parse_unix_seconds_def decimal)
  qed
  have "value_for_key ?a ''timestamp'' = Some ''\"2026-06-12T10:00:00Z\"''" "trim ?a = ?a"
    "value_for_key ?b ''timestamp'' = None" "trim ?b = ?b" by code_simp+
  then have "parse_line ?a = None" "parse_line ?b = None" by (simp_all add: line_skipped iso)
  with l show ?thesis
    unfolding lines_without_numeric_timestamp_are_skipped_def parse_timings_def by (simp add: List.map_filter_def)
qed

lemma canary_lines:
  "str_lines canary_data =
    [''{\"type\":\"assistant\",\"timestamp\":1000,\"content\":\"'' @ META_CANARY @ ''\"}'',
     ''{\"type\":\"user\",\"timestamp\":1001,\"message\":{\"text\":\"'' @ META_CANARY @ ''\"}}'',
     ''{\"timestamp\":1002,\"type\":\"user\",\"text\":\"oops '' @ [backslash] @ ''\"type'' @ [backslash] @ ''\":''
       @ [backslash] @ ''\"'' @ META_CANARY @ [backslash] @ ''\"\"}'']"
  by code_simp

lemma canary_timings: "parse_timings canary_data =
    [\<lparr>tm_ts = 1000, tm_event = ''assistant''\<rparr>, \<lparr>tm_ts = 1001, tm_event = ''user''\<rparr>,
     \<lparr>tm_ts = 1002, tm_event = ''user''\<rparr>]"
proof -
  have "parse_line (''{\"type\":\"assistant\",\"timestamp\":1000,\"content\":\"'' @ META_CANARY @ ''\"}'')
      = Some \<lparr>tm_ts = 1000, tm_event = if ''assistant'' \<in> set EVENT_LABELS then ''assistant'' else UNKNOWN\<rparr>"
    by (rule line_read[OF _ _ seconds(4), where ty = "''\"assistant\"''"]) code_simp+
  moreover have "parse_line (''{\"type\":\"user\",\"timestamp\":1001,\"message\":{\"text\":\"'' @ META_CANARY @ ''\"}}'')
      = Some \<lparr>tm_ts = 1001, tm_event = if ''user'' \<in> set EVENT_LABELS then ''user'' else UNKNOWN\<rparr>"
    by (rule line_read[OF _ _ seconds(5), where ty = "''\"user\"''"]) code_simp+
  moreover have "parse_line (''{\"timestamp\":1002,\"type\":\"user\",\"text\":\"oops '' @ [backslash] @ ''\"type''
        @ [backslash] @ ''\":'' @ [backslash] @ ''\"'' @ META_CANARY @ [backslash] @ ''\"\"}'')
      = Some \<lparr>tm_ts = 1002, tm_event = if ''user'' \<in> set EVENT_LABELS then ''user'' else UNKNOWN\<rparr>"
    by (rule line_read[OF _ _ seconds(6), where ty = "''\"user\"''"]) code_simp+
  ultimately show ?thesis
    unfolding parse_timings_def canary_lines by (simp add: List.map_filter_def EVENT_LABELS_def del: append_Cons append_Nil)
qed

lemma digit_bytes: "byte_of 48 = CHR ''0''" "byte_of 49 = CHR ''1''" "byte_of 50 = CHR ''2''"
  by code_simp+

lemma canary_rendered: "debug_timings [\<lparr>tm_ts = 1000, tm_event = ''assistant''\<rparr>,
    \<lparr>tm_ts = 1001, tm_event = ''user''\<rparr>, \<lparr>tm_ts = 1002, tm_event = ''user''\<rparr>] =
    ''[Timing { ts: 1000, event: \"assistant\" }, Timing { ts: 1001, event: \"user\" }, Timing { ts: 1002, event: \"user\" }]''"
  by (simp add: debug_timings_def show_int_def show_nat.simps digit_bytes)

lemma canary_in_content_never_escapes_passes: "canary_in_content_never_escapes"
proof -
  have "\<not> str_contains META_CANARY
      ''[Timing { ts: 1000, event: \"assistant\" }, Timing { ts: 1001, event: \"user\" }, Timing { ts: 1002, event: \"user\" }]''"
    "\<not> str_contains ''deadbeef'' ''assistant''" "\<not> str_contains ''deadbeef'' ''user''" by code_simp+
  then show ?thesis by (simp add: canary_in_content_never_escapes_def canary_timings canary_rendered)
qed

lemma missing_file_returns_empty_never_panics_passes: "missing_file_returns_empty_never_panics"
  by code_simp

subsection \<open>spnr-hook\<close>

definition payload_line :: "string \<Rightarrow> string" where
  "payload_line l = byte_of 10 # replicate 12 CHR '' '' @ l"

definition extracts_the_two_keys_from_a_realistic_hook_payload :: bool where
  "extracts_the_two_keys_from_a_realistic_hook_payload \<longleftrightarrow>
     (let stdin = ''{'' @ payload_line ''\"session_id\": \"abc123\",''
            @ payload_line ''\"hook_event_name\": \"UserPromptSubmit\",''
            @ payload_line ''\"transcript_path\": \"/home/u/.claude/projects/x/t.jsonl\",''
            @ payload_line ''\"cwd\": \"/home/u/secret-project\",''
            @ payload_line ''\"permission_mode\": \"default\",''
            @ payload_line ''\"prompt\": \"please refactor the auth module\"''
            @ byte_of 10 # replicate 8 CHR '' '' @ ''}''
      in extract_pair stdin = Some (''UserPromptSubmit'', ''abc123''))"

definition HOOK_CANARY :: string where "HOOK_CANARY = ''TOPSECRET_prompt_and_path_deadbeef''"

definition canary_payload :: string where
  "canary_payload = ''{\"session_id\":\"s1\",\"hook_event_name\":\"Stop\",\"cwd\":\"/home/'' @ HOOK_CANARY
     @ ''\",\"prompt\":\"'' @ HOOK_CANARY @ ''\",\"transcript_path\":\"/x/'' @ HOOK_CANARY @ ''.jsonl\"}''"

definition canary_fields_never_reach_the_datagram :: bool where
  "canary_fields_never_reach_the_datagram \<longleftrightarrow>
     (case extract_pair canary_payload of
        None \<Rightarrow> False
      | Some (ev, sid) \<Rightarrow>
          ev = ''Stop'' \<and> sid = ''s1''
          \<and> (let s = utf8_lossy (encode (Hook ev sid))
             in \<not> str_contains ''deadbeef'' s \<and> \<not> str_contains HOOK_CANARY s))"

definition key_name_inside_a_value_is_not_matched :: bool where
  "key_name_inside_a_value_is_not_matched \<longleftrightarrow>
     extract_pair (''{\"prompt\":\"'' @ [backslash] @ ''\"hook_event_name'' @ [backslash] @ ''\":'' @ [backslash]
         @ ''\"INJECTED'' @ [backslash] @ ''\"\",\"session_id\":\"real\",\"hook_event_name\":\"Stop\"}'')
       = Some (''Stop'', ''real'')"

definition missing_keys_yield_none :: bool where
  "missing_keys_yield_none \<longleftrightarrow>
     extract_pair ''{\"session_id\":\"s\"}'' = None
     \<and> extract_pair ''{\"hook_event_name\":\"Stop\"}'' = None
     \<and> extract_pair ''not json at all'' = None"

definition send_to_missing_socket_errors_without_panicking :: bool where
  "send_to_missing_socket_errors_without_panicking \<longleftrightarrow>
     fst (send False (Heartbeat ''s'') ''/no/such/spnr/sock'') = Inl ()"

lemma extracts_the_two_keys_from_a_realistic_hook_payload_passes: "extracts_the_two_keys_from_a_realistic_hook_payload"
  by code_simp

lemma canary_pair: "extract_pair canary_payload = Some (''Stop'', ''s1'')"
  by code_simp

lemma canary_datagram: "encode (Hook ''Stop'' ''s1'') = map byte_of [1, 0, 4] @ ''Stop'' @ map byte_of [0, 2] @ ''s1''"
  by (simp add: put_str_def be16_def TAG_HOOK_def, simp add: eval_nat_numeral)

lemma canary_fields_never_reach_the_datagram_passes: "canary_fields_never_reach_the_datagram"
proof -
  have "utf8_lossy (encode (Hook ''Stop'' ''s1'')) = encode (Hook ''Stop'' ''s1'')"
    unfolding canary_datagram by (rule utf8_lossy_ascii) code_simp
  moreover have "\<not> str_contains ''deadbeef'' (encode (Hook ''Stop'' ''s1''))"
    "\<not> str_contains HOOK_CANARY (encode (Hook ''Stop'' ''s1''))"
    unfolding canary_datagram by code_simp+
  ultimately show ?thesis
    by (simp add: canary_fields_never_reach_the_datagram_def canary_pair del: encode.simps)
qed

lemma key_name_inside_a_value_is_not_matched_passes: "key_name_inside_a_value_is_not_matched"
  by code_simp

lemma missing_keys_yield_none_passes: "missing_keys_yield_none"
  by code_simp

lemma send_to_missing_socket_errors_without_panicking_passes: "send_to_missing_socket_errors_without_panicking"
  by code_simp

subsection \<open>spnr-status\<close>

definition osc8_is_well_formed_with_a_bel_terminator_and_degrades_to_text :: bool where
  "osc8_is_well_formed_with_a_bel_terminator_and_degrades_to_text \<longleftrightarrow>
     (let txt = ''spnr '' @ up_triangle @ '' $4.43 '' @ ne_arrow;
          link = osc8 ''https://spnr.sh/c/AbC9'' txt
      in starts_with (byte_of 27 # '']8;;https://spnr.sh/c/AbC9'' @ [byte_of 7]) link
         \<and> ends_with (byte_of 27 # '']8;;'' @ [byte_of 7]) link
         \<and> \<not> str_contains [byte_of 27, backslash] link
         \<and> str_contains txt link)"

definition skims_only_session_id :: bool where
  "skims_only_session_id \<longleftrightarrow>
     skim_session ''{\"model\":{\"id\":\"x\"},\"session_id\":\"sess-7c1f\",\"cost\":{\"total_duration_ms\":1234},\"workspace\":{\"cwd\":\"/secret\"}}''
       = Some ''sess-7c1f''"

definition reads_cache_contents :: bool where
  "reads_cache_contents \<longleftrightarrow>
     (let line = ''spnr '' @ up_triangle @ '' $4.43 today''
      in read_cache (write_file NoFault None line) = Some line)"

definition missing_cache_is_none_not_panic :: bool where
  "missing_cache_is_none_not_panic \<longleftrightarrow> read_cache None = None"

definition heartbeat_to_missing_socket_errors_without_panicking :: bool where
  "heartbeat_to_missing_socket_errors_without_panicking \<longleftrightarrow>
     fst (send_heartbeat False ''s'' ''/no/such/sock'') = Inl ()"

lemma osc8_is_well_formed_with_a_bel_terminator_and_degrades_to_text_passes: "osc8_is_well_formed_with_a_bel_terminator_and_degrades_to_text"
  by code_simp

lemma skims_only_session_id_passes: "skims_only_session_id"
  by code_simp

lemma reads_cache_contents_passes: "reads_cache_contents"
  by code_simp

lemma missing_cache_is_none_not_panic_passes: "missing_cache_is_none_not_panic"
  by code_simp

lemma heartbeat_to_missing_socket_errors_without_panicking_passes: "heartbeat_to_missing_socket_errors_without_panicking"
  by code_simp

end
