(* ===== verification/Tests_Daemon.thy ===== *)
theory Tests_Daemon
  imports Http_Wire Tests_Engine Tests_Readers
begin

section \<open>The daemon's unit tests (spnrd main.rs, mod tests)\<close>

text \<open>
  The unit tests of the daemon as definitions, over the cryptography, the random bytes of the key and
  the fresh ids they take. The tests of the status line pass whatever the cryptography is; those that
  look into an event are run with \<open>test_crypto\<close>, since what they say of hashes (that two of them
  differ) holds of a hash function only up to collisions.
\<close>

definition hb :: "string \<Rightarrow> socket_msg" where
  "hb s = Heartbeat s"

definition hook :: "string \<Rightarrow> string \<Rightarrow> socket_msg" where
  "hook name s = Hook name s"

text \<open>A disk without faults, and the daemon in a fresh directory.\<close>

definition calm :: "string \<Rightarrow> surroundings" where
  "calm i = \<lparr>sur_id = i, sur_queue = NoFault, sur_cache = NoFault\<rparr>"

definition fresh_daemon :: "crypto \<Rightarrow> bytes \<Rightarrow> daemon" where
  "fresh_daemon C r = daemon_new C r None None"

definition beat_31 :: "crypto \<Rightarrow> surroundings \<Rightarrow> string \<Rightarrow> daemon \<Rightarrow> daemon" where
  "beat_31 C w s = fold (\<lambda>k. handle C w (hb s) (of_nat k * 1000)) [0..<31]"

subsection \<open>The tests\<close>

definition a_full_attested_turn_emits_one_chained_impression_record :: "crypto \<Rightarrow> bytes \<Rightarrow> string \<Rightarrow> bool" where
  "a_full_attested_turn_emits_one_chained_impression_record C r i \<longleftrightarrow>
     (let w = calm i;
          d = fresh_daemon C r;
          d = handle C w (hook ''UserPromptSubmit'' ''s1'') 0 d;
          d = beat_31 C w ''s1'' d;
          d = handle C w (hook ''Stop'' ''s1'') 30000 d
      in (case read_all (d_queue d) of
            [json] \<Rightarrow> utf8_ok json
              \<and> str_contains ''\"type\":\"imp\"'' json
              \<and> str_contains ''\"n\":6'' json
              \<and> str_contains GENESIS_PREV json
              \<and> \<not> str_contains ''\"s1\"'' json
              \<and> str_contains ''\"s:'' json
              \<and> str_contains ''\"s\":\"'' json
          | _ \<Rightarrow> False)
         \<and> d_ctr d = 1
         \<and> d_prev d \<noteq> GENESIS_PREV)"

definition headless_turn_with_no_heartbeats_emits_nothing :: "crypto \<Rightarrow> bytes \<Rightarrow> string \<Rightarrow> bool" where
  "headless_turn_with_no_heartbeats_emits_nothing C r i \<longleftrightarrow>
     (let w = calm i;
          d = fresh_daemon C r;
          d = handle C w (hook ''UserPromptSubmit'' ''s1'') 0 d;
          d = handle C w (hook ''Stop'' ''s1'') 60000 d
      in read_all (d_queue d) = [] \<and> d_ctr d = 0)"

definition pause_zeroes_accrual_then_resume_restores_it :: "crypto \<Rightarrow> bytes \<Rightarrow> string \<Rightarrow> bool" where
  "pause_zeroes_accrual_then_resume_restores_it C r i \<longleftrightarrow>
     (let w = calm i;
          d = fresh_daemon C r;
          d = handle C w (Cmd Pause) 0 d;
          d = handle C w (hook ''UserPromptSubmit'' ''s1'') 0 d;
          d = beat_31 C w ''s1'' d;
          d1 = handle C w (hook ''Stop'' ''s1'') 30000 d;
          d = handle C w (Cmd Resume) 31000 d1;
          d = handle C w (hook ''UserPromptSubmit'' ''s2'') 0 d;
          d = beat_31 C w ''s2'' d;
          d = handle C w (hook ''Stop'' ''s2'') 30000 d
      in read_all (d_queue d1) = [] \<and> length (read_all (d_queue d)) = 1)"

definition fingerprint_is_stable_per_session_and_hides_the_raw_id :: "crypto \<Rightarrow> bytes \<Rightarrow> bool" where
  "fingerprint_is_stable_per_session_and_hides_the_raw_id C r \<longleftrightarrow>
     (let d = fresh_daemon C r;
          a = fingerprint C d ''session-abc'';
          b = fingerprint C d ''session-abc'';
          c = fingerprint C d ''session-xyz''
      in a = b \<and> a \<noteq> c \<and> starts_with ''s:'' a \<and> \<not> str_contains ''session-abc'' a)"

definition statusline_is_a_clickable_osc8_link_when_networked :: "crypto \<Rightarrow> bytes \<Rightarrow> bool" where
  "statusline_is_a_clickable_osc8_link_when_networked C r \<longleftrightarrow>
     (let d = (fresh_daemon C r)\<lparr>d_server := ''http://127.0.0.1:8787'',
            d_ads := [(''AbC9'', ''CloakPipe '' @ ne_arrow), (''Kp7T'', ''ctxgraph '' @ ne_arrow)]\<rparr>;
          d = write_status_cache NoFault d
      in (case d_status_cache d of
            None \<Rightarrow> False
          | Some line \<Rightarrow> utf8_ok line
              \<and> starts_with (byte_of 27 # '']8;;http://127.0.0.1:8787/c/'') line
              \<and> ends_with (byte_of 27 # '']8;;'' @ [byte_of 7]) line
              \<and> \<not> str_contains [byte_of 27, backslash] line
              \<and> str_contains ''CloakPipe'' line))"

definition featured_ad_rotates_through_the_whole_pool :: "crypto \<Rightarrow> bytes \<Rightarrow> bool" where
  "featured_ad_rotates_through_the_whole_pool C r \<longleftrightarrow>
     (let d = (fresh_daemon C r)\<lparr>d_server := ''http://x'',
            d_ads := [(''AbC9'', ''a '' @ ne_arrow), (''Kp7T'', ''b '' @ ne_arrow), (''Zx2Q'', ''c '' @ ne_arrow)]\<rparr>;
          (a1, d) = featured_ad d;
          (a2, d) = featured_ad d;
          (a3, d) = featured_ad d;
          (a4, d) = featured_ad d
      in List.map_filter id [a1, a2, a3] =
           [(''http://x/c/AbC9'', ''a '' @ ne_arrow), (''http://x/c/Kp7T'', ''b '' @ ne_arrow),
            (''http://x/c/Zx2Q'', ''c '' @ ne_arrow)]
         \<and> map_option fst a4 = Some ''http://x/c/AbC9'')"

definition statusline_degrades_to_plain_text_off_the_networked_path :: "crypto \<Rightarrow> bytes \<Rightarrow> bool" where
  "statusline_degrades_to_plain_text_off_the_networked_path C r \<longleftrightarrow>
     (case d_status_cache (write_status_cache NoFault (fresh_daemon C r)) of
        None \<Rightarrow> False
      | Some line \<Rightarrow> utf8_ok line \<and> byte_of 27 \<notin> set line \<and> str_contains (''spnr '' @ up_triangle) line)"

definition undecodable_datagrams_are_ignored_by_decode :: bool where
  "undecodable_datagrams_are_ignored_by_decode \<longleftrightarrow>
     decode [byte_of 255, byte_of 255, byte_of 255] = None \<and> decode [] = None"

subsection \<open>Turns of thirty seconds\<close>

lemma turn_is:
  "handle C w (hook ''Stop'' s) 30000 (beat_31 C w s (handle C w (hook ''UserPromptSubmit'' s) 0 d))
     = turn_run C s (w, 0) (map (\<lambda>k. (w, of_nat k * 1000)) [0..<31]) (w, 30000) d"
  by (simp add: turn_run_def heartbeats_run_def beat_31_def hook_def hb_def fold_map comp_def)

lemma thirty_seconds:
  "turn_counts d s 0 (map snd (map (\<lambda>k. (w, of_nat k * 1000)) [0..<31])) 30000
     = (if d_paused d \<or> \<not> tty_attested (hm_get_or default_session (d_sessions d) s) then 0 else 6)"
proof -
  have "map unat (map snd (map (\<lambda>k. (w, of_nat k * 1000 :: u64)) [0..<31])) = map (\<lambda>k. k * 1000) [0..<31]"
    by (rule nth_equalityI) (simp_all add: unat_word_ariths unat_of_nat take_bit_nat_eq_self)
  moreover have "countable_seconds_in 0 30000 (map (\<lambda>k. k * 1000) [0..<31]) GATE_WINDOW_MS False True = 30"
    using dense_counts[of 0 30000 30] by simp
  ultimately show ?thesis
    by (cases "d_paused d"; cases "tty_attested (hm_get_or default_session (d_sessions d) s)")
      (simp_all add: turn_counts_def countable_card del: map_map)
qed

lemma one_record:
  assumes "length env < 1000" shows "read_all (snd (append_rec NoFault None env)) = [env]"
  using read_all_append_many[of "[env]"] assms by (simp add: append_many_def records_ok_def frame_def)

subsection \<open>The cryptography of the tests\<close>

definition test_crypto :: crypto where
  "test_crypto = text_crypto\<lparr>blake3 := (\<lambda>b. pad 32 (rev b))\<rparr>"

definition imp_text :: "string \<Rightarrow> string" where
  "imp_text session = ''{\"v\":1,\"id\":\"01\",\"ctr\":0,\"prev\":\"'' @ GENESIS_PREV
     @ ''\",\"t\":30,\"type\":\"imp\",\"session\":\"'' @ session @ ''\",\"n\":6}''"

lemma small_numbers: "show_nat 0 = ''0''" "show_nat (Suc 0) = ''1''" "show_nat 6 = ''6''" "show_nat 30 = ''30''"
proof -
  have "byte_of 48 = CHR ''0''" "byte_of 49 = CHR ''1''" "byte_of 54 = CHR ''6''" "byte_of 51 = CHR ''3''"
    by code_simp+
  then show "show_nat 0 = ''0''" "show_nat (Suc 0) = ''1''" "show_nat 6 = ''6''" "show_nat 30 = ''30''"
    by (simp_all add: show_nat.simps)
qed

lemma literal_texts: "string_text GENESIS_PREV = quote # GENESIS_PREV @ [quote]"
  "string_text ''imp'' = quote # ''imp'' @ [quote]" "string_text ''01'' = quote # ''01'' @ [quote]"
  "string_text ''v'' = quote # ''v'' @ [quote]" "string_text ''id'' = quote # ''id'' @ [quote]"
  "string_text ''ctr'' = quote # ''ctr'' @ [quote]" "string_text ''prev'' = quote # ''prev'' @ [quote]"
  "string_text ''t'' = quote # ''t'' @ [quote]" "string_text ''type'' = quote # ''type'' @ [quote]"
  "string_text ''session'' = quote # ''session'' @ [quote]" "string_text ''n'' = quote # ''n'' @ [quote]"
  by code_simp+

lemma fresh_fields:
  "d_ctr (fresh_daemon C r) = 0" "d_prev (fresh_daemon C r) = GENESIS_PREV" "d_key (fresh_daemon C r) = key_generate r"
  "d_queue (fresh_daemon C r) = None" "d_sessions (fresh_daemon C r) = []" "d_paused (fresh_daemon C r) = False"
  "d_current_creative (fresh_daemon C r) = None" "d_impressions_total (fresh_daemon C r) = 0"
  "d_server (fresh_daemon C r) = []" "d_ads (fresh_daemon C r) = []" "d_featured (fresh_daemon C r) = 0"
  by (simp_all add: fresh_daemon_def daemon_new_def Let_def)

lemma s1_fingerprint: "fingerprint test_crypto (fresh_daemon test_crypto []) ''s1'' = ''s:317330303030''"
  "fingerprint test_crypto (fresh_daemon test_crypto []) ''s2'' = ''s:327330303030''"
  unfolding fingerprint_def fresh_daemon_def daemon_new_def Let_def by code_simp+

lemma test_event_text:
  assumes "string_text session = quote # session @ [quote]"
  shows "canonical_bytes test_crypto \<lparr>ev_v = 1, ev_id = ''01'', ev_ctr = 0, ev_prev = GENESIS_PREV, ev_t = 30, ev_ty = Imp,
     ev_session = session, ev_creative = None, ev_n = Some 6\<rparr> = imp_text session"
  by (simp add: canonical_bytes_def test_crypto_def text_crypto_def event_json_def json_i64_def literal_texts assms
      small_numbers imp_text_def)

lemma test_envelope:
  assumes "canonical_bytes test_crypto e = imp_text session" "ascii (imp_text session)"
  shows "envelope test_crypto (key_generate []) e
    = ''{\"e\":'' @ imp_text session @ '',\"s\":\"'' @ demo_hex (pad 64 (pad 32 [] @ imp_text session)) @ ''\"}''"
  using assms
  by (simp add: envelope_def utf8_lossy_ascii key_sign_def key_generate_def)
    (simp add: test_crypto_def text_crypto_def demo_crypto_def)

subsection \<open>The tests pass\<close>

lemma calm_fields [simp]: "sur_queue (calm i) = NoFault" "sur_cache (calm i) = NoFault" "sur_id (calm i) = i"
  by (simp_all add: calm_def)

lemma test_turn_imp:
  assumes "d_ctr d = 0" "d_prev d = GENESIS_PREV" "d_current_creative d = None"
  shows "turn_imp C (calm ''01'') s 6 30000 d = \<lparr>ev_v = 1, ev_id = ''01'', ev_ctr = 0, ev_prev = GENESIS_PREV,
     ev_t = 30, ev_ty = Imp, ev_session = fingerprint C d s, ev_creative = None, ev_n = Some 6\<rparr>"
  using assms by (simp add: turn_imp_def)

definition s1_record :: string where
  "s1_record = ''{\"e\":'' @ imp_text ''s:317330303030'' @ '',\"s\":\"''
     @ demo_hex (pad 64 (pad 32 [] @ imp_text ''s:317330303030'')) @ ''\"}''"

lemma s1_text: "canonical_bytes test_crypto (turn_imp test_crypto (calm ''01'') ''s1'' 6 30000 (fresh_daemon test_crypto []))
    = imp_text ''s:317330303030''"
proof -
  have q: "string_text ''s:317330303030'' = quote # ''s:317330303030'' @ [quote]" by code_simp
  show ?thesis by (simp add: test_turn_imp fresh_fields s1_fingerprint test_event_text[OF q])
qed

lemma a_full_attested_turn_passes: "a_full_attested_turn_emits_one_chained_impression_record test_crypto [] ''01''"
proof -
  let ?C = test_crypto and ?w = "calm ''01''" and ?d0 = "fresh_daemon test_crypto []"
  let ?e = "turn_imp ?C ?w ''s1'' 6 30000 ?d0"
  have a: "ascii (imp_text ''s:317330303030'')" by code_simp
  have env: "envelope ?C (key_generate []) ?e = s1_record"
    using test_envelope[OF s1_text a] by (simp add: s1_record_def)
  have n: "6 = turn_counts ?d0 ''s1'' 0 (map snd (map (\<lambda>k. (?w, of_nat k * 1000)) [0..<31])) 30000"
    by (simp only: thirty_seconds fresh_fields) (simp add: default_session_def hm_get_or_def hm_get_def)
  have len: "length s1_record < 1000" by (simp add: s1_record_def imp_text_def GENESIS_PREV_def)
  note t = turn_earns[OF refl n refl, of ?C ?w ?w]
  have "read_all (d_queue (turn_run ?C ''s1'' (?w, 0) (map (\<lambda>k. (?w, of_nat k * 1000)) [0..<31]) (?w, 30000) ?d0)) = [s1_record]"
    "d_ctr (turn_run ?C ''s1'' (?w, 0) (map (\<lambda>k. (?w, of_nat k * 1000)) [0..<31]) (?w, 30000) ?d0) = 1"
    "d_prev (turn_run ?C ''s1'' (?w, 0) (map (\<lambda>k. (?w, of_nat k * 1000)) [0..<31]) (?w, 30000) ?d0)
       = chain_next ?C (imp_text ''s:317330303030'')"
    using t one_record[OF len] by (simp_all add: fresh_fields env s1_text)
  moreover have "utf8_ok s1_record" by (rule ascii_utf8_ok) code_simp
  moreover have "str_contains ''\"type\":\"imp\"'' s1_record" "str_contains ''\"n\":6'' s1_record"
    "str_contains GENESIS_PREV s1_record" "\<not> str_contains ''\"s1\"'' s1_record" "str_contains ''\"s:'' s1_record"
    "str_contains ''\"s\":\"'' s1_record" "chain_next ?C (imp_text ''s:317330303030'') \<noteq> GENESIS_PREV"
    by code_simp+
  ultimately show ?thesis
    unfolding a_full_attested_turn_emits_one_chained_impression_record_def Let_def turn_is by simp
qed

lemma headless_turn_passes: "headless_turn_with_no_heartbeats_emits_nothing C r i"
proof -
  have "turn_counts (fresh_daemon C r) ''s1'' 0 (map snd []) 60000 = 0"
    by (simp add: turn_counts_def countable_card fresh_tick_def)
  from turn_earns[OF refl this[symmetric] refl, of C "calm i" "calm i"] show ?thesis
    by (simp add: headless_turn_with_no_heartbeats_emits_nothing_def Let_def hook_def turn_run_def heartbeats_run_def
        fresh_fields read_all_def)
qed

lemma fingerprint_passes: "fingerprint_is_stable_per_session_and_hides_the_raw_id test_crypto []"
proof -
  have "fingerprint test_crypto (fresh_daemon test_crypto []) ''session-abc'' = ''s:6362612d6e6f''"
    "fingerprint test_crypto (fresh_daemon test_crypto []) ''session-xyz'' = ''s:7a79782d6e6f''"
    unfolding fingerprint_def fresh_daemon_def daemon_new_def Let_def by code_simp+
  then show ?thesis
    unfolding fingerprint_is_stable_per_session_and_hides_the_raw_id_def Let_def by (simp only:) code_simp
qed

lemma undecodable_passes: "undecodable_datagrams_are_ignored_by_decode"
proof -
  have "byte_of 255 \<noteq> TAG_HOOK" "byte_of 255 \<noteq> TAG_HEARTBEAT" "byte_of 255 \<noteq> TAG_CMD" by code_simp+
  then show ?thesis
    by (simp add: undecodable_datagrams_are_ignored_by_decode_def decode_def decode_body_def)
qed

lemma pause_handled:
  "d_queue (handle C w (Cmd Pause) t d) = d_queue d" "d_paused (handle C w (Cmd Pause) t d) = True"
  "d_ctr (handle C w (Cmd Pause) t d) = d_ctr d" "d_prev (handle C w (Cmd Pause) t d) = d_prev d"
  "d_current_creative (handle C w (Cmd Pause) t d) = d_current_creative d"
  by (simp_all add: handle_def)

lemma resume_handled:
  "d_queue (handle C w (Cmd Resume) t d) = d_queue d" "d_paused (handle C w (Cmd Resume) t d) = False"
  "d_ctr (handle C w (Cmd Resume) t d) = d_ctr d" "d_prev (handle C w (Cmd Resume) t d) = d_prev d"
  "d_current_creative (handle C w (Cmd Resume) t d) = d_current_creative d"
  "hm_get (d_sessions (handle C w (Cmd Resume) t d)) s = map_option (set_paused False) (hm_get (d_sessions d) s)"
  by (simp_all add: handle_def muted.hm_get_map_values)

text \<open>A turn of one session leaves the others alone.\<close>

lemma other_session:
  assumes "s \<noteq> s'"
  shows "hm_get (d_sessions (turn_run C s p beats q d)) s' = hm_get (d_sessions d) s'"
proof -
  have one: "hm_get (d_sessions (handle C w (Hook ev s) t d)) s' = hm_get (d_sessions d) s'" for w ev t d
    using assms by (simp add: handle_def Let_def daemon_fields maps split: prod.split)
  have beat: "hm_get (d_sessions (handle C w (Heartbeat s) t d)) s' = hm_get (d_sessions d) s'" for w t d
    using assms by (simp add: handle_def Let_def daemon_fields maps)
  have "hm_get (d_sessions (heartbeats_run C s beats d)) s' = hm_get (d_sessions d) s'" for d
    unfolding heartbeats_run_def by (induction beats arbitrary: d) (auto simp: beat)
  then show ?thesis by (simp add: turn_run_def one)
qed

lemma turn_constants:
  "d_key (turn_run C s p beats q d) = d_key d" "d_salt (turn_run C s p beats q d) = d_salt d"
  "d_current_creative (turn_run C s p beats q d) = d_current_creative d"
proof -
  have "d_key (heartbeats_run C s beats d) = d_key d \<and> d_salt (heartbeats_run C s beats d) = d_salt d
      \<and> d_current_creative (heartbeats_run C s beats d) = d_current_creative d" for d
    unfolding heartbeats_run_def by (induction beats arbitrary: d) (auto simp: daemon_fields)
  then show "d_key (turn_run C s p beats q d) = d_key d" "d_salt (turn_run C s p beats q d) = d_salt d"
    "d_current_creative (turn_run C s p beats q d) = d_current_creative d"
    by (simp_all add: turn_run_def daemon_fields)
qed

lemma pause_then_resume_passes: "pause_zeroes_accrual_then_resume_restores_it test_crypto [] ''01''"
proof -
  let ?C = test_crypto and ?w = "calm ''01''" and ?beats = "map (\<lambda>k. (calm ''01'', of_nat k * 1000)) [0..<31]"
  define d0 where "d0 = handle ?C ?w (Cmd Pause) 0 (fresh_daemon ?C [])"
  define d1 where "d1 = turn_run ?C ''s1'' (?w, 0) ?beats (?w, 30000) d0"
  define d2 where "d2 = handle ?C ?w (Cmd Resume) 31000 d1"
  define d3 where "d3 = turn_run ?C ''s2'' (?w, 0) ?beats (?w, 30000) d2"
  have p: "0 = turn_counts d0 ''s1'' 0 (map snd ?beats) 30000"
    by (simp only: thirty_seconds d0_def pause_handled) simp
  have d1: "d_queue d1 = None" "d_ctr d1 = 0" "d_prev d1 = GENESIS_PREV"
    using turn_earns[OF d1_def p refl] by (simp_all add: d0_def pause_handled fresh_fields)
  have "hm_get (d_sessions d1) ''s2'' = None"
    using other_session[of "''s1''" "''s2''"] by (simp add: d1_def d0_def handle_def fresh_fields)
  then have n: "6 = turn_counts d2 ''s2'' 0 (map snd ?beats) 30000"
    by (simp only: thirty_seconds d2_def resume_handled) (simp add: hm_get_or_def resume_handled default_session_def)
  have const: "d_key d2 = key_generate []" "d_salt d2 = d_salt (fresh_daemon ?C [])" "d_current_creative d2 = None"
    by (simp_all add: d2_def d1_def d0_def daemon_fields turn_constants fresh_fields)
  have "fingerprint ?C d2 ''s2'' = ''s:327330303030''"
    using s1_fingerprint(2) const(2) by (simp add: fingerprint_def)
  moreover have q: "string_text ''s:327330303030'' = quote # ''s:327330303030'' @ [quote]" by code_simp
  ultimately have "canonical_bytes ?C (turn_imp ?C ?w ''s2'' 6 30000 d2) = imp_text ''s:327330303030''"
    using d1 const(3) by (simp add: test_turn_imp d2_def resume_handled test_event_text[OF q])
  moreover have "ascii (imp_text ''s:327330303030'')" by code_simp
  ultimately have "length (envelope ?C (key_generate []) (turn_imp ?C ?w ''s2'' 6 30000 d2)) < 1000"
    by (simp add: test_envelope) (simp add: imp_text_def GENESIS_PREV_def)
  from one_record[OF this] have "length (read_all (d_queue d3)) = 1"
    using turn_earns[OF d3_def n refl] d1 const(1) by (simp add: d2_def resume_handled)
  then show ?thesis
    unfolding pause_zeroes_accrual_then_resume_restores_it_def Let_def turn_is
    using d1 by (simp add: read_all_def flip: d0_def d1_def d2_def d3_def)
qed

lemma status_line_plain_passes: "statusline_degrades_to_plain_text_off_the_networked_path C r"
proof -
  have "d_status_cache (write_status_cache NoFault (fresh_daemon C r)) = Some (''spnr '' @ up_mark @ '' 0 impressions today'')"
    by (simp add: write_status_cache_def featured_ad_def fresh_fields Let_def write_file_def small_numbers)
  moreover have "utf8_ok (''spnr '' @ up_mark @ '' 0 impressions today'')"
    "byte_of 27 \<notin> set (''spnr '' @ up_mark @ '' 0 impressions today'')"
    "str_contains (''spnr '' @ up_triangle) (''spnr '' @ up_mark @ '' 0 impressions today'')" by code_simp+
  ultimately show ?thesis
    unfolding statusline_degrades_to_plain_text_off_the_networked_path_def by simp
qed

lemma status_line_link_passes: "statusline_is_a_clickable_osc8_link_when_networked C r"
proof -
  let ?d = "(fresh_daemon C r)\<lparr>d_server := ''http://127.0.0.1:8787'',
     d_ads := [(''AbC9'', ''CloakPipe '' @ ne_arrow), (''Kp7T'', ''ctxgraph '' @ ne_arrow)]\<rparr>"
  let ?line = "daemon_osc8 ''http://127.0.0.1:8787/c/AbC9'' (''spnr '' @ mid_dot @ '' '' @ ''CloakPipe '' @ ne_arrow)"
  have "trim_end_matches CHR ''/'' ''http://127.0.0.1:8787'' = ''http://127.0.0.1:8787''" by code_simp
  then have "d_status_cache (write_status_cache NoFault ?d) = Some ?line"
    by (simp add: write_status_cache_def featured_ad_def fresh_fields Let_def write_file_def)
  moreover have "utf8_ok ?line" "starts_with (byte_of 27 # '']8;;http://127.0.0.1:8787/c/'') ?line"
    "ends_with (byte_of 27 # '']8;;'' @ [byte_of 7]) ?line" "\<not> str_contains [byte_of 27, backslash] ?line"
    "str_contains ''CloakPipe'' ?line" by code_simp+
  ultimately show ?thesis
    unfolding statusline_is_a_clickable_osc8_link_when_networked_def Let_def by simp
qed

lemma rotation_passes: "featured_ad_rotates_through_the_whole_pool C r"
proof -
  have "trim_end_matches CHR ''/'' ''http://x'' = ''http://x''" by code_simp
  then show ?thesis
    by (simp add: featured_ad_rotates_through_the_whole_pool_def featured_ad_def fresh_fields Let_def List.map_filter_def)
qed

end
