(* ===== verification/Tests_Server.thy ===== *)
theory Tests_Server
  imports Server_Runs Server_Http
begin

section \<open>The server's unit tests: events, ledger, redemption, restart (main.rs, mod tests)\<close>

text \<open>
  The unit tests of the ledger half of the server as definitions, with their helpers. A test is a
  statement about every hash, signature and hex function \<open>C\<close>, every key it generates and every
  sequence \<open>ids\<close> of event ids; the lemmas prove it for all that satisfy the laws of \<open>C\<close> with
  distinct ids. Two tests forge a signature: they pass where the forgery does not verify.
\<close>

subsection \<open>Helpers\<close>

definition signed_imp :: "crypto \<Rightarrow> string \<Rightarrow> device_key \<Rightarrow> u64 \<Rightarrow> string \<Rightarrow> u32 \<Rightarrow> signed_event" where
  "signed_imp C i key ctr prev n =
     (let e = \<lparr>ev_v = 1, ev_id = i, ev_ctr = ctr, ev_prev = prev, ev_t = 1781234567 + ctr, ev_ty = Imp,
            ev_session = ''s:abcdef012345'', ev_creative = Some ''cr_house_1'', ev_n = Some n\<rparr>;
          sig = key_sign C key e
      in \<lparr>se_e = e, se_s = hex_encode C sig\<rparr>)"

definition register_device :: "crypto \<Rightarrow> app_state \<Rightarrow> device_key \<Rightarrow> string \<times> app_state" where
  "register_device C st key =
     (let device = device_id C key
      in (device, st\<lparr>devices := hm_insert device
            \<lparr>dv_pubkey = verifying_key C key, dv_account_id = ''acct:'' @ device,
             dv_chain_head = GENESIS_PREV, dv_ctr_head = None\<rparr> (devices st)\<rparr>))"

definition test_peer :: string where "test_peer = ''127.0.0.1''"

definition bare_register_req :: "string \<Rightarrow> string \<Rightarrow> register_req" where
  "bare_register_req device pubkey = \<lparr>rq_device_id = device, rq_pubkey = pubkey, rq_os = None,
     rq_arch = None, rq_hostname = None, rq_version = None, rq_email = None\<rparr>"

definition do_register :: "crypto \<Rightarrow> i64 \<Rightarrow> app_state \<Rightarrow> register_req \<Rightarrow> (nat \<times> register_resp) \<times> app_state" where
  "do_register C now s req = register C test_peer [] req now s"

text \<open>\<^verbatim>\<open>Redirect::to\<close>: 303 and the location.\<close>

definition see_other :: "string \<times> app_state \<Rightarrow> response \<times> app_state" where
  "see_other r = ((303, RedirectTo (fst r)), snd r)"

definition location :: "response \<Rightarrow> string option" where
  "location r = (case snd r of RedirectTo url \<Rightarrow> Some url | _ \<Rightarrow> None)"

definition redeem_status :: "(string + redeem_ok) \<times> app_state \<Rightarrow> nat" where
  "redeem_status r = (case fst r of Inl _ \<Rightarrow> 400 | Inr _ \<Rightarrow> 200)"

text \<open>The account and the balance behind an accepted event; an assertion or an index that fails is None.\<close>

definition seed_balance :: "crypto \<Rightarrow> string \<Rightarrow> device_key \<Rightarrow> u32 \<Rightarrow> (app_state \<times> string \<times> i64) option" where
  "seed_balance C i key n_imps =
     (let (device, s) = register_device C seeded key;
          se = signed_imp C i key 0 GENESIS_PREV n_imps;
          (r, s) = accept_event C device se s;
          acct = ''acct:'' @ device
      in if r = Inr () then map_option (\<lambda>bal. (s, acct, bal)) (hm_get (balances s) acct) else None)"

subsection \<open>Events and the ledger\<close>

definition valid_signed_impressions_accrue_5050_and_keep_ledger_balanced ::
    "crypto \<Rightarrow> (nat \<Rightarrow> string) \<Rightarrow> device_key \<Rightarrow> bool" where
  "valid_signed_impressions_accrue_5050_and_keep_ledger_balanced C ids key \<longleftrightarrow>
     (let (device, s) = register_device C seeded key;
          (ok, prev, s) = fold (\<lambda>ctr (ok, prev, s).
            (let se = signed_imp C (ids ctr) key (of_nat ctr) prev 2;
                 prev = chain_next C (canonical_bytes C (se_e se));
                 (r, s) = accept_event C device se s
             in (ok \<and> r = Inr (), prev, s))) [0, 1, 2] (True, GENESIS_PREV, s);
          acct = ''acct:'' @ device
      in ok \<and> hm_get (impressions s) acct = Some 6 \<and> hm_get (balances s) acct = Some 30000
         \<and> ledger_sums_to_zero s)"

definition forged_signature_is_rejected_and_earns_nothing ::
    "crypto \<Rightarrow> string \<Rightarrow> device_key \<Rightarrow> device_key \<Rightarrow> bool" where
  "forged_signature_is_rejected_and_earns_nothing C i key attacker \<longleftrightarrow>
     (let (device, s) = register_device C seeded key;
          se = signed_imp C i attacker 0 GENESIS_PREV 100;
          (r, s) = accept_event C device se s
      in r = Inl ''bad signature'' \<and> total_balance_micros s = 0)"

definition replayed_event_is_deduped :: "crypto \<Rightarrow> string \<Rightarrow> device_key \<Rightarrow> bool" where
  "replayed_event_is_deduped C i key \<longleftrightarrow>
     (let (device, s) = register_device C seeded key;
          se = signed_imp C i key 0 GENESIS_PREV 1;
          (r1, s) = accept_event C device se s;
          s = s\<lparr>devices := hm_modify device (\<lambda>d. d\<lparr>dv_chain_head := GENESIS_PREV\<rparr>) (devices s)\<rparr>;
          s = s\<lparr>devices := hm_modify device (\<lambda>d. d\<lparr>dv_ctr_head := None\<rparr>) (devices s)\<rparr>;
          (r2, s) = accept_event C device se s
      in r1 = Inr () \<and> r2 = Inl ''duplicate event id'')"

definition serve_returns_the_full_clickable_pool :: bool where
  "serve_returns_the_full_clickable_pool \<longleftrightarrow>
     (let (primary, pool) = serve seeded
      in 3 \<le> length pool \<and> map_option sc_id (find (\<lambda>_. True) pool) = Some (sc_id primary)
         \<and> card (set (map sc_short_code pool)) = length pool)"

definition click_resolves_any_pool_code_to_its_own_advertiser :: bool where
  "click_resolves_any_pool_code_to_its_own_advertiser \<longleftrightarrow>
     (let (resp, s) = see_other (click ''Kp7T'' seeded);
          (resp2, s2) = see_other (click ''nope'' s)
      in fst resp = 303 \<and> (case location resp of Some loc \<Rightarrow> str_contains ''ctxgraph'' loc | None \<Rightarrow> False)
         \<and> clicks s = 1 \<and> fst resp2 = 303 \<and> clicks s2 = 1)"

definition attestation_pct_tracks_accepted_vs_rejected ::
    "crypto \<Rightarrow> (nat \<Rightarrow> string) \<Rightarrow> device_key \<Rightarrow> device_key \<Rightarrow> bool" where
  "attestation_pct_tracks_accepted_vs_rejected C ids key attacker \<longleftrightarrow>
     (let (device, s) = register_device C seeded key;
          (events, prev) = fold (\<lambda>ctr (events, prev).
            (let se = signed_imp C (ids ctr) key (of_nat ctr) prev 1
             in (events @ [se], chain_next C (canonical_bytes C (se_e se))))) [0, 1] ([], GENESIS_PREV);
          events = events @ [signed_imp C (ids 2) attacker 2 prev 1];
          (resp, st) = ingest C device events s
      in ir_accepted resp = 2 \<and> ir_rejected resp = 1 \<and> accepted st = 2 \<and> rejected st = 1
         \<and> \<bar>attestation_pct st - 6666666667 / 100000000\<bar> < 1 / 100)"

definition chain_gap_is_rejected :: "crypto \<Rightarrow> string \<Rightarrow> device_key \<Rightarrow> bool" where
  "chain_gap_is_rejected C i key \<longleftrightarrow>
     (let (device, s) = register_device C seeded key;
          se = signed_imp C i key 5 GENESIS_PREV 1
      in fst (accept_event C device se s) = Inl ''ctr not monotonic'')"

subsection \<open>Redemption\<close>

definition redeem_part_decrements_balance_keeps_ledger_balanced_and_records_total ::
    "crypto \<Rightarrow> ((string, i64) hmap \<Rightarrow> (string \<times> i64) list) \<Rightarrow> string \<Rightarrow> device_key \<Rightarrow> bool" where
  "redeem_part_decrements_balance_keeps_ledger_balanced_and_records_total C order i key \<longleftrightarrow>
     (case seed_balance C i key 10 of
        None \<Rightarrow> False
      | Some (s, acct, bal) \<Rightarrow>
          (let resp = redeem order ''usdc'' (Some 20000) s; st = snd resp
           in bal = 50000 \<and> redeem_status resp = 200
              \<and> hm_get (balances st) acct = Some 30000
              \<and> total_balance_micros st = 30000 \<and> total_redeemed_micros st = 20000
              \<and> map rdm_id (redemptions st) = [''rdm_1''] \<and> map rdm_rail (redemptions st) = [''usdc'']
              \<and> ledger_sums_to_zero st
              \<and> (case find (\<lambda>e. kind e = ''redeem'') (ledger st) of
                   None \<Rightarrow> False
                 | Some e \<Rightarrow> debit e = acct \<and> credit e = ''acct:payout'' \<and> amount_micros e = 20000
                     \<and> reference e = ''rdm_1'')))"

definition redeem_no_amount_drains_balance_to_zero ::
    "crypto \<Rightarrow> ((string, i64) hmap \<Rightarrow> (string \<times> i64) list) \<Rightarrow> string \<Rightarrow> device_key \<Rightarrow> bool" where
  "redeem_no_amount_drains_balance_to_zero C order i key \<longleftrightarrow>
     (case seed_balance C i key 10 of
        None \<Rightarrow> False
      | Some (s, acct, bal) \<Rightarrow>
          (let resp = redeem order ''gift'' None s; st = snd resp
           in bal = 50000 \<and> redeem_status resp = 200 \<and> hm_get (balances st) acct = Some 0
              \<and> total_balance_micros st = 0 \<and> total_redeemed_micros st = 50000 \<and> ledger_sums_to_zero st))"

definition redeem_over_balance_is_rejected ::
    "crypto \<Rightarrow> ((string, i64) hmap \<Rightarrow> (string \<times> i64) list) \<Rightarrow> string \<Rightarrow> device_key \<Rightarrow> bool" where
  "redeem_over_balance_is_rejected C order i key \<longleftrightarrow>
     (case seed_balance C i key 10 of
        None \<Rightarrow> False
      | Some (s, acct, bal) \<Rightarrow>
          (let resp = redeem order ''credits'' (Some 50001) s; st = snd resp
           in bal = 50000 \<and> redeem_status resp = 400 \<and> hm_get (balances st) acct = Some 50000
              \<and> total_redeemed_micros st = 0 \<and> length (redemptions st) = 0
              \<and> \<not> list_ex (\<lambda>e. kind e = ''redeem'') (ledger st) \<and> ledger_sums_to_zero st))"

subsection \<open>Restart\<close>

definition sqlite_persists_across_restart ::
    "crypto \<Rightarrow> ((string, i64) hmap \<Rightarrow> (string \<times> i64) list) \<Rightarrow> string \<Rightarrow> i64 \<Rightarrow> string option \<Rightarrow> device_key \<Rightarrow> bool" where
  "sqlite_persists_across_restart C order i now env key \<longleftrightarrow>
     (let device = device_id C key;
          acct = ''acct:'' @ device;
          pubkey_hex = hex_encode C (verifying_key C key)
      in (case fst (open_state C now env empty_conn) of
            Inl _ \<Rightarrow> False
          | Inr first \<Rightarrow>
              (let (resp, s) = do_register C now first (bare_register_req device pubkey_hex);
                   se = signed_imp C i key 0 GENESIS_PREV 10;
                   expected_head = chain_next C (canonical_bytes C (se_e se));
                   (ingest_resp, s) = ingest C device [se] s;
                   redeem_resp = redeem order ''usdc'' (Some 20000) s;
                   st = snd redeem_resp
               in devices first = [] \<and> total_balance_micros first = 0
                  \<and> fst resp = 200
                  \<and> ir_accepted ingest_resp = 1 \<and> ir_rejected ingest_resp = 0
                  \<and> redeem_status redeem_resp = 200
                  \<and> hm_get (balances st) acct = Some 30000 \<and> hm_get (impressions st) acct = Some 10
                  \<and> length (redemptions st) = 1 \<and> ledger_sums_to_zero st
                  \<and> (case db st of
                       None \<Rightarrow> False
                     | Some c \<Rightarrow>
                         (case fst (open_state C now env c) of
                            Inl _ \<Rightarrow> False
                          | Inr again \<Rightarrow>
                              length (devices again) = 1
                              \<and> (case hm_get (devices again) device of
                                   None \<Rightarrow> False
                                 | Some dev \<Rightarrow> dv_account_id dev = acct \<and> dv_chain_head dev = expected_head
                                     \<and> dv_ctr_head dev = Some 0)
                              \<and> hm_get (balances again) acct = Some 30000
                              \<and> total_balance_micros again = 30000
                              \<and> hm_get (impressions again) acct = Some 10
                              \<and> total_impressions again = 10
                              \<and> redemptions again
                                  = [\<lparr>rdm_id = ''rdm_1'', rdm_amount = 20000, rdm_rail = ''usdc''\<rparr>]
                              \<and> total_redeemed_micros again = 20000
                              \<and> next_redemption_id again = 2
                              \<and> accepted again = 1 \<and> rejected again = 0
                              \<and> card (seen_event_ids again) = 1
                              \<and> length (ledger again) = 3
                              \<and> ledger_sums_to_zero again)))))"

definition in_memory_db_opens_empty :: "crypto \<Rightarrow> i64 \<Rightarrow> string option \<Rightarrow> bool" where
  "in_memory_db_opens_empty C now env \<longleftrightarrow>
     (case fst (open_state C now env empty_conn) of
        Inl _ \<Rightarrow> False
      | Inr st \<Rightarrow> db st \<noteq> None \<and> devices st = [] \<and> total_balance_micros st = 0 \<and> ledger_sums_to_zero st)"

subsection \<open>An event signed with the device's own key\<close>

definition test_event :: "string \<Rightarrow> u64 \<Rightarrow> string \<Rightarrow> u32 \<Rightarrow> event" where
  "test_event i ctr prev n = \<lparr>ev_v = 1, ev_id = i, ev_ctr = ctr, ev_prev = prev, ev_t = 1781234567 + ctr,
     ev_ty = Imp, ev_session = ''s:abcdef012345'', ev_creative = Some ''cr_house_1'', ev_n = Some n\<rparr>"

lemma signed_imp_alt:
  "signed_imp C i key ctr prev n = \<lparr>se_e = test_event i ctr prev n,
     se_s = hex_encode C (key_sign C key (test_event i ctr prev n))\<rparr>"
  by (simp add: signed_imp_def test_event_def Let_def)

lemma signed_imp_event [simp]: "se_e (signed_imp C i key ctr prev n) = test_event i ctr prev n"
  by (simp add: signed_imp_alt)

lemma test_event_fields [simp]:
  "ev_id (test_event i ctr prev n) = i" "ev_ctr (test_event i ctr prev n) = ctr"
  "ev_prev (test_event i ctr prev n) = prev" "imp_count (test_event i ctr prev n) = ucast n"
  by (simp_all add: test_event_def imp_count_def)

text \<open>The only device of the state, and its position.\<close>

definition only_device :: "crypto \<Rightarrow> device_key \<Rightarrow> string \<Rightarrow> u64 option \<Rightarrow> app_state \<Rightarrow> bool" where
  "only_device C key head ctr s \<longleftrightarrow> devices s = [(device_id C key,
     \<lparr>dv_pubkey = verifying_key C key, dv_account_id = ''acct:'' @ device_id C key,
      dv_chain_head = head, dv_ctr_head = ctr\<rparr>)]"

lemma single_map [simp]:
  "hm_get [(k, v)] k = Some v" "hm_insert k w [(k, v)] = [(k, w)]" "hm_modify k f [(k, v)] = [(k, f v)]"
  "hm_insert k v [] = [(k, v)]" "hm_get_or d [(k, v)] k = v" "hm_get_or d [] k = d"
  by (simp_all add: hm_get_def hm_insert_def hm_modify_def hm_get_or_def)

lemma single_sum [simp]: "hm_sum [] = 0" "hm_sum [(k, v)] = v"
  by (simp_all add: hm_sum_def)

text \<open>It is accepted, and the memory behind it.\<close>

lemma own_event_accepted:
  assumes laws: "hex_ok C" "ed25519_ok C"
    and s: "only_device C key prev c s" "i \<notin> seen_event_ids s"
    and ctr: "ctr = (case c of Some c \<Rightarrow> c + 1 | None \<Rightarrow> 0)" and n: "n \<noteq> 0"
    and acct: "acct = ''acct:'' @ device_id C key"
  obtains s' where "accept_event C (device_id C key) (signed_imp C i key ctr prev n) s = (Inr (), s')"
    "only_device C key (chain_next C (canonical_bytes C (test_event i ctr prev n))) (Some ctr) s'"
    "seen_event_ids s' = insert i (seen_event_ids s)"
    "balances s' = hm_insert acct (hm_get_or 0 (balances s) acct + 5000 * ucast n) (balances s)"
    "impressions s' = hm_insert acct (hm_get_or 0 (impressions s) acct + ucast n) (impressions s)"
    "ledger s' = ledger s @ imp_entries s acct (5000 * ucast n) (5000 * ucast n) i"
    "redemptions s' = redemptions s" "next_redemption_id s' = next_redemption_id s"
    "accepted s' = accepted s" "rejected s' = rejected s"
proof -
  let ?d = "device_id C key" and ?se = "signed_imp C i key ctr prev n" and ?e = "test_event i ctr prev n"
  let ?dev = "\<lparr>dv_pubkey = verifying_key C key, dv_account_id = acct, dv_chain_head = prev, dv_ctr_head = c\<rparr>"
  have dev: "hm_get (devices s) ?d = Some ?dev" using s(1) by (simp add: only_device_def acct)
  have "acceptable C ?d ?se s"
    unfolding signed_imp_alt
    by (rule signed_acceptable[OF laws dev]) (use s ctr in \<open>simp_all add: expected_ctr_def\<close>)
  then have ok: "fst (accept_event C ?d ?se s) = Inr ()" by (simp add: accept_event_iff)
  define s' where "s' = snd (accept_event C ?d ?se s)"
  define m where "m = credit_imps acct ?e (advance C ?d ?e (mem s))"
  have "mem s' = m" using accept_event_mem[OF ok dev] by (simp add: s'_def m_def)
  then have f: "devices s' = devices m" "seen_event_ids s' = seen_event_ids m" "balances s' = balances m"
    "impressions s' = impressions m" "ledger s' = ledger m" "redemptions s' = redemptions m"
    "next_redemption_id s' = next_redemption_id m" "accepted s' = accepted m" "rejected s' = rejected m"
    by (metis mem_fields)+
  show ?thesis
  proof (rule that[of s'])
    show "accept_event C ?d ?se s = (Inr (), s')" using ok by (metis s'_def prod.collapse)
  qed (use n s(1) in \<open>simp_all add: f m_def credit_imps_def advance_def imp_entries_def only_device_def acct\<close>)
qed

text \<open>The state the tests start from.\<close>

lemma test_start:
  obtains s where "register_device C seeded key = (device_id C key, s)"
    "only_device C key GENESIS_PREV None s" "seen_event_ids s = {}" "balances s = []" "impressions s = []"
    "ledger s = []" "accepted s = 0" "rejected s = 0" "redemptions s = []" "next_redemption_id s = 1"
  by (rule that[of "snd (register_device C seeded key)"])
    (simp_all add: register_device_def only_device_def Let_def seeded_def)

lemma valid_signed_impressions_passes:
  assumes laws: "hex_ok C" "ed25519_ok C" and ids: "ids 0 \<noteq> ids 1" "ids 0 \<noteq> ids 2" "ids 1 \<noteq> ids 2"
  shows "valid_signed_impressions_accrue_5050_and_keep_ledger_balanced C ids key"
proof -
  let ?acct = "''acct:'' @ device_id C key" and ?e0 = "test_event (ids 0) 0 GENESIS_PREV 2"
  let ?p1 = "chain_next C (canonical_bytes C ?e0)"
  let ?e1 = "test_event (ids 1) 1 ?p1 2"
  let ?p2 = "chain_next C (canonical_bytes C ?e1)"
  obtain s0 where s0: "register_device C seeded key = (device_id C key, s0)"
    "only_device C key GENESIS_PREV None s0" "seen_event_ids s0 = {}" "balances s0 = []" "impressions s0 = []"
    by (rule test_start)
  obtain s1 where s1: "accept_event C (device_id C key) (signed_imp C (ids 0) key 0 GENESIS_PREV 2) s0 = (Inr (), s1)"
    "only_device C key ?p1 (Some 0) s1" "seen_event_ids s1 = {ids 0}"
    "balances s1 = [(?acct, 10000)]" "impressions s1 = [(?acct, 2)]"
    by (rule own_event_accepted[OF laws s0(2), of "ids 0" 0 2 ?acct]) (simp_all add: s0)
  obtain s2 where s2: "accept_event C (device_id C key) (signed_imp C (ids 1) key 1 ?p1 2) s1 = (Inr (), s2)"
    "only_device C key ?p2 (Some 1) s2" "seen_event_ids s2 = {ids 1, ids 0}"
    "balances s2 = [(?acct, 20000)]" "impressions s2 = [(?acct, 4)]"
    by (rule own_event_accepted[OF laws s1(2), of "ids 1" 1 2 ?acct]) (use ids in \<open>simp_all add: s1\<close>)
  obtain s3 where "accept_event C (device_id C key) (signed_imp C (ids 2) key 2 ?p2 2) s2 = (Inr (), s3)"
    "balances s3 = [(?acct, 30000)]" "impressions s3 = [(?acct, 6)]"
    by (rule own_event_accepted[OF laws s2(2), of "ids 2" 2 2 ?acct]) (use ids in \<open>simp_all add: s2\<close>)
  then show ?thesis
    using s1(1) s2(1)
    by (simp add: valid_signed_impressions_accrue_5050_and_keep_ledger_balanced_def s0(1) Let_def
        ledger_check_is_vacuous numeral_2_eq_2)
qed

text \<open>The other tests.\<close>

lemma other_signature:
  assumes "hex_ok C" "only_device C key prev c s"
    and "\<not> key_verify C (test_event i ctr prev' n) (key_sign C attacker (test_event i ctr prev' n)) (verifying_key C key)"
  shows "accept_event C (device_id C key) (signed_imp C i attacker ctr prev' n) s = (Inl ''bad signature'', s)"
  using assms by (simp add: accept_event_def only_device_def signed_imp_alt hex_ok_def)

lemma forged_signature_passes:
  assumes "hex_ok C"
    and "\<not> key_verify C (test_event i 0 GENESIS_PREV 100) (key_sign C attacker (test_event i 0 GENESIS_PREV 100))
        (verifying_key C key)"
  shows "forged_signature_is_rejected_and_earns_nothing C i key attacker"
proof -
  obtain s0 where s0: "register_device C seeded key = (device_id C key, s0)"
    "only_device C key GENESIS_PREV None s0" "balances s0 = []" by (rule test_start)
  then show ?thesis
    using other_signature[OF assms(1) s0(2) assms(2)]
    by (simp add: forged_signature_is_rejected_and_earns_nothing_def Let_def total_balance_micros_def)
qed

lemma replayed_event_passes:
  assumes "hex_ok C" "ed25519_ok C"
  shows "replayed_event_is_deduped C i key"
proof -
  obtain s0 where s0: "register_device C seeded key = (device_id C key, s0)"
    "only_device C key GENESIS_PREV None s0" "seen_event_ids s0 = {}" by (rule test_start)
  obtain s1 where s1: "accept_event C (device_id C key) (signed_imp C i key 0 GENESIS_PREV 1) s0 = (Inr (), s1)"
    "only_device C key (chain_next C (canonical_bytes C (test_event i 0 GENESIS_PREV 1))) (Some 0) s1"
    "seen_event_ids s1 = {i}"
    by (rule own_event_accepted[OF assms s0(2), of i 0 1 "''acct:'' @ device_id C key"]) (simp_all add: s0)
  then show ?thesis
    using assms key_sign_verifies[OF assms(2)]
    by (simp add: replayed_event_is_deduped_def s0(1) only_device_def accept_event_def[of _ _ _ "_\<lparr>devices := _\<rparr>"]
        signed_imp_alt hex_ok_def)
qed

lemma serve_pool_passes: "serve_returns_the_full_clickable_pool"
  by (simp add: serve_returns_the_full_clickable_pool_def serve_def seeded_def house_creatives_def to_serve_def)

lemma click_resolves_passes: "click_resolves_any_pool_code_to_its_own_advertiser"
proof -
  have "str_contains ''ctxgraph'' ''https://example.com/ctxgraph''" by code_simp
  then show ?thesis
    by (simp add: click_resolves_any_pool_code_to_its_own_advertiser_def click_def see_other_def location_def
        seeded_def house_creatives_def Let_def with_db_def)
qed

lemma chain_gap_passes:
  assumes "hex_ok C" "ed25519_ok C"
  shows "chain_gap_is_rejected C i key"
proof -
  obtain s0 where s0: "register_device C seeded key = (device_id C key, s0)"
    "only_device C key GENESIS_PREV None s0" by (rule test_start)
  then show ?thesis
    using assms key_sign_verifies[OF assms(2)]
    by (simp add: chain_gap_is_rejected_def only_device_def accept_event_def signed_imp_alt hex_ok_def)
qed

subsection \<open>The balance of ten impressions\<close>

lemma ten_impressions:
  assumes "hex_ok C" "ed25519_ok C"
  obtains s where "seed_balance C i key 10 = Some (s, ''acct:'' @ device_id C key, 50000)"
    "balances s = [(''acct:'' @ device_id C key, 50000)]" "redemptions s = []" "next_redemption_id s = 1"
    "list_all (\<lambda>e. kind e \<noteq> ''redeem'') (ledger s)"
proof -
  let ?acct = "''acct:'' @ device_id C key"
  obtain s0 where s0: "register_device C seeded key = (device_id C key, s0)"
    "only_device C key GENESIS_PREV None s0" "seen_event_ids s0 = {}" "balances s0 = []" "ledger s0 = []"
    "redemptions s0 = []" "next_redemption_id s0 = 1" by (rule test_start)
  obtain s1 where s1: "accept_event C (device_id C key) (signed_imp C i key 0 GENESIS_PREV 10) s0 = (Inr (), s1)"
    "balances s1 = [(?acct, 50000)]" "ledger s1 = imp_entries s0 ?acct 50000 50000 i"
    "redemptions s1 = []" "next_redemption_id s1 = 1"
    by (rule own_event_accepted[OF assms s0(2), of i 0 10 ?acct]) (simp_all add: s0)
  show ?thesis
    by (rule that[of s1]) (simp_all add: s1 seed_balance_def s0(1) imp_entries_def)
qed

lemma only_entry: "mset (order [x]) = mset [x] \<Longrightarrow> order [x] = [x]"
  by (metis mset_single_iff)

lemma first_redemption: "''rdm_'' @ show_nat 1 = ''rdm_1''"
  by code_simp

lemmas redeem_eval = redeem_def redeem_status_def Let_def ledger_check_is_vacuous
  total_balance_micros_def total_redeemed_micros_def

lemma find_after: "list_all (\<lambda>e. \<not> P e) es \<Longrightarrow> find P (es @ [x]) = (if P x then Some x else None)"
  by (induction es) auto

lemma redeem_part_passes:
  assumes "hex_ok C" "ed25519_ok C" "\<And>m. mset (order m) = mset m"
  shows "redeem_part_decrements_balance_keeps_ledger_balanced_and_records_total C order i key"
proof -
  obtain s where s: "seed_balance C i key 10 = Some (s, ''acct:'' @ device_id C key, 50000)"
    "balances s = [(''acct:'' @ device_id C key, 50000)]" "redemptions s = []" "next_redemption_id s = 1"
    "list_all (\<lambda>e. kind e \<noteq> ''redeem'') (ledger s)"
    by (rule ten_impressions[OF assms(1,2)])
  have "order (balances s) = balances s" unfolding s(2) by (rule only_entry) (rule assms(3))
  then show ?thesis
    using s first_redemption
    by (simp add: redeem_part_decrements_balance_keeps_ledger_balanced_and_records_total_def redeem_eval find_after)
qed

lemma redeem_no_amount_passes:
  assumes "hex_ok C" "ed25519_ok C" "\<And>m. mset (order m) = mset m"
  shows "redeem_no_amount_drains_balance_to_zero C order i key"
proof -
  obtain s where s: "seed_balance C i key 10 = Some (s, ''acct:'' @ device_id C key, 50000)"
    "balances s = [(''acct:'' @ device_id C key, 50000)]" "redemptions s = []"
    by (rule ten_impressions[OF assms(1,2)])
  have "order (balances s) = balances s" unfolding s(2) by (rule only_entry) (rule assms(3))
  then show ?thesis
    using s by (simp add: redeem_no_amount_drains_balance_to_zero_def redeem_eval)
qed

lemma redeem_over_balance_passes:
  assumes "hex_ok C" "ed25519_ok C" "\<And>m. mset (order m) = mset m"
  shows "redeem_over_balance_is_rejected C order i key"
proof -
  obtain s where s: "seed_balance C i key 10 = Some (s, ''acct:'' @ device_id C key, 50000)"
    "balances s = [(''acct:'' @ device_id C key, 50000)]" "redemptions s = []"
    "list_all (\<lambda>e. kind e \<noteq> ''redeem'') (ledger s)"
    by (rule ten_impressions[OF assms(1,2)])
  have "order (balances s) = balances s" unfolding s(2) by (rule only_entry) (rule assms(3))
  then show ?thesis
    using s by (simp add: redeem_over_balance_is_rejected_def redeem_eval list_ex_iff list_all_iff)
qed

subsection \<open>The database\<close>

lemma first_boot:
  assumes "hex_ok C"
  obtains s where "fst (open_state C now env empty_conn) = Inr s" "durable C s" "db s \<noteq> None" "devices s = []"
    "seen_event_ids s = {}" "balances s = []" "impressions s = []" "ledger s = []" "accepted s = 0"
    "rejected s = 0" "redemptions s = []" "next_redemption_id s = 1"
proof -
  let ?s = "seeded\<lparr>db := Some empty_conn\<rparr>"
  obtain s where s: "fst (open_state C now env empty_conn) = Inr s" "same_books ?s s"
    using restart_restores[OF assms seeded_durable, of empty_conn now env] by auto
  have "durable C s" using boot_state[OF assms s(1)] by simp
  moreover from this have "db s \<noteq> None" by (metis durable_obtain option.distinct(1))
  ultimately show ?thesis
    using s by (intro that[of s]) (simp_all add: same_books_def seeded_def)
qed

lemma in_memory_passes: "hex_ok C \<Longrightarrow> in_memory_db_opens_empty C now env"
  by (rule first_boot[of C now env])
    (simp_all add: in_memory_db_opens_empty_def total_balance_micros_def ledger_check_is_vacuous)

lemma registers:
  assumes "hex_ok C" "ed25519_ok C" "devices s = []" "balances s = []" "impressions s = []"
    and "s' = snd (do_register C now s (bare_register_req (device_id C key) (hex_encode C (verifying_key C key))))"
  shows "fst (fst (do_register C now s (bare_register_req (device_id C key) (hex_encode C (verifying_key C key))))) = 200"
    "only_device C key GENESIS_PREV None s'"
    "balances s' = [(''acct:'' @ device_id C key, 0)]" "impressions s' = [(''acct:'' @ device_id C key, 0)]"
    "seen_event_ids s' = seen_event_ids s" "ledger s' = ledger s" "accepted s' = accepted s"
    "rejected s' = rejected s" "redemptions s' = redemptions s" "next_redemption_id s' = next_redemption_id s"
  unfolding assms(6) using assms(3-5) verifying_key_decodes[OF assms(1,2)]
  by (simp_all add: do_register_def register_def bare_register_req_def Let_def only_device_def account_of_def
      hm_or_insert_def)

lemma ingest_single:
  assumes "accept_event C d se s = (Inr (), s1)"
  obtains s' where "ingest C d [se] s = (\<lparr>ir_accepted = 1, ir_rejected = 0, ir_reasons = []\<rparr>, s')"
    "devices s' = devices s1" "seen_event_ids s' = seen_event_ids s1" "balances s' = balances s1"
    "impressions s' = impressions s1" "ledger s' = ledger s1" "redemptions s' = redemptions s1"
    "next_redemption_id s' = next_redemption_id s1" "accepted s' = accepted s1 + 1" "rejected s' = rejected s1"
  by (rule that[of "snd (ingest C d [se] s)"]) (simp_all add: ingest_def ingest_one_def assms Let_def)

lemma persists_passes:
  assumes laws: "hex_ok C" "ed25519_ok C" "\<And>m. mset (order m) = mset m"
  shows "sqlite_persists_across_restart C order i now env key"
proof -
  let ?d = "device_id C key" and ?acct = "''acct:'' @ device_id C key" and ?e = "test_event i 0 GENESIS_PREV 10"
  let ?req = "bare_register_req ?d (hex_encode C (verifying_key C key))"
  obtain s where s: "fst (open_state C now env empty_conn) = Inr s" "durable C s" "devices s = []"
    "seen_event_ids s = {}" "balances s = []" "impressions s = []" "ledger s = []" "accepted s = 0"
    "rejected s = 0" "redemptions s = []" "next_redemption_id s = 1"
    using first_boot[OF laws(1), of now env] by metis
  define s1 where "s1 = snd (do_register C now s ?req)"
  note r = registers[OF laws(1,2) s(3,5,6) s1_def]
  obtain s2 where s2: "accept_event C ?d (signed_imp C i key 0 GENESIS_PREV 10) s1 = (Inr (), s2)"
    "only_device C key (chain_next C (canonical_bytes C ?e)) (Some 0) s2" "seen_event_ids s2 = {i}"
    "balances s2 = [(?acct, 50000)]" "impressions s2 = [(?acct, 10)]"
    "ledger s2 = imp_entries s1 ?acct 50000 50000 i" "redemptions s2 = []" "next_redemption_id s2 = 1"
    "accepted s2 = 0" "rejected s2 = 0"
    by (rule own_event_accepted[OF laws(1,2) r(2), of i 0 10 ?acct]) (simp_all add: r s)
  obtain s3 where s3: "ingest C ?d [signed_imp C i key 0 GENESIS_PREV 10] s1
        = (\<lparr>ir_accepted = 1, ir_rejected = 0, ir_reasons = []\<rparr>, s3)"
    "devices s3 = devices s2" "seen_event_ids s3 = {i}" "balances s3 = [(?acct, 50000)]"
    "impressions s3 = [(?acct, 10)]" "ledger s3 = imp_entries s1 ?acct 50000 50000 i" "redemptions s3 = []"
    "next_redemption_id s3 = 1" "accepted s3 = 1" "rejected s3 = 0"
    using ingest_single[OF s2(1)] s2 by (metis add_0)
  define st where "st = snd (redeem order ''usdc'' (Some 20000) s3)"
  have o: "order (balances s3) = balances s3" unfolding s3(4) by (rule only_entry) (rule laws(3))
  have st: "redeem_status (redeem order ''usdc'' (Some 20000) s3) = 200" "devices st = devices s2"
    "seen_event_ids st = {i}" "balances st = [(?acct, 30000)]" "impressions st = [(?acct, 10)]"
    "length (ledger st) = 3" "redemptions st = [\<lparr>rdm_id = ''rdm_1'', rdm_amount = 20000, rdm_rail = ''usdc''\<rparr>]"
    "next_redemption_id st = 2" "accepted st = 1" "rejected st = 0"
    using s3 o first_redemption by (simp_all add: st_def redeem_eval imp_entries_def)
  have "durable C s1" using s(2) by (simp add: s1_def do_register_def register_durable)
  then have "durable C s3" using ingest_durable[of C s1 ?d] s3(1) by (metis snd_conv)
  then have "durable C st" unfolding st_def by (rule redeem_durable) (simp add: s3)
  then obtain c where c: "db st = Some c" by (metis durable_obtain)
  with \<open>durable C st\<close> obtain s4 where s4: "fst (open_state C now env c) = Inr s4" "same_books st s4"
    using restart_restores[OF laws(1), of st c now env] by blast
  have again: "devices s4 = devices s2" "seen_event_ids s4 = {i}" "balances s4 = [(?acct, 30000)]"
    "impressions s4 = [(?acct, 10)]" "length (ledger s4) = 3"
    "redemptions s4 = [\<lparr>rdm_id = ''rdm_1'', rdm_amount = 20000, rdm_rail = ''usdc''\<rparr>]"
    "next_redemption_id s4 = 2" "accepted s4 = 1" "rejected s4 = 0"
    using s4(2) st by (simp_all add: same_books_def)
  have reg: "do_register C now s ?req = (fst (do_register C now s ?req), s1)" by (simp add: s1_def)
  show ?thesis
    unfolding sqlite_persists_across_restart_def Let_def s(1) sum.case
    by (subst reg)
      (use s r(1) s2(2) s3(1) st c s4(1) again in \<open>simp add: only_device_def st_def[symmetric]
        ledger_check_is_vacuous total_balance_micros_def total_redeemed_micros_def total_impressions_def\<close>)
qed

subsection \<open>The attestation rate\<close>

lemma ingest_accepts:
  assumes "accept_event C d se s = (Inr (), s1)"
  shows "ingest_one C d se (r, s) = (r\<lparr>ir_accepted := ir_accepted r + 1\<rparr>,
    with_db (kv_set ''accepted'' (accepted s1 + 1)) (s1\<lparr>accepted := accepted s1 + 1\<rparr>))"
  by (simp add: ingest_one_def assms Let_def)

lemma ingest_rejects:
  assumes "accept_event C d se s = (Inl reason, s1)"
  shows "ingest_one C d se (r, s) = (r\<lparr>ir_rejected := ir_rejected r + 1, ir_reasons := ir_reasons r @ [reason]\<rparr>,
    with_db (kv_set ''rejected'' (rejected s1 + 1)) (s1\<lparr>rejected := rejected s1 + 1\<rparr>))"
  by (simp add: ingest_one_def assms Let_def)

lemma two_of_three:
  assumes "accepted s = 2" "rejected s = 1"
  shows "\<bar>attestation_pct s - 6666666667 / 100000000\<bar> < 1 / 100"
proof -
  have "attestation_pct s = f64 (f64 (f64 2 / f64 3) * 100)"
    by (simp add: attestation_pct_def assms)
  moreover have "\<bar>f64 (f64 (f64 2 / f64 3) * 100) - 6666666667 / 100000000\<bar> < 1 / 100"
    by code_simp
  ultimately show ?thesis by simp
qed

lemma attestation_passes:
  assumes laws: "hex_ok C" "ed25519_ok C" and ids: "ids 0 \<noteq> ids 1"
    and forged: "\<And>e. \<not> key_verify C e (key_sign C attacker e) (verifying_key C key)"
  shows "attestation_pct_tracks_accepted_vs_rejected C ids key attacker"
proof -
  let ?d = "device_id C key" and ?acct = "''acct:'' @ device_id C key" and ?e0 = "test_event (ids 0) 0 GENESIS_PREV 1"
  let ?p1 = "chain_next C (canonical_bytes C ?e0)"
  let ?e1 = "test_event (ids 1) 1 ?p1 1"
  let ?p2 = "chain_next C (canonical_bytes C ?e1)"
  let ?r = "\<lparr>ir_accepted = 0, ir_rejected = 0, ir_reasons = []\<rparr>"
  obtain s0 where s0: "register_device C seeded key = (?d, s0)" "only_device C key GENESIS_PREV None s0"
    "seen_event_ids s0 = {}" "accepted s0 = 0" "rejected s0 = 0" by (rule test_start)
  obtain s1 where s1: "accept_event C ?d (signed_imp C (ids 0) key 0 GENESIS_PREV 1) s0 = (Inr (), s1)"
    "only_device C key ?p1 (Some 0) s1" "seen_event_ids s1 = {ids 0}" "accepted s1 = 0" "rejected s1 = 0"
    by (rule own_event_accepted[OF laws s0(2), of "ids 0" 0 1 ?acct]) (simp_all add: s0)
  define t1 where "t1 = with_db (kv_set ''accepted'' (accepted s1 + 1)) (s1\<lparr>accepted := accepted s1 + 1\<rparr>)"
  have t1: "only_device C key ?p1 (Some 0) t1" "seen_event_ids t1 = {ids 0}" "accepted t1 = 1" "rejected t1 = 0"
    using s1(2-5) by (simp_all add: t1_def only_device_def)
  obtain s2 where s2: "accept_event C ?d (signed_imp C (ids 1) key 1 ?p1 1) t1 = (Inr (), s2)"
    "only_device C key ?p2 (Some 1) s2" "accepted s2 = 1" "rejected s2 = 0"
    by (rule own_event_accepted[OF laws t1(1), of "ids 1" 1 1 ?acct]) (use ids in \<open>simp_all add: t1\<close>)
  define t2 where "t2 = with_db (kv_set ''accepted'' (accepted s2 + 1)) (s2\<lparr>accepted := accepted s2 + 1\<rparr>)"
  have t2: "only_device C key ?p2 (Some 1) t2" "accepted t2 = 2" "rejected t2 = 0"
    using s2(2-4) by (simp_all add: t2_def only_device_def)
  note a3 = other_signature[OF laws(1) t2(1) forged, of "ids 2" 2 ?p2 1]
  define t3 where "t3 = with_db (kv_set ''rejected'' (rejected t2 + 1)) (t2\<lparr>rejected := rejected t2 + 1\<rparr>)"
  have t3: "accepted t3 = 2" "rejected t3 = 1" using t2 by (simp_all add: t3_def)
  have "ingest C ?d [signed_imp C (ids 0) key 0 GENESIS_PREV 1, signed_imp C (ids 1) key 1 ?p1 1,
      signed_imp C (ids 2) attacker 2 ?p2 1] s0
    = (\<lparr>ir_accepted = 2, ir_rejected = 1, ir_reasons = [''bad signature'']\<rparr>, t3)"
    by (simp add: ingest_def ingest_accepts[OF s1(1)] ingest_accepts[OF s2(1)] ingest_rejects[OF a3]
        t1_def[symmetric] t2_def[symmetric] t3_def[symmetric] del: One_nat_def)
  with t3 two_of_three[OF t3] show ?thesis
    by (simp add: attestation_pct_tracks_accepted_vs_rejected_def s0(1) Let_def del: One_nat_def)
qed

text \<open>
  The laws and the side conditions can hold: with \<open>demo_crypto\<close>, whose signatures carry the seed,
  another key's signature does not verify.
\<close>

lemma demo_forgery:
  "\<not> key_verify demo_crypto e (key_sign demo_crypto (from_seed ''a'') e) (verifying_key demo_crypto (from_seed ''k''))"
proof -
  have "take 32 (pad 64 (pad 32 s @ m)) = pad 32 s" for s m by (simp add: pad_def)
  moreover have "pad 32 ''a'' \<noteq> pad 32 ''k''" by (simp add: pad_def)
  ultimately have "pad 64 (pad 32 ''a'' @ m) \<noteq> pad 64 (pad 32 ''k'' @ m)" for m by metis
  then show ?thesis
    by (simp add: key_verify_def key_sign_def verifying_key_def from_seed_def)
      (simp add: demo_crypto_def)
qed

lemma demo_ledger_tests:
  "valid_signed_impressions_accrue_5050_and_keep_ledger_balanced demo_crypto show_nat (from_seed ''k'')"
  "forged_signature_is_rejected_and_earns_nothing demo_crypto ''i'' (from_seed ''k'') (from_seed ''a'')"
  "attestation_pct_tracks_accepted_vs_rejected demo_crypto show_nat (from_seed ''k'') (from_seed ''a'')"
proof -
  have ids: "show_nat 0 \<noteq> show_nat 1" "show_nat 0 \<noteq> show_nat 2" "show_nat 1 \<noteq> show_nat 2" by simp_all
  show "valid_signed_impressions_accrue_5050_and_keep_ledger_balanced demo_crypto show_nat (from_seed ''k'')"
    by (rule valid_signed_impressions_passes) (simp_all add: ids)
  show "forged_signature_is_rejected_and_earns_nothing demo_crypto ''i'' (from_seed ''k'') (from_seed ''a'')"
    by (rule forged_signature_passes[OF _ demo_forgery]) simp
  show "attestation_pct_tracks_accepted_vs_rejected demo_crypto show_nat (from_seed ''k'') (from_seed ''a'')"
    by (rule attestation_passes[OF _ _ _ demo_forgery]) (simp_all add: ids)
qed

end
