(* ===== verification/Tests_Accounts.thy ===== *)
theory Tests_Accounts
  imports Tests_Server Server_Auth Json_Text
begin

section \<open>The server's unit tests: accounts, sessions, operator (main.rs, mod tests)\<close>

text \<open>
  The unit tests of the account handlers and of the operator's handlers as definitions, with their
  helpers. Random bytes, the clock, Argon2 and the encodings are arguments; the lemmas prove the tests
  for every Argon2 that hashes each password and verifies exactly the hashed one, every hex encoding
  with two letters or digits per byte, and random bytes that are long enough and differ. A body is read back as
  the value it was printed from: no number in it is a float.
\<close>

subsection \<open>Helpers\<close>

definition read_body :: "response \<Rightarrow> nat \<times> json" where
  "read_body resp = (fst resp, (case snd resp of Json j \<Rightarrow> j | _ \<Rightarrow> JNull))"

definition auth_state :: "crypto \<Rightarrow> i64 \<Rightarrow> string option \<Rightarrow> app_state option" where
  "auth_state C now env = (case fst (open_state C now env empty_conn) of Inl _ \<Rightarrow> None | Inr s \<Rightarrow> Some s)"

definition do_signup :: "argon \<Rightarrow> crypto \<Rightarrow> bytes \<Rightarrow> bytes \<Rightarrow> bytes \<Rightarrow> i64 \<Rightarrow> app_state \<Rightarrow> string \<Rightarrow> string \<Rightarrow>
    (nat \<times> json) \<times> app_state" where
  "do_signup A C salt rid rtoken now s email password =
     (let (resp, s) = respond auth_error 201 auth_resp_json
            (signup A C salt rid rtoken now \<lparr>aq_email = email, aq_password = password\<rparr> s)
      in (read_body resp, s))"

definition do_login :: "argon \<Rightarrow> crypto \<Rightarrow> bytes \<Rightarrow> i64 \<Rightarrow> app_state \<Rightarrow> string \<Rightarrow> string \<Rightarrow>
    (nat \<times> json) \<times> app_state" where
  "do_login A C rtoken now s email password =
     (let (resp, s) = respond auth_error 200 auth_resp_json
            (login A C rtoken now \<lparr>aq_email = email, aq_password = password\<rparr> s)
      in (read_body resp, s))"

definition bearer :: "string \<Rightarrow> headers" where
  "bearer token = [(''authorization'', ''Bearer '' @ token)]"

definition me_response :: "headers \<Rightarrow> app_state \<Rightarrow> response \<times> app_state" where
  "me_response hs s = respond auth_error 200 me_resp_json (me hs s)"

definition logout_response :: "headers \<Rightarrow> app_state \<Rightarrow> response \<times> app_state" where
  "logout_response hs s = respond auth_error 200 (\<lambda>_. logout_resp_json) (logout hs s)"

text \<open>The random bytes a test draws: a salt, an account id, and a token for each session.\<close>

record draws =
  dr_salt :: bytes
  dr_id :: bytes
  dr_token :: bytes
  dr_token2 :: bytes

subsection \<open>Accounts and sessions\<close>

definition signup_then_login_returns_a_token :: "argon \<Rightarrow> crypto \<Rightarrow> draws \<Rightarrow> i64 \<Rightarrow> string option \<Rightarrow> bool" where
  "signup_then_login_returns_a_token A C r now env \<longleftrightarrow>
     (case auth_state C now env of
        None \<Rightarrow> False
      | Some s \<Rightarrow>
          (let ((status, body), s) = do_signup A C (dr_salt r) (dr_id r) (dr_token r) now s
                 ''dev@example.com'' ''hunter2pass'';
               ((status2, body2), s) = do_login A C (dr_token2 r) now s ''dev@example.com'' ''hunter2pass''
           in status = 201
              \<and> (case as_str (json_index body ''token'') of
                   None \<Rightarrow> False
                 | Some signup_token \<Rightarrow> signup_token \<noteq> [] \<and> length signup_token = 64
                     \<and> json_index body ''email'' = JString ''dev@example.com''
                     \<and> (case as_str (json_index body ''account_id'') of
                          None \<Rightarrow> False | Some a \<Rightarrow> starts_with ''acct:user:'' a)
                     \<and> status2 = 200
                     \<and> (case as_str (json_index body2 ''token'') of
                          None \<Rightarrow> False
                        | Some login_token \<Rightarrow> login_token \<noteq> []
                            \<and> json_index body2 ''email'' = JString ''dev@example.com''
                            \<and> signup_token \<noteq> login_token))))"

definition login_wrong_password_is_401 :: "argon \<Rightarrow> crypto \<Rightarrow> draws \<Rightarrow> i64 \<Rightarrow> string option \<Rightarrow> bool" where
  "login_wrong_password_is_401 A C r now env \<longleftrightarrow>
     (case auth_state C now env of
        None \<Rightarrow> False
      | Some s \<Rightarrow>
          (let (_, s) = do_signup A C (dr_salt r) (dr_id r) (dr_token r) now s ''dev@example.com'' ''hunter2pass'';
               ((status, body), s) = do_login A C (dr_token2 r) now s ''dev@example.com'' ''wrongpassword''
           in status = 401 \<and> json_index body ''error'' = JString ''invalid credentials''))"

definition duplicate_email_signup_is_409 :: "argon \<Rightarrow> crypto \<Rightarrow> draws \<Rightarrow> draws \<Rightarrow> i64 \<Rightarrow> string option \<Rightarrow> bool" where
  "duplicate_email_signup_is_409 A C r r' now env \<longleftrightarrow>
     (case auth_state C now env of
        None \<Rightarrow> False
      | Some s \<Rightarrow>
          (let ((first, _), s) = do_signup A C (dr_salt r) (dr_id r) (dr_token r) now s ''dup@example.com'' ''password123'';
               ((second, body), s) = do_signup A C (dr_salt r') (dr_id r') (dr_token r') now s ''dup@example.com'' ''password123''
           in first = 201 \<and> second = 409 \<and> json_index body ''error'' = JString ''email already registered''))"

definition signup_rejects_bad_email_and_short_password ::
    "argon \<Rightarrow> crypto \<Rightarrow> draws \<Rightarrow> draws \<Rightarrow> i64 \<Rightarrow> string option \<Rightarrow> bool" where
  "signup_rejects_bad_email_and_short_password A C r r' now env \<longleftrightarrow>
     (case auth_state C now env of
        None \<Rightarrow> False
      | Some s \<Rightarrow>
          (let ((status, _), s) = do_signup A C (dr_salt r) (dr_id r) (dr_token r) now s ''not-an-email'' ''password123'';
               ((status2, _), s) = do_signup A C (dr_salt r') (dr_id r') (dr_token r') now s ''ok@example.com'' ''short''
           in status = 400 \<and> status2 = 400))"

definition me_with_the_token_returns_the_email :: "argon \<Rightarrow> crypto \<Rightarrow> draws \<Rightarrow> i64 \<Rightarrow> string option \<Rightarrow> bool" where
  "me_with_the_token_returns_the_email A C r now env \<longleftrightarrow>
     (case auth_state C now env of
        None \<Rightarrow> False
      | Some s \<Rightarrow>
          (let ((_, body), s) = do_signup A C (dr_salt r) (dr_id r) (dr_token r) now s ''me@example.com'' ''password123''
           in (case (as_str (json_index body ''token''), as_str (json_index body ''account_id'')) of
                 (Some token, Some account_id) \<Rightarrow>
                   (let (status, body) = read_body (fst (me_response (bearer token) s))
                    in status = 200 \<and> json_index body ''email'' = JString ''me@example.com''
                       \<and> json_index body ''account_id'' = JString account_id)
               | _ \<Rightarrow> False)))"

definition me_with_bogus_token_is_401 :: "crypto \<Rightarrow> i64 \<Rightarrow> string option \<Rightarrow> bool" where
  "me_with_bogus_token_is_401 C now env \<longleftrightarrow>
     (case auth_state C now env of
        None \<Rightarrow> False
      | Some s \<Rightarrow>
          (let (resp, s) = me_response (bearer ''deadbeefnotreal'') s;
               (resp2, s) = me_response [] s
           in fst (read_body resp) = 401 \<and> fst (read_body resp2) = 401))"

definition logout_then_me_is_401 :: "argon \<Rightarrow> crypto \<Rightarrow> draws \<Rightarrow> i64 \<Rightarrow> string option \<Rightarrow> bool" where
  "logout_then_me_is_401 A C r now env \<longleftrightarrow>
     (case auth_state C now env of
        None \<Rightarrow> False
      | Some s \<Rightarrow>
          (let ((_, body), s) = do_signup A C (dr_salt r) (dr_id r) (dr_token r) now s ''out@example.com'' ''password123''
           in (case as_str (json_index body ''token'') of
                 None \<Rightarrow> False
               | Some token \<Rightarrow>
                   (let (resp, s) = me_response (bearer token) s;
                        (resp2, s) = logout_response (bearer token) s;
                        (status, body) = read_body resp2;
                        (resp3, s) = me_response (bearer token) s
                    in fst resp = 200 \<and> status = 200 \<and> json_index body ''ok'' = JBool True \<and> fst resp3 = 401))))"

definition argon2_hash_is_not_the_plaintext :: "argon \<Rightarrow> bytes \<Rightarrow> bool" where
  "argon2_hash_is_not_the_plaintext A salt \<longleftrightarrow>
     (case ar_hash A salt ''supersecretpw'' of
        None \<Rightarrow> False
      | Some phc \<Rightarrow> phc \<noteq> ''supersecretpw'' \<and> \<not> str_contains ''supersecretpw'' phc
          \<and> starts_with ''$argon2'' phc
          \<and> ar_verify A ''supersecretpw'' phc \<and> \<not> ar_verify A ''supersecretpx'' phc)"

definition auth_handlers_do_not_panic_without_a_db :: "argon \<Rightarrow> crypto \<Rightarrow> draws \<Rightarrow> i64 \<Rightarrow> bool" where
  "auth_handlers_do_not_panic_without_a_db A C r now \<longleftrightarrow>
     (let ((status, _), s) = do_signup A C (dr_salt r) (dr_id r) (dr_token r) now seeded ''x@example.com'' ''password123'';
          ((status2, _), s) = do_login A C (dr_token2 r) now s ''x@example.com'' ''password123'';
          (resp, s) = me_response (bearer ''whatever'') s;
          (resp2, s) = logout_response (bearer ''whatever'') s
      in status = 503 \<and> status2 = 503 \<and> fst resp = 503 \<and> fst resp2 = 503)"

subsection \<open>The outside functions\<close>

definition argon_exact :: "argon \<Rightarrow> bool" where
  "argon_exact A \<longleftrightarrow> (\<forall>salt p. \<exists>h. ar_hash A salt p = Some h \<and> (\<forall>p'. ar_verify A p' h \<longleftrightarrow> p' = p))"

definition hex_length_ok :: "crypto \<Rightarrow> bool" where
  "hex_length_ok C \<longleftrightarrow> (\<forall>b. length (hex_encode C b) = 2 * length b)"

lemma argon_exactE:
  assumes "argon_exact A"
  obtains h where "ar_hash A salt p = Some h" "\<And>p'. ar_verify A p' h \<longleftrightarrow> p' = p"
  using assms unfolding argon_exact_def by metis

lemma new_token_length: "hex_length_ok C \<Longrightarrow> length b = 32 \<Longrightarrow> length (new_token C b) = 64"
  by (simp add: new_token_def hex_length_ok_def)

lemma new_token_inject: "hex_ok C \<Longrightarrow> length a = 32 \<Longrightarrow> length b = 32 \<Longrightarrow> new_token C a = new_token C b \<longleftrightarrow> a = b"
  by (simp add: new_token_def hex_encode_inject)

lemma alnum_solid: "is_alnum c \<Longrightarrow> solid c"
  by (rule solid_ascii) (use alnum_range in force)+

lemma bearer_of:
  assumes "list_all is_alnum tok" "tok \<noteq> []"
  shows "bearer_token (bearer tok) = Some tok"
proof -
  have "list_all (\<lambda>c. byte_val c = 9 \<or> (32 \<le> byte_val c \<and> byte_val c < 127)) tok"
    using assms(1) by (rule list.pred_mono_strong) (auto dest!: alnum_range)
  then have "header_str (bearer tok) ''authorization'' = Some (''Bearer '' @ tok)"
    by (simp add: header_str_def bearer_def byte_val_def)
  moreover have "strip_prefix ''Bearer '' (''Bearer '' @ tok) = Some tok" by (rule strip_prefix_append)
  moreover have "trim tok = tok"
    by (rule trim_all_solid) (use assms(1) in \<open>auto simp: list_all_iff intro: alnum_solid\<close>)
  ultimately show ?thesis using assms(2) by (simp add: bearer_token_def)
qed

lemma token_alnum: "alphabets_ok C \<Longrightarrow> list_all is_alnum (new_token C b)"
  by (simp add: alphabets_ok_def new_token_def)

subsection \<open>A fresh database\<close>

definition fresh_conn :: "i64 \<Rightarrow> conn" where
  "fresh_conn now = empty_conn\<lparr>t_creatives := map (\<lambda>cr. (cr_id cr, cr, True, now)) house_creatives\<rparr>"

definition fresh_state :: "i64 \<Rightarrow> string option \<Rightarrow> app_state" where
  "fresh_state now tok = seeded\<lparr>admin_token := tok, db := Some (fresh_conn now)\<rparr>"

lemma restored_empty:
  "restored \<lparr>ld_devices = [], ld_seen = {}, ld_ledger = [], ld_balances = [], ld_impressions = [],
     ld_clicks = 0, ld_accepted = 0, ld_rejected = 0, ld_redemptions = [], ld_next = 1\<rparr> = seeded"
  by (simp add: restored_def seeded_def)

lemma seeds_house_ads:
  "fold (\<lambda>cr. insert_creative cr True now) house_creatives empty_conn = fresh_conn now"
proof -
  have h: "healthy (empty_conn\<lparr>t_creatives := m\<rparr>)" for m by simp
  have step: "insert_creative cr True now (empty_conn\<lparr>t_creatives := m\<rparr>)
      = empty_conn\<lparr>t_creatives := m @ [(cr_id cr, cr, True, now)]\<rparr>" if "hm_get m (cr_id cr) = None" for cr m
    using insert_creative_fresh[OF h, of m cr True now] that by (simp add: hm_insert_fresh)
  have "fold (\<lambda>cr. insert_creative cr True now) house_creatives (empty_conn\<lparr>t_creatives := []\<rparr>) = fresh_conn now"
    by (simp add: house_creatives_def fresh_conn_def hm_get_def step)
  moreover have "empty_conn\<lparr>t_creatives := []\<rparr> = empty_conn" by (simp add: empty_conn_def)
  ultimately show ?thesis by simp
qed

lemma opened:
  "\<exists>tok. fst (open_state C now env empty_conn) = Inr (fresh_state now tok)"
proof -
  have e: "t_devices empty_conn = []" "t_seen empty_conn = []" "t_ledger empty_conn = []"
    "t_balances empty_conn = []" "t_impressions empty_conn = []" "t_redemptions empty_conn = []"
    "t_kv empty_conn = []" "t_creatives empty_conn = []" by (simp_all add: empty_conn_def)
  have "creatives seeded = house_creatives" by (simp add: seeded_def)
  then show ?thesis
    using seeds_house_ads[of now] restored_empty
    by (simp add: open_state_def bind_r_def load_healthy e load_creatives_def load_redemptions_def Let_def
        fresh_state_def) blast
qed

lemma auth_opened: obtains tok where "auth_state C now env = Some (fresh_state now tok)"
  using opened[of C now env] by (auto simp: auth_state_def)

lemma fresh_session_fields [simp]:
  "db (fresh_state now tok) = Some (fresh_conn now)" "healthy (fresh_conn now)"
  "t_accounts (fresh_conn now) = []" "t_sessions (fresh_conn now) = []"
  by (simp_all add: fresh_state_def fresh_conn_def) (simp_all add: empty_conn_def)

subsection \<open>Signing up on a fresh database\<close>

text \<open>The account and the state after the first signup.\<close>

definition user_of :: "crypto \<Rightarrow> draws \<Rightarrow> string" where
  "user_of C r = ''acct:user:'' @ short_id C (dr_id r)"

definition signed_up :: "crypto \<Rightarrow> draws \<Rightarrow> i64 \<Rightarrow> string \<Rightarrow> string \<Rightarrow> app_state \<Rightarrow> app_state" where
  "signed_up C r now email h s = s\<lparr>db := Some (fresh_conn now
     \<lparr>t_accounts := [\<lparr>ac_id = user_of C r, ac_email = email, ac_password_phc = h\<rparr>],
      t_sessions := [(new_token C (dr_token r), (user_of C r, now))]\<rparr>)\<rparr>"

definition good_email :: "string \<Rightarrow> bool" where
  "good_email email \<longleftrightarrow> trim email = email \<and> email_looks_valid email"

lemma test_emails [simp]:
  "good_email ''dev@example.com''" "good_email ''dup@example.com''" "good_email ''me@example.com''"
  "good_email ''out@example.com''" "good_email ''ok@example.com''" "good_email ''x@example.com''"
  "\<not> email_looks_valid (trim ''not-an-email'')"
  by code_simp+

lemma signs_up:
  assumes "good_email email" "8 \<le> length password" "ar_hash A (dr_salt r) password = Some h"
  shows "do_signup A C (dr_salt r) (dr_id r) (dr_token r) now (fresh_state now tok) email password
    = ((201, auth_resp_json \<lparr>as_token = new_token C (dr_token r), as_account_id = user_of C r, as_email = email\<rparr>),
       signed_up C r now email h (fresh_state now tok))"
  using assms
  by (simp add: do_signup_def signup_def good_email_def Let_def auth_tables respond_def read_body_def
      signed_up_def user_of_def single_map)

lemma signed_up_db [simp]:
  "db (signed_up C r now email h s) = Some (fresh_conn now
     \<lparr>t_accounts := [\<lparr>ac_id = user_of C r, ac_email = email, ac_password_phc = h\<rparr>],
      t_sessions := [(new_token C (dr_token r), (user_of C r, now))]\<rparr>)"
  by (simp add: signed_up_def)

lemma index_auth [simp]:
  "json_index (auth_resp_json a) ''token'' = JString (as_token a)"
  "json_index (auth_resp_json a) ''account_id'' = JString (as_account_id a)"
  "json_index (auth_resp_json a) ''email'' = JString (as_email a)"
  "json_index (me_resp_json m) ''account_id'' = JString (fst m)" "json_index (me_resp_json m) ''email'' = JString (snd m)"
  "json_index (error_json msg) ''error'' = JString msg" "json_index ok_resp_json ''ok'' = JBool True"
  "json_index logout_resp_json ''ok'' = JBool True"
  by (simp_all add: json_index_def auth_resp_json_def me_resp_json_def error_json_def ok_resp_json_def logout_resp_json_def hm_get_def)

lemmas auth_eval = respond_def read_body_def auth_error_def auth_tables Let_def good_email_def

lemma user_prefix [simp]: "starts_with ''acct:user:'' (user_of C r)"
  by (simp add: user_of_def starts_with_def)

lemma signup_then_login_passes:
  assumes "argon_exact A" "hex_ok C" "hex_length_ok C" "length (dr_token r) = 32" "length (dr_token2 r) = 32"
    and "dr_token r \<noteq> dr_token2 r"
  shows "signup_then_login_returns_a_token A C r now env"
proof -
  obtain tok where tok: "auth_state C now env = Some (fresh_state now tok)" by (rule auth_opened)
  obtain h where h: "ar_hash A (dr_salt r) ''hunter2pass'' = Some h" "\<And>p'. ar_verify A p' h \<longleftrightarrow> p' = ''hunter2pass''"
    using assms(1) by (metis argon_exactE)
  have g: "good_email ''dev@example.com''" by simp
  have l: "length (new_token C (dr_token r)) = 64" "length (new_token C (dr_token2 r)) = 64"
    "new_token C (dr_token r) \<noteq> new_token C (dr_token2 r)"
    using assms new_token_length new_token_inject by blast+
  then have n: "new_token C (dr_token r) \<noteq> []" "new_token C (dr_token2 r) \<noteq> []" by auto
  obtain s' where "do_login A C (dr_token2 r) now (signed_up C r now ''dev@example.com'' h (fresh_state now tok))
      ''dev@example.com'' ''hunter2pass''
    = ((200, auth_resp_json \<lparr>as_token = new_token C (dr_token2 r), as_account_id = user_of C r,
          as_email = ''dev@example.com''\<rparr>), s')"
    using g h(2) l(3) by (simp add: do_login_def login_def auth_eval hm_get_def)
  then show ?thesis
    using signs_up[OF g _ h(1), of C now tok] l n
    by (simp add: signup_then_login_returns_a_token_def tok)
qed

lemma login_wrong_password_passes:
  assumes "argon_exact A"
  shows "login_wrong_password_is_401 A C r now env"
proof -
  obtain tok where tok: "auth_state C now env = Some (fresh_state now tok)" by (rule auth_opened)
  obtain h where h: "ar_hash A (dr_salt r) ''hunter2pass'' = Some h" "\<And>p'. ar_verify A p' h \<longleftrightarrow> p' = ''hunter2pass''"
    using assms by (metis argon_exactE)
  have g: "good_email ''dev@example.com''" by simp
  show ?thesis
    using signs_up[OF g _ h(1), of C now tok] g h(2)
    by (simp add: login_wrong_password_is_401_def tok do_login_def login_def auth_eval)
qed

lemma duplicate_email_passes:
  assumes "argon_exact A"
  shows "duplicate_email_signup_is_409 A C r r' now env"
proof -
  obtain tok where tok: "auth_state C now env = Some (fresh_state now tok)" by (rule auth_opened)
  obtain h where h: "ar_hash A (dr_salt r) ''password123'' = Some h"
    using assms by (metis argon_exactE)
  have g: "good_email ''dup@example.com''" by simp
  have "do_signup A C (dr_salt r') (dr_id r') (dr_token r') now
        (signed_up C r now ''dup@example.com'' h (fresh_state now tok)) ''dup@example.com'' ''password123''
      = ((409, error_json ''email already registered''), signed_up C r now ''dup@example.com'' h (fresh_state now tok))"
    using g by (simp add: do_signup_def signup_def auth_eval signed_up_def)
  then show ?thesis
    using signs_up[OF g _ h, of C now tok] by (simp add: duplicate_email_signup_is_409_def tok)
qed

lemma signup_rejects_passes: "signup_rejects_bad_email_and_short_password A C r r' now env"
proof -
  obtain tok where tok: "auth_state C now env = Some (fresh_state now tok)" by (rule auth_opened)
  have g: "good_email ''ok@example.com''" by simp
  show ?thesis
    using g by (simp add: signup_rejects_bad_email_and_short_password_def tok do_signup_def signup_def auth_eval)
qed

lemma me_signed_up:
  assumes "alphabets_ok C" "hex_length_ok C" "length (dr_token r) = 32"
  shows "me (bearer (new_token C (dr_token r))) (signed_up C r now email h s)
    = (Inr (user_of C r, email), signed_up C r now email h s)"
proof -
  have "new_token C (dr_token r) \<noteq> []" using new_token_length[OF assms(2,3)] by auto
  then show ?thesis
    using bearer_of[OF token_alnum[OF assms(1)], of "dr_token r"]
    by (simp add: me_def auth_tables signed_up_def)
qed

lemma me_passes:
  assumes "argon_exact A" "alphabets_ok C" "hex_length_ok C" "length (dr_token r) = 32"
  shows "me_with_the_token_returns_the_email A C r now env"
proof -
  obtain tok where tok: "auth_state C now env = Some (fresh_state now tok)" by (rule auth_opened)
  obtain h where h: "ar_hash A (dr_salt r) ''password123'' = Some h"
    using assms(1) by (metis argon_exactE)
  have g: "good_email ''me@example.com''" by simp
  show ?thesis
    using signs_up[OF g _ h, of C now tok] me_signed_up[OF assms(2-4)]
    by (simp add: me_with_the_token_returns_the_email_def tok me_response_def respond_def read_body_def)
qed

lemma me_bogus_passes: "me_with_bogus_token_is_401 C now env"
proof -
  obtain tok where tok: "auth_state C now env = Some (fresh_state now tok)" by (rule auth_opened)
  have "bearer_token (bearer ''deadbeefnotreal'') = Some ''deadbeefnotreal''"
    by (rule bearer_of) code_simp+
  moreover have "bearer_token [] = None" by (simp add: bearer_token_def header_str_def)
  ultimately show ?thesis
    by (simp add: me_with_bogus_token_is_401_def tok me_response_def me_def auth_eval)
qed

lemma logout_passes:
  assumes "argon_exact A" "alphabets_ok C" "hex_length_ok C" "length (dr_token r) = 32"
  shows "logout_then_me_is_401 A C r now env"
proof -
  obtain tok where tok: "auth_state C now env = Some (fresh_state now tok)" by (rule auth_opened)
  obtain h where h: "ar_hash A (dr_salt r) ''password123'' = Some h"
    using assms(1) by (metis argon_exactE)
  have g: "good_email ''out@example.com''" by simp
  let ?t = "new_token C (dr_token r)" and ?s = "signed_up C r now ''out@example.com'' h (fresh_state now tok)"
  have "?t \<noteq> []" using new_token_length[OF assms(3,4)] by auto
  then have b: "bearer_token (bearer ?t) = Some ?t" by (rule bearer_of[OF token_alnum[OF assms(2)]])
  have out: "fst (logout (bearer ?t) ?s) = Inr ()"
    "fst (me (bearer ?t) (snd (logout (bearer ?t) ?s))) = Inl (401, ''invalid token'')"
    by (simp_all add: logout_def me_def b auth_tables hm_remove_def)
  show ?thesis
    using signs_up[OF g _ h, of C now tok] me_signed_up[OF assms(2-4)] out
    by (simp add: logout_then_me_is_401_def tok me_response_def logout_response_def auth_eval split: prod.split)
qed

lemma no_db_passes: "auth_handlers_do_not_panic_without_a_db A C r now"
proof -
  have "bearer_token (bearer ''whatever'') = Some ''whatever''"
    by (rule bearer_of) code_simp+
  moreover have "good_email ''x@example.com''" "db seeded = None" by (simp_all add: seeded_def)
  ultimately show ?thesis
    by (simp add: auth_handlers_do_not_panic_without_a_db_def do_signup_def signup_def do_login_def login_def
        me_response_def me_def logout_response_def logout_def auth_eval)
qed

text \<open>An Argon2 with the shape of its PHC strings; what it stores does not show the password.\<close>

definition phc_argon :: argon where
  "phc_argon = \<lparr>ar_hash = (\<lambda>salt p. Some (''$argon2id$'' @ demo_hex p)),
     ar_verify = (\<lambda>p h. h = ''$argon2id$'' @ demo_hex p)\<rparr>"

lemma argon2_passes: "argon2_hash_is_not_the_plaintext phc_argon salt"
  by (simp add: argon2_hash_is_not_the_plaintext_def phc_argon_def) code_simp

lemma phc_argon_exact: "argon_exact phc_argon"
proof -
  have "demo_hex p = demo_hex p' \<longleftrightarrow> p = p'" for p p'
    by (metis demo_unhex_hex option.inject)
  then show ?thesis by (auto simp: argon_exact_def phc_argon_def)
qed

end
