(* ===== verification/Tests_Admin.thy ===== *)
theory Tests_Admin
  imports Tests_Accounts Server_Admin
begin

section \<open>The server's unit tests: the operator (main.rs, mod tests)\<close>

text \<open>
  The unit tests of the operator's handlers and of the device telemetry as definitions, run on a
  fresh database with a configured token.
\<close>

subsection \<open>Helpers\<close>

definition admin_headers :: "string \<Rightarrow> headers" where
  "admin_headers token = [(''x-admin-token'', token)]"

definition admin_state :: "crypto \<Rightarrow> i64 \<Rightarrow> string option \<Rightarrow> string \<Rightarrow> app_state option" where
  "admin_state C now env tok =
     (case fst (open_state C now env empty_conn) of
        Inl _ \<Rightarrow> None | Inr st \<Rightarrow> Some (st\<lparr>admin_token := Some tok\<rparr>))"

definition list_response :: "headers \<Rightarrow> app_state \<Rightarrow> (nat \<times> json) \<times> app_state" where
  "list_response hs s =
     (let (resp, s) = respond admin_error 200 admin_creatives_resp_json (admin_list_creatives hs s)
      in (read_body resp, s))"

definition create_response :: "crypto \<Rightarrow> headers \<Rightarrow> bytes \<Rightarrow> bytes \<Rightarrow> new_creative_req \<Rightarrow> i64 \<Rightarrow> app_state \<Rightarrow>
    (nat \<times> json) \<times> app_state" where
  "create_response C hs r1 r2 req now s =
     (let (resp, s) = respond admin_error 201 create_creative_resp_json (admin_create_creative C hs r1 r2 req now s)
      in (read_body resp, s))"

definition delete_response :: "headers \<Rightarrow> string \<Rightarrow> app_state \<Rightarrow> (nat \<times> json) \<times> app_state" where
  "delete_response hs cid s =
     (let (resp, s) = respond admin_error 200 (\<lambda>_. ok_resp_json) (admin_delete_creative hs cid s)
      in (read_body resp, s))"

definition devices_response :: "headers \<Rightarrow> app_state \<Rightarrow> (nat \<times> json) \<times> app_state" where
  "devices_response hs s =
     (let (resp, s) = respond admin_error 200 admin_devices_resp_json (admin_list_devices hs s)
      in (read_body resp, s))"

subsection \<open>The token\<close>

definition admin_creatives_503_without_a_configured_token :: "crypto \<Rightarrow> i64 \<Rightarrow> string option \<Rightarrow> bool" where
  "admin_creatives_503_without_a_configured_token C now env \<longleftrightarrow>
     (case fst (open_state C now env empty_conn) of
        Inl _ \<Rightarrow> False
      | Inr inner \<Rightarrow> fst (fst (list_response [] (inner\<lparr>admin_token := None\<rparr>))) = 503)"

definition admin_creatives_401_with_wrong_or_absent_token :: "crypto \<Rightarrow> i64 \<Rightarrow> string option \<Rightarrow> bool" where
  "admin_creatives_401_with_wrong_or_absent_token C now env \<longleftrightarrow>
     (case admin_state C now env ''s3cret'' of
        None \<Rightarrow> False
      | Some s \<Rightarrow>
          (let ((status, _), s) = list_response [] s;
               ((status2, _), s) = list_response (admin_headers ''nope'') s
           in status = 401 \<and> status2 = 401))"

definition admin_devices_requires_the_token :: "crypto \<Rightarrow> i64 \<Rightarrow> string option \<Rightarrow> bool" where
  "admin_devices_requires_the_token C now env \<longleftrightarrow>
     (case admin_state C now env ''s3cret'' of
        None \<Rightarrow> False
      | Some s \<Rightarrow>
          fst (fst (devices_response [] s)) = 401
          \<and> (case fst (open_state C now env empty_conn) of
               Inl _ \<Rightarrow> False
             | Inr inner2 \<Rightarrow>
                 fst (fst (devices_response (admin_headers ''whatever'') (inner2\<lparr>admin_token := None\<rparr>))) = 503))"

subsection \<open>Creatives\<close>

definition acme :: new_creative_req where
  "acme = \<lparr>nc_text = ''Acme '' @ em_dash @ '' buy widgets '' @ arrow, nc_url = ''https://acme.example/widgets'',
     nc_advertiser = Some ''acme''\<rparr>"

definition admin_create_then_list_roundtrips_and_seeds_house_ads ::
    "crypto \<Rightarrow> bytes \<Rightarrow> bytes \<Rightarrow> i64 \<Rightarrow> string option \<Rightarrow> bool" where
  "admin_create_then_list_roundtrips_and_seeds_house_ads C r1 r2 now env \<longleftrightarrow>
     (case admin_state C now env ''s3cret'' of
        None \<Rightarrow> False
      | Some s \<Rightarrow>
          (let hs = admin_headers ''s3cret'';
               ((status, body), s) = list_response hs s;
               ((status2, body2), s) = create_response C hs r1 r2 acme now s;
               ((_, body3), s) = list_response hs s
           in status = 200
              \<and> map_option length (as_array (json_index body ''creatives'')) = Some 3
              \<and> status2 = 201
              \<and> (case as_str (json_index (json_index body2 ''creative'') ''id'') of
                   None \<Rightarrow> False
                 | Some new_id \<Rightarrow>
                     starts_with ''cr_'' new_id \<and> length new_id = 3 + 8
                     \<and> json_index (json_index body2 ''creative'') ''active'' = JBool True
                     \<and> (case as_str (json_index (json_index body2 ''creative'') ''short_code'') of
                          None \<Rightarrow> False | Some sc \<Rightarrow> length sc = 6 \<and> list_all is_alnum sc)
                     \<and> (case as_array (json_index body3 ''creatives'') of
                          None \<Rightarrow> False
                        | Some cs \<Rightarrow>
                            (let ids = map (\<lambda>c. as_str (json_index c ''id'')) cs
                             in length ids = 4 \<and> None \<notin> set ids \<and> Some new_id \<in> set ids))
                     \<and> list_ex (\<lambda>c. sc_id c = new_id) (snd (serve s)))))"

definition temp_ad :: new_creative_req where
  "temp_ad = \<lparr>nc_text = ''Temp ad'', nc_url = ''https://temp.example'', nc_advertiser = None\<rparr>"

definition admin_delete_drops_from_serve_but_stays_listed_inactive ::
    "crypto \<Rightarrow> bytes \<Rightarrow> bytes \<Rightarrow> i64 \<Rightarrow> string option \<Rightarrow> bool" where
  "admin_delete_drops_from_serve_but_stays_listed_inactive C r1 r2 now env \<longleftrightarrow>
     (case admin_state C now env ''s3cret'' of
        None \<Rightarrow> False
      | Some s \<Rightarrow>
          (let hs = admin_headers ''s3cret'';
               ((_, body), s1) = create_response C hs r1 r2 temp_ad now s
           in (case as_str (json_index (json_index body ''creative'') ''id'') of
                 None \<Rightarrow> False
               | Some cid \<Rightarrow>
                   (let ((status2, body2), s2) = delete_response hs cid s1;
                        ((_, body3), s3) = list_response hs s2;
                        ((status4, _), s4) = delete_response hs ''cr_doesnotexist'' s3
                    in list_ex (\<lambda>c. sc_id c = cid) (snd (serve s1))
                       \<and> status2 = 200 \<and> json_index body2 ''ok'' = JBool True
                       \<and> \<not> list_ex (\<lambda>c. sc_id c = cid) (snd (serve s2))
                       \<and> (case as_array (json_index body3 ''creatives'') of
                            None \<Rightarrow> False
                          | Some cs \<Rightarrow>
                              (case find (\<lambda>c. json_index c ''id'' = JString cid) cs of
                                 None \<Rightarrow> False | Some row \<Rightarrow> json_index row ''active'' = JBool False))
                       \<and> status4 = 404))))"

subsection \<open>Telemetry\<close>

definition as_i64 :: "json \<Rightarrow> i64 option" where
  "as_i64 j = (case j of
      JNumber (PosInt w) \<Rightarrow> if 0 \<le> sint w then Some w else None
    | JNumber (NegInt w) \<Rightarrow> Some w
    | _ \<Rightarrow> None)"

definition telemetry_req :: "string \<Rightarrow> string \<Rightarrow> register_req" where
  "telemetry_req device pubkey = \<lparr>rq_device_id = device, rq_pubkey = pubkey, rq_os = Some ''linux'',
     rq_arch = Some ''x86_64'', rq_hostname = Some ''dev-box'', rq_version = Some ''0.1.0'',
     rq_email = Some ''dev@example.com''\<rparr>"

definition register_with_os_email_upserts_device_meta_and_admin_devices_shows_it ::
    "crypto \<Rightarrow> string \<Rightarrow> device_key \<Rightarrow> i64 \<Rightarrow> i64 \<Rightarrow> string option \<Rightarrow> bool" where
  "register_with_os_email_upserts_device_meta_and_admin_devices_shows_it C i key now now2 env \<longleftrightarrow>
     (case admin_state C now env ''s3cret'' of
        None \<Rightarrow> False
      | Some s \<Rightarrow>
          (let device = device_id C key;
               pubkey_hex = hex_encode C (verifying_key C key);
               hs = [(''x-forwarded-for'', ''203.0.113.7, 10.0.0.1'')];
               (resp, s) = register C test_peer hs (telemetry_req device pubkey_hex) now s;
               (ing, s) = ingest C device [signed_imp C i key 0 GENESIS_PREV 4] s;
               ((status, body), s) = devices_response (admin_headers ''s3cret'') s;
               (resp2, s) = do_register C now2 s (bare_register_req device pubkey_hex);
               ((_, body2), s) = devices_response (admin_headers ''s3cret'') s
           in fst resp = 200 \<and> ir_accepted ing = 1 \<and> status = 200
              \<and> (case as_array (json_index body ''devices'') of
                   Some [d] \<Rightarrow>
                     json_index d ''device_id'' = JString device
                     \<and> json_index d ''email'' = JString ''dev@example.com''
                     \<and> json_index d ''os'' = JString ''linux'' \<and> json_index d ''arch'' = JString ''x86_64''
                     \<and> json_index d ''hostname'' = JString ''dev-box'' \<and> json_index d ''version'' = JString ''0.1.0''
                     \<and> json_index d ''ip'' = JString ''203.0.113.7''
                     \<and> json_index d ''impressions'' = JNumber (PosInt 4)
                     \<and> fst resp2 = 200
                     \<and> (case (as_i64 (json_index d ''first_seen''), as_array (json_index body2 ''devices'')) of
                          (Some first_seen_before, Some (d2 # _)) \<Rightarrow>
                            json_index d2 ''email'' = JString ''dev@example.com''
                            \<and> as_i64 (json_index d2 ''first_seen'') = Some first_seen_before
                        | _ \<Rightarrow> False)
                 | _ \<Rightarrow> False)))"

subsection \<open>What the handlers answer\<close>

definition listed :: "conn \<Rightarrow> json list" where
  "listed c = map (\<lambda>(_, cr, active, _). admin_creative_json (to_admin active cr))
     (sort_key (\<lambda>(_, _, _, created). sint created) (sort_key fst (t_creatives c)))"

lemma listed_set:
  "set (listed c) = (\<lambda>(_, cr, active, _). admin_creative_json (to_admin active cr)) ` set (t_creatives c)"
  "length (listed c) = length (t_creatives c)"
  by (simp_all add: listed_def)

lemma admin_opened:
  "admin_state C now env tok = Some (fresh_state now (Some tok))"
  using opened[of C now env] by (auto simp: admin_state_def fresh_state_def)

lemma token_header: "list_all is_alnum tok \<Longrightarrow> header_str (admin_headers tok) ''x-admin-token'' = Some tok"
proof -
  assume "list_all is_alnum tok"
  then have "list_all (\<lambda>c. byte_val c = 9 \<or> (32 \<le> byte_val c \<and> byte_val c < 127)) tok"
    by (rule list.pred_mono_strong) (auto dest!: alnum_range)
  then show ?thesis by (simp add: header_str_def admin_headers_def)
qed

lemma checked [simp]:
  "check_admin s (admin_headers ''s3cret'') = (case admin_token s of
     None \<Rightarrow> Inl (503, ''admin token not configured'')
   | Some t \<Rightarrow> if t = ''s3cret'' then Inr () else Inl (401, ''invalid admin token''))"
proof -
  have "header_str (admin_headers ''s3cret'') ''x-admin-token'' = Some ''s3cret''"
    by (rule token_header) code_simp
  then show ?thesis by (auto simp: check_admin_def Let_def split: option.split)
qed

lemma refused:
  "check_admin (fresh_state now (Some ''s3cret'')) [] = Inl (401, ''invalid admin token'')"
  "check_admin (fresh_state now (Some ''s3cret'')) (admin_headers ''nope'') = Inl (401, ''invalid admin token'')"
proof -
  have "header_str (admin_headers ''nope'') ''x-admin-token'' = Some ''nope''"
    by (rule token_header) code_simp
  then show "check_admin (fresh_state now (Some ''s3cret'')) [] = Inl (401, ''invalid admin token'')"
    "check_admin (fresh_state now (Some ''s3cret'')) (admin_headers ''nope'') = Inl (401, ''invalid admin token'')"
    by (simp_all add: check_admin_def fresh_state_def header_str_def)
qed

lemma not_configured: "check_admin (s\<lparr>admin_token := None\<rparr>) hs = Inl (503, ''admin token not configured'')"
  by (simp add: check_admin_def)

lemmas admin_eval = list_response_def create_response_def delete_response_def devices_response_def
  respond_def read_body_def admin_error_def Let_def

lemma no_token_passes: "admin_creatives_503_without_a_configured_token C now env"
proof -
  obtain tok where "fst (open_state C now env empty_conn) = Inr (fresh_state now tok)"
    using opened[of C now env] by blast
  then show ?thesis
    by (simp add: admin_creatives_503_without_a_configured_token_def admin_eval admin_list_creatives_def not_configured)
qed

lemma wrong_token_passes: "admin_creatives_401_with_wrong_or_absent_token C now env"
proof -
  have "admin_state C now env ''s3cret'' = Some (fresh_state now (Some ''s3cret''))" by (rule admin_opened)
  then show ?thesis
    by (simp add: admin_creatives_401_with_wrong_or_absent_token_def admin_eval admin_list_creatives_def refused)
qed

lemma devices_token_passes: "admin_devices_requires_the_token C now env"
proof -
  have "admin_state C now env ''s3cret'' = Some (fresh_state now (Some ''s3cret''))" by (rule admin_opened)
  moreover obtain tok where "fst (open_state C now env empty_conn) = Inr (fresh_state now tok)"
    using opened[of C now env] by blast
  ultimately show ?thesis
    by (simp add: admin_devices_requires_the_token_def admin_eval admin_list_devices_def refused not_configured)
qed

subsection \<open>A state with the operator's token\<close>

definition operated :: "app_state \<Rightarrow> conn \<Rightarrow> bool" where
  "operated s c \<longleftrightarrow> admin_token s = Some ''s3cret'' \<and> db s = Some c \<and> healthy c"

lemma operated_check: "operated s c \<Longrightarrow> check_admin s (admin_headers ''s3cret'') = Inr ()"
  by (simp add: operated_def)

lemma list_operated:
  assumes "operated s c"
  shows "list_response (admin_headers ''s3cret'') s
    = ((200, JObject [(''creatives'', JArray (listed c))]), s)"
proof -
  have "db s = Some c" "healthy c" using assms by (simp_all add: operated_def)
  then have "s\<lparr>db := Some c\<rparr> = s" by simp
  with \<open>db s = Some c\<close> \<open>healthy c\<close> show ?thesis
    by (simp add: admin_eval admin_list_creatives_def operated_check[OF assms] load_creatives_def
        admin_creatives_resp_json_def listed_def comp_def case_prod_unfold del: checked)
qed

lemma index_list [simp]: "json_index (JObject [(k, v)]) k = v"
  by (simp add: json_index_def hm_get_def)

lemma index_creative [simp]:
  "json_index (admin_creative_json a) ''id'' = JString (adc_id a)"
  "json_index (admin_creative_json a) ''short_code'' = JString (adc_short_code a)"
  "json_index (admin_creative_json a) ''active'' = JBool (adc_active a)"
  "json_index (create_creative_resp_json a) ''creative'' = admin_creative_json a"
  by (simp_all add: json_index_def admin_creative_json_def create_creative_resp_json_def hm_get_def)

definition new_ad :: "crypto \<Rightarrow> bytes \<Rightarrow> bytes \<Rightarrow> new_creative_req \<Rightarrow> creative" where
  "new_ad C r1 r2 req = \<lparr>cr_id = new_creative_id C r1, cr_text = trim (nc_text req), cr_url = trim (nc_url req),
     cr_short_code = new_short_code r2, cr_advertiser = advertiser_of (nc_advertiser req), cr_campaign_name = []\<rparr>"

lemma create_operated:
  assumes "operated s c" "trim (nc_text req) \<noteq> []" "trim (nc_url req) \<noteq> []"
    and "hm_get (t_creatives c) (new_creative_id C r1) = None"
  obtains s' where "create_response C (admin_headers ''s3cret'') r1 r2 req now s
      = ((201, create_creative_resp_json (to_admin True (new_ad C r1 r2 req))), s')"
    "operated s' (c\<lparr>t_creatives := t_creatives c @ [(new_creative_id C r1, new_ad C r1 r2 req, True, now)]\<rparr>)"
    "creatives s' = creatives s @ [new_ad C r1 r2 req]"
proof -
  have c: "db s = Some c" "healthy c" "admin_token s = Some ''s3cret''" using assms(1) by (simp_all add: operated_def)
  have "insert_creative (new_ad C r1 r2 req) True now c
      = c\<lparr>t_creatives := t_creatives c @ [(new_creative_id C r1, new_ad C r1 r2 req, True, now)]\<rparr>"
    using insert_creative_fresh[OF c(2), of "new_ad C r1 r2 req" True now] assms(4)
    by (simp add: new_ad_def hm_insert_fresh)
  then show ?thesis
    using assms(2,3) c
    by (intro that[of "snd (create_response C (admin_headers ''s3cret'') r1 r2 req now s)"])
      (simp_all add: admin_eval admin_create_creative_def operated_check[OF assms(1)] new_ad_def[symmetric]
        with_db_def operated_def del: checked)
qed

lemma fresh_operated: "operated (fresh_state now (Some ''s3cret'')) (fresh_conn now)"
  by (simp add: operated_def fresh_state_def)

lemma creative_id_fresh:
  assumes "hex_length_ok C" "length r1 = 4"
  shows "length (new_creative_id C r1) = 11" "hm_get (t_creatives (fresh_conn now)) (new_creative_id C r1) = None"
proof -
  show l: "length (new_creative_id C r1) = 11"
    using assms by (simp add: new_creative_id_def hex_length_ok_def)
  have "list_all (\<lambda>x. length (fst x) = 10) (t_creatives (fresh_conn now))"
    by (simp add: fresh_conn_def house_creatives_def)
  with l show "hm_get (t_creatives (fresh_conn now)) (new_creative_id C r1) = None"
    by (force simp: hm_get_def map_of_eq_None_iff list_all_iff)
qed

lemma short_code_alnum:
  assumes "length r2 = 6"
  shows "length (new_short_code r2) = 6" "list_all is_alnum (new_short_code r2)"
proof -
  show "length (new_short_code r2) = 6" using assms by (simp add: new_short_code_def)
  have "list_all is_alnum ALPHABET" "length ALPHABET = 62" by code_simp+
  then have "is_alnum (ALPHABET ! (k mod 62))" for k by (simp add: list_all_length)
  with \<open>length ALPHABET = 62\<close> show "list_all is_alnum (new_short_code r2)"
    by (simp add: new_short_code_def list_all_iff)
qed

lemma new_ad_fields [simp]:
  "cr_id (new_ad C r1 r2 req) = new_creative_id C r1" "cr_short_code (new_ad C r1 r2 req) = new_short_code r2"
  "adc_id (to_admin a cr) = cr_id cr" "adc_short_code (to_admin a cr) = cr_short_code cr"
  "adc_active (to_admin a cr) = a"
  by (simp_all add: new_ad_def to_admin_def)

lemma listed_index: "as_str (json_index c ''id'') \<noteq> None" if "c \<in> set (listed c')"
  using that by (auto simp: listed_set)

lemma create_then_list_passes:
  assumes "hex_length_ok C" "length r1 = 4" "length r2 = 6"
  shows "admin_create_then_list_roundtrips_and_seeds_house_ads C r1 r2 now env"
proof -
  let ?s = "fresh_state now (Some ''s3cret'')" and ?c = "fresh_conn now" and ?hs = "admin_headers ''s3cret''"
  let ?c' = "?c\<lparr>t_creatives := t_creatives ?c @ [(new_creative_id C r1, new_ad C r1 r2 acme, True, now)]\<rparr>"
  have trims: "trim (nc_text acme) \<noteq> []" "trim (nc_url acme) \<noteq> []" by code_simp+
  obtain s' where s': "create_response C ?hs r1 r2 acme now ?s
      = ((201, create_creative_resp_json (to_admin True (new_ad C r1 r2 acme))), s')"
    "operated s' ?c'" "creatives s' = creatives ?s @ [new_ad C r1 r2 acme]"
    by (rule create_operated[OF fresh_operated trims creative_id_fresh(2)[OF assms(1,2)]])
  have n: "length (listed ?c) = 3" "length (listed ?c') = 4"
    by (simp_all add: listed_set fresh_conn_def house_creatives_def)
  have "admin_creative_json (to_admin True (new_ad C r1 r2 acme)) \<in> set (listed ?c')"
    by (force simp: listed_set)
  then have i: "Some (new_creative_id C r1) \<in> (\<lambda>c. as_str (json_index c ''id'')) ` set (listed ?c')"
    by (force intro: rev_image_eqI)
  have "None \<notin> (\<lambda>c. as_str (json_index c ''id'')) ` set (listed ?c')"
    using listed_index by fastforce
  moreover have "list_ex (\<lambda>c. sc_id c = new_creative_id C r1) (snd (serve s'))"
    by (simp add: serve_def Let_def s'(3) to_serve_def)
  moreover have "starts_with ''cr_'' (new_creative_id C r1)" by (simp add: new_creative_id_def starts_with_def)
  ultimately show ?thesis
    using n i short_code_alnum[OF assms(3)] creative_id_fresh(1)[OF assms(1,2)]
    by (simp add: admin_create_then_list_roundtrips_and_seeds_house_ads_def admin_opened
        list_operated[OF fresh_operated] s'(1) list_operated[OF s'(2)])
qed

lemma serves_only:
  "\<not> list_ex (\<lambda>c. sc_id c = cid) (snd (serve s)) \<longleftrightarrow> cid \<notin> cr_id ` set (creatives s)"
  by (auto simp: serve_def Let_def list_ex_iff to_serve_def)

lemma hm_insert_last: "hm_get m k = None \<Longrightarrow> hm_insert k w (m @ [(k, v)]) = m @ [(k, w)]"
  unfolding hm_get_def hm_insert_def by (induction m) (auto split: if_splits)

lemma hm_get_last: "hm_get m k = None \<Longrightarrow> hm_get (m @ [(k, v)]) k = Some v"
  by (simp add: hm_get_def map_add_def)

lemma delete_drops_passes:
  assumes "hex_length_ok C" "length r1 = 4" "length r2 = 6"
  shows "admin_delete_drops_from_serve_but_stays_listed_inactive C r1 r2 now env"
proof -
  let ?s = "fresh_state now (Some ''s3cret'')" and ?c = "fresh_conn now" and ?hs = "admin_headers ''s3cret''"
  let ?i = "new_creative_id C r1" and ?ad = "new_ad C r1 r2 temp_ad"
  let ?m = "t_creatives ?c"
  let ?c1 = "?c\<lparr>t_creatives := ?m @ [(?i, ?ad, True, now)]\<rparr>"
  let ?c2 = "?c\<lparr>t_creatives := ?m @ [(?i, ?ad, False, now)]\<rparr>"
  note f = creative_id_fresh[OF assms(1,2)]
  have trims: "trim (nc_text temp_ad) \<noteq> []" "trim (nc_url temp_ad) \<noteq> []" by code_simp+
  obtain s1 where s1: "create_response C ?hs r1 r2 temp_ad now ?s
      = ((201, create_creative_resp_json (to_admin True ?ad)), s1)"
    "operated s1 ?c1" "creatives s1 = creatives ?s @ [?ad]"
    by (rule create_operated[OF fresh_operated trims f(2)])
  define s2 where "s2 = s1\<lparr>db := Some ?c2, creatives := filter (\<lambda>c. cr_id c \<noteq> ?i) (creatives s1)\<rparr>"
  have del: "delete_response ?hs ?i s1 = ((200, ok_resp_json), s2)"
    using s1(2) delete_creative_healthy[of ?c1 ?i] f(2)
    by (simp add: admin_eval admin_delete_creative_def operated_check[OF s1(2)] operated_def s2_def
        hm_get_last hm_insert_last del: checked)
  have op2: "operated s2 ?c2" using s1(2) by (simp add: operated_def s2_def)
  have ne: "?i \<noteq> ''cr_doesnotexist''" using f(1) by auto
  have unknown: "hm_get ?m ''cr_doesnotexist'' = None"
    by (simp add: fresh_conn_def house_creatives_def hm_get_def)
  then have "hm_get (t_creatives ?c2) ''cr_doesnotexist'' = None"
    using ne by (simp add: hm_get_def)
  then obtain b s4 where del2: "delete_response ?hs ''cr_doesnotexist'' s2 = ((404, b), s4)"
    using op2 delete_creative_healthy[of ?c2 "''cr_doesnotexist''"]
    by (simp add: admin_eval admin_delete_creative_def operated_check[OF op2] operated_def del: checked)
  have inactive: "json_index row ''active'' = JBool False" if "row \<in> set (listed ?c2)" "json_index row ''id'' = JString ?i" for row
  proof -
    have "length (cr_id cr) = 10" if "(k, cr, a, x) \<in> set ?m" for k cr a x
      using that by (auto simp: fresh_conn_def house_creatives_def)
    then have "cr_id cr \<noteq> ?i" if "(k, cr, a, x) \<in> set ?m" for k cr a x
      using that f(1) by fastforce
    with that show ?thesis by (auto simp: listed_set)
  qed
  have "admin_creative_json (to_admin False ?ad) \<in> set (listed ?c2)"
    by (force simp: listed_set)
  then obtain row where row: "find (\<lambda>c. json_index c ''id'' = JString ?i) (listed ?c2) = Some row"
    by (cases "find (\<lambda>c. json_index c ''id'' = JString ?i) (listed ?c2)") (auto simp: find_None_iff)
  then have "json_index row ''active'' = JBool False"
    by (intro inactive) (auto simp: find_Some_iff)
  moreover have "list_ex (\<lambda>c. sc_id c = ?i) (snd (serve s1))"
    by (simp add: serve_def Let_def s1(3) to_serve_def)
  moreover have "\<not> list_ex (\<lambda>c. sc_id c = ?i) (snd (serve s2))"
    unfolding serves_only by (auto simp: s2_def)
  ultimately show ?thesis
    using row del2
    by (simp add: admin_delete_drops_from_serve_but_stays_listed_inactive_def admin_opened s1(1) del
        list_operated[OF op2])
qed

subsection \<open>Telemetry\<close>

text \<open>Ingesting leaves the telemetry table alone.\<close>

definition meta_kept :: "app_state \<Rightarrow> app_state \<Rightarrow> bool" where
  "meta_kept s s' \<longleftrightarrow> admin_token s' = admin_token s \<and> (case db s of
      None \<Rightarrow> db s' = None
    | Some c \<Rightarrow> \<exists>c'. db s' = Some c' \<and> healthy c' \<and> t_device_meta c' = t_device_meta c)"

lemma accept_meta:
  assumes "db s = Some c" "healthy c"
  shows "meta_kept s (snd (accept_event C d se s))"
  using assms
  by (auto simp: meta_kept_def accept_event_def accrue_def with_db_def tables fold_insert_ledger Let_def
      split: option.split prod.split)

lemma ingest_one_meta:
  assumes "db s = Some c" "healthy c"
  shows "meta_kept s (snd (ingest_one C d se (r, s)))"
proof -
  obtain res s1 where a: "accept_event C d se s = (res, s1)" by force
  then have "meta_kept s s1" using accept_meta[OF assms, of C d se] by simp
  with assms a show ?thesis
    by (auto simp: meta_kept_def ingest_one_def with_db_def tables Let_def split: sum.split)
qed

lemma devices_operated:
  assumes "operated s c" "t_device_meta c = [(d, row)]"
  shows "devices_response (admin_headers ''s3cret'') s = ((200, JObject [(''devices'', JArray
    [admin_device_json \<lparr>add_device_id = dm_device_id row, add_email = or_default (dm_email row),
       add_ip = or_default (dm_ip row), add_os = or_default (dm_os row), add_arch = or_default (dm_arch row),
       add_hostname = or_default (dm_hostname row), add_version = or_default (dm_version row),
       add_impressions = hm_get_or 0 (impressions s) (account_of (dm_device_id row)),
       add_first_seen = dm_first_seen row, add_last_seen = dm_last_seen row\<rparr>])]), s)"
proof -
  have "db s = Some c" "healthy c" using assms by (simp_all add: operated_def)
  then have "s\<lparr>db := Some c\<rparr> = s" by simp
  with \<open>db s = Some c\<close> \<open>healthy c\<close> show ?thesis
    using assms(2)
    by (simp add: admin_eval admin_list_devices_def operated_check[OF assms(1)] list_device_meta_def
        admin_devices_resp_json_def del: checked)
qed

lemma index_device [simp]:
  "json_index (admin_device_json a) ''device_id'' = JString (add_device_id a)"
  "json_index (admin_device_json a) ''email'' = JString (add_email a)"
  "json_index (admin_device_json a) ''ip'' = JString (add_ip a)"
  "json_index (admin_device_json a) ''os'' = JString (add_os a)"
  "json_index (admin_device_json a) ''arch'' = JString (add_arch a)"
  "json_index (admin_device_json a) ''hostname'' = JString (add_hostname a)"
  "json_index (admin_device_json a) ''version'' = JString (add_version a)"
  "json_index (admin_device_json a) ''impressions'' = JNumber (PosInt (add_impressions a))"
  "json_index (admin_device_json a) ''first_seen'' = json_i64 (add_first_seen a)"
  by (simp_all add: json_index_def admin_device_json_def hm_get_def json_u64_def)

lemma as_i64_json [simp]: "as_i64 (json_i64 w) = Some w"
  by (simp add: as_i64_def json_i64_def)

lemma telemetry_trims:
  "opt_str (Some ''linux'') = Some ''linux''" "opt_str (Some ''x86_64'') = Some ''x86_64''"
  "opt_str (Some ''dev-box'') = Some ''dev-box''" "opt_str (Some ''0.1.0'') = Some ''0.1.0''"
  "opt_str (Some ''dev@example.com'') = Some ''dev@example.com''"
  by code_simp+

lemma first_hop: "client_ip [(''x-forwarded-for'', ''203.0.113.7, 10.0.0.1'')] test_peer = ''203.0.113.7''"
  by code_simp

lemma opt_none [simp]: "opt_str None = None"
  by (simp add: opt_str_def)

text \<open>A registration on a state with the token, and the row it leaves.\<close>

lemma register_operated:
  assumes "hex_ok C" "ed25519_ok C" "operated s c" "rq_pubkey req = hex_encode C (verifying_key C key)"
    and "row = \<lparr>dm_device_id = rq_device_id req, dm_ip = Some (client_ip hs peer), dm_os = opt_str (rq_os req),
      dm_arch = opt_str (rq_arch req), dm_hostname = opt_str (rq_hostname req),
      dm_version = opt_str (rq_version req), dm_email = opt_str (rq_email req),
      dm_first_seen = now, dm_last_seen = now\<rparr>"
  obtains s' c' where "register C peer hs req now s = ((200, \<lparr>rr_ok = True, rr_account_id = account_of (rq_device_id req)\<rparr>), s')"
    "operated s' c'" "t_device_meta c' = t_device_meta (upsert_device_meta row c)"
    "devices s' = hm_insert (rq_device_id req) \<lparr>dv_pubkey = verifying_key C key,
       dv_account_id = account_of (rq_device_id req), dv_chain_head = GENESIS_PREV, dv_ctr_head = None\<rparr> (devices s)"
    "seen_event_ids s' = seen_event_ids s" "impressions s' = hm_or_insert (account_of (rq_device_id req)) 0 (impressions s)"
proof -
  have c: "db s = Some c" "healthy c" "admin_token s = Some ''s3cret''" using assms(3) by (simp_all add: operated_def)
  let ?c0 = "ensure_impressions (account_of (rq_device_id req)) (ensure_balance (account_of (rq_device_id req))
    (upsert_device C (rq_device_id req) \<lparr>dv_pubkey = verifying_key C key,
       dv_account_id = account_of (rq_device_id req), dv_chain_head = GENESIS_PREV, dv_ctr_head = None\<rparr> c))"
  have h: "healthy ?c0" "t_device_meta ?c0 = t_device_meta c" using c(2) by (simp_all add: tables)
  have u: "healthy (upsert_device_meta row ?c0)"
    "t_device_meta (upsert_device_meta row ?c0) = t_device_meta (upsert_device_meta row c)"
    using h c(2) by (auto simp: upsert_device_meta_def log_err_def split: option.split)
  have d: "decode_pubkey C (rq_pubkey req) = Some (verifying_key C key)"
    unfolding assms(4) by (rule verifying_key_decodes[OF assms(1,2)])
  show ?thesis
    by (rule that[of "snd (register C peer hs req now s)" "upsert_device_meta row ?c0"])
      (use c u d in \<open>simp_all add: register_def Let_def with_db_def operated_def assms(5)\<close>)
qed

lemma upsert_meta_table:
  assumes "healthy c"
  shows "t_device_meta (upsert_device_meta row c) = (case hm_get (t_device_meta c) (dm_device_id row) of
      None \<Rightarrow> hm_insert (dm_device_id row) row (t_device_meta c)
    | Some old \<Rightarrow> hm_insert (dm_device_id row)
        (row\<lparr>dm_ip := coalesce (dm_ip row) (dm_ip old), dm_os := coalesce (dm_os row) (dm_os old),
             dm_arch := coalesce (dm_arch row) (dm_arch old), dm_hostname := coalesce (dm_hostname row) (dm_hostname old),
             dm_version := coalesce (dm_version row) (dm_version old), dm_email := coalesce (dm_email row) (dm_email old),
             dm_first_seen := dm_first_seen old\<rparr>) (t_device_meta c))"
  using assms by (simp add: upsert_device_meta_def log_err_def)

lemma telemetry_passes:
  assumes laws: "hex_ok C" "ed25519_ok C"
  shows "register_with_os_email_upserts_device_meta_and_admin_devices_shows_it C i key now now2 env"
proof -
  let ?d = "device_id C key" and ?acct = "''acct:'' @ device_id C key" and ?hx = "hex_encode C (verifying_key C key)"
  let ?hs = "[(''x-forwarded-for'', ''203.0.113.7, 10.0.0.1'')]" and ?s = "fresh_state now (Some ''s3cret'')"
  define row where "row = \<lparr>dm_device_id = ?d, dm_ip = Some ''203.0.113.7'', dm_os = Some ''linux'',
      dm_arch = Some ''x86_64'', dm_hostname = Some ''dev-box'', dm_version = Some ''0.1.0'',
      dm_email = Some ''dev@example.com'', dm_first_seen = now, dm_last_seen = now\<rparr>"
  have e: "t_device_meta (fresh_conn now) = []" "devices ?s = []" "seen_event_ids ?s = {}" "impressions ?s = []"
    by (simp_all add: fresh_conn_def fresh_state_def seeded_def) (simp add: empty_conn_def)
  obtain s1 c1 where s1: "register C test_peer ?hs (telemetry_req ?d ?hx) now ?s
      = ((200, \<lparr>rr_ok = True, rr_account_id = account_of ?d\<rparr>), s1)"
    "operated s1 c1" "t_device_meta c1 = [(?d, row)]" "only_device C key GENESIS_PREV None s1"
    "seen_event_ids s1 = {}" "impressions s1 = [(?acct, 0)]"
    by (rule register_operated[OF laws fresh_operated[of now], of "telemetry_req ?d ?hx" key row ?hs test_peer now])
      (simp_all add: telemetry_req_def row_def first_hop telemetry_trims upsert_meta_table e only_device_def
        account_of_def hm_or_insert_def)
  obtain s2 where s2: "accept_event C ?d (signed_imp C i key 0 GENESIS_PREV 4) s1 = (Inr (), s2)"
    "impressions s2 = [(?acct, 4)]"
    by (rule own_event_accepted[OF laws s1(4), of i 0 4 ?acct]) (simp_all add: s1)
  obtain s3 where s3: "ingest C ?d [signed_imp C i key 0 GENESIS_PREV 4] s1
      = (\<lparr>ir_accepted = 1, ir_rejected = 0, ir_reasons = []\<rparr>, s3)" "impressions s3 = [(?acct, 4)]"
    using ingest_single[OF s2(1)] s2(2) by metis
  have "meta_kept s1 s3"
    using ingest_one_meta[of s1 c1 C ?d "signed_imp C i key 0 GENESIS_PREV 4"] s1(2) s3(1)
    by (simp add: ingest_def operated_def) (metis snd_conv)
  then obtain c3 where c3: "operated s3 c3" "t_device_meta c3 = [(?d, row)]"
    using s1(2,3) by (auto simp: meta_kept_def operated_def)
  then have h3: "healthy c3" by (simp add: operated_def)
  note list1 = devices_operated[OF c3]
  define row2 where "row2 = row\<lparr>dm_ip := Some (client_ip [] test_peer), dm_last_seen := now2\<rparr>"
  obtain s4 c4 where s4: "do_register C now2 s3 (bare_register_req ?d ?hx)
      = ((200, \<lparr>rr_ok = True, rr_account_id = account_of ?d\<rparr>), s4)" "operated s4 c4" "t_device_meta c4 = [(?d, row2)]"
    unfolding do_register_def
    by (rule register_operated[OF laws c3(1) _ refl, of "bare_register_req ?d ?hx" key test_peer "[]" now2])
      (use c3(2) h3 in \<open>simp_all add: bare_register_req_def upsert_meta_table coalesce_def row_def row2_def\<close>)
  note list2 = devices_operated[OF s4(2,3)]
  show ?thesis
    using s3(2)
    by (simp add: register_with_os_email_upserts_device_meta_and_admin_devices_shows_it_def admin_opened s1(1) s3(1)
        list1 s4(1) list2 row_def row2_def or_default_def account_of_def)
qed

end
