(* ===== verification/Spec2Isabelle.thy ===== *)
theory Spec2Isabelle
  imports Reader_Loops System Account_Book Http_Accounts Startup Server_Main Tests_Cli Tests_Daemon Tests_Admin
begin

text \<open>
  A verification development for spnr, a network that shows sponsored texts in the spinner of a
  coding host and pays the developer for attested impressions. The model is a shallow embedding of
  the Rust code: the crates under \<^verbatim>\<open>crates/\<close> and the server \<^verbatim>\<open>server/spnr-server\<close>. This theory only
  gathers the others.

  \<^bold>\<open>The program.\<close> \<^verbatim>\<open>spnr install\<close> (spnr-cli) snapshots the host's settings file and wires
  \<^verbatim>\<open>spnr-hook\<close> into it. The host runs \<^verbatim>\<open>spnr-hook\<close> at each prompt and stop and \<^verbatim>\<open>spnr-status\<close> about
  once a second; both skim the session id from JSON on their input and send one datagram
  (spnr-proto, socket.rs) to the daemon \<^verbatim>\<open>spnrd\<close>. The daemon's engine turns the hooks and heartbeats
  of a session into impressions; each becomes an event that continues the device's hash chain, is
  signed, appended to a queue file and sent to the server. The server checks it against the device's
  chain head and writes double-entry rows through to SQLite; the account can be redeemed. At its
  start the daemon fetches the pool of texts from the server and injects it into the settings.

  \<^bold>\<open>Theories and code.\<close>
  \<^item> \<open>Prelude\<close>, \<open>Rust_Str\<close>, \<open>Json_Value\<close>: bytes, association-list maps with their contract as the
    locale \<open>map_adt\<close>, the string functions of the standard library, JSON trees.
  \<^item> \<open>Wire\<close>: the datagram codec (socket.rs). \<open>Frame_Queue\<close>: the queue file (queue.rs) and the reader
    of the command line, with write faults. \<open>Engine\<close>: the impression engine (engine.rs).
  \<^item> \<open>Sap_Event\<close>: events, their JSON, the chain, the device key (event.rs, canonical.rs, chain.rs,
    key.rs). \<open>Key_Scan\<close>, \<open>Skimmer\<close>: the JSON skimmers of spnr-hook and spnr-status. \<open>Timing_Meta\<close>:
    the timing reader of spnr-meta.
    \<open>Reader_Loops\<close>: each of these readers once more, as the index loop it is written as.
  \<^item> \<open>Daemon\<close>: the dispatch, the emission, the status line and the network shell of spnrd's main.rs.
    \<open>Startup\<close>: its \<^verbatim>\<open>main\<close>, and where the four binaries look for socket, settings and cache.
    \<open>Hot_Path\<close>: the \<^verbatim>\<open>main\<close> of spnr-hook and of spnr-status, and a turn from the host's standard input
    to the event.
  \<^item> \<open>Store\<close>: every statement of db.rs on tables whose statements can fail. \<open>Server\<close>: the state and
    the money handlers of the server's main.rs. \<open>Server_Admin\<close>, \<open>Server_Auth\<close>: operator handlers,
    accounts and sessions. \<open>Server_Books\<close>, \<open>Server_Durability\<close>: their invariants in memory and on disk.
  \<^item> \<open>Serde\<close>: what the derived deserialisers accept. \<open>Usd\<close>: the dollar amounts and the percentages of
    the server's pages. \<open>Server_Http\<close>: the routes, the response bodies, the statistics, the dashboard,
    and the server as one function \<open>app\<close> of a request; \<open>Http_Laws\<close>: its confinement;
    \<open>Http_Accounts\<close>: who changes accounts and sessions. \<open>Utf8_Laws\<close>,
    \<open>Json_Text\<close>, \<open>Json_Read_Demo\<close>: JSON as bytes, a printer and a reader for the witnesses;
    \<open>Json_Pretty\<close>: the indented text of the settings; \<open>Http_Wire\<close>: the requests of the daemon, byte for
    byte, before \<open>app\<close>. \<open>Server_Main\<close>: the server's \<^verbatim>\<open>main\<close>, its configuration and the opening of its database.
  \<^item> \<open>Server_Runs\<close>: the step relation \<open>server_step\<close>, one rule per handler and one for a restart, and the
    states reachable in \<open>n\<close> steps. \<open>Account_Book\<close>: the abstract specification of the server and the
    simulation. \<open>End_To_End\<close>: a daemon and a server joined by the protocol; \<open>Network\<close>: the same with a
    hostile network between them; \<open>System\<close>: daemons, \<open>app\<close>, other clients and restarts in any interleaving.
  \<^item> \<open>Settings\<close>, \<open>Settings_Laws\<close>, \<open>Settings_Hooks\<close>: spnr-settings on a disk with faults, and
    spnr-adapters. \<open>Json_Demo\<close>: an instance of the JSON library for the witnesses. \<open>Cli\<close>,
    \<open>Cli_Laws\<close>: the commands of spnr-cli.
  \<^item> \<open>Tests_Engine\<close>, \<open>Tests_Readers\<close>, \<open>Tests_Daemon\<close>, \<open>Tests_Server\<close>, \<open>Tests_Accounts\<close>, \<open>Tests_Admin\<close>,
    \<open>Tests_Settings\<close>, \<open>Tests_Cli\<close>: the unit tests of the crates, run on the model.

  \<^bold>\<open>Conventions.\<close> A struct is a record, an enum a datatype, \<^verbatim>\<open>u64\<close>, \<^verbatim>\<open>i64\<close>, \<^verbatim>\<open>u32\<close> are words with
  their wrap-around, a \<^verbatim>\<open>HashMap\<close> or a table is an association list (where the iteration order of a
  \<^verbatim>\<open>HashMap\<close> matters it is an argument), a \<^verbatim>\<open>String\<close> the list of its UTF-8 bytes. A handler is a
  function from the request and the state to the response and the state; an error is a value of a
  sum type. Time, random bytes, environment variables and which system calls fail are arguments.
  Code outside the repository is a parameter with stated laws: the record \<open>crypto\<close> (Ed25519, BLAKE3,
  JCS, hex, base32) with \<open>ed25519_ok\<close>, \<open>hex_ok\<close>, \<open>jcs_ok\<close>, \<open>jcs_text_ok\<close>, \<open>alphabets_ok\<close>; \<open>argon\<close>;
  \<open>json_lib\<close> with \<open>json_lib_ok\<close> and \<open>json_files_ok\<close>; the record \<open>web\<close> (axum's extractors and the JSON reader of the
  server) with \<open>json_reader_ok\<close>; the printing of floats. The laws are the documented ones, with their
  limits: JCS writes numbers as doubles, so \<open>jcs_ok\<close> speaks of events with numbers up to 2^53
  (\<open>event_safe\<close>); axum refuses a body of more than 2 MB (\<open>BODY_LIMIT\<close>), so the daemon is paid for batches
  within it. What a property assumes of the requests of others or of the surroundings of a run is
  stated in it, as \<open>fair_request\<close> and \<open>env_ok\<close>. Each has an instance (\<open>demo_crypto\<close>, \<open>demo_argon\<close>,
  \<open>demo_json\<close> and so on) on which the witnesses run.

  \<^bold>\<open>What the lemmas show.\<close>
  \<^item> Money. The server implements the account book over any requests in any order and restarts; no
    account is paid more than it earned, exactly, while it earned less than 2^63 micros; every
    balance is 5000 micros per impression less its payouts; a restart restores the books. These runs
    are without failing statements; what fails on disk does not show in the memory and the responses of the
    handlers of devices and money (but is lost at a restart). In the handlers of accounts and creatives it does show.
  \<^item> Attestation. An event is accepted exactly when it verifies and continues its device's chain;
    the accepted events form one linked history; equal heads mean equal histories, of any lengths, up
    to a collision of the hash.
  \<^item> Counting. The engine counts exactly the seconds a fresh heartbeat covers, no tool time and
    nothing without heartbeats or while paused, and never more than the wall time.
  \<^item> The pipeline. What the daemon sends is one signed chain of events with 1 to 60 impressions; a
    registered daemon is paid for all of them, in any batches within the body limit; after one lost event it is not paid
    any more; whatever anyone posts without its key, it is paid for a part of what it emitted (unless another registers its device). The queue returns what was appended, and a prefix of it after a crash.
  \<^item> The host. Settings are never half written, at any system call of the write; injection touches two keys; a restore gives back the
    snapshot whatever happened since; removing the hooks is the inverse of wiring them; uninstalling
    gives back the settings from before the installation.
  \<^item> HTTP. A request with an error status changes neither the memory nor the tables of devices and
    money; behind HTTP the server reaches no new state; which route can change what; accounts are only
    added, by signups in order, and sessions had by password only; an event has exactly the fields of the protocol.
  \<^item> Termination. Each reader of outside data, as the loop it is written as, ends on every input.
  \<^item> The tests. Every unit test that is modelled holds of the model, with its own constants.
  \<^item> Privacy. The skimmers and the timing reader return only bytes that stand where the format says.

  \<^bold>\<open>Interfaces.\<close> \<open>map_adt\<close> (maps), \<open>record_log\<close> (the queue), \<open>value_reader\<close> (the skimmers), \<open>silent_sessions\<close> (sessions that cannot
  earn), \<open>host_adapter\<close> (the trait of spnr-adapters) and \<open>forward_simulation\<close> are locales; each is
  interpreted on the model's own definitions, and the properties rest on those interpretations.

  \<^bold>\<open>Bounds.\<close> Loops over bytes terminate by the remaining length; the fuel of the link lookup in \<open>Cli\<close>
  is the 40 links a kernel follows. Runs of the server have up to 2^63 steps (the redemption number
  is 64 bits). \<open>json_lib_ok\<close> promises nothing for floats or beyond 127 levels, the recursion limit of
  the library.

  \<^bold>\<open>Not modelled.\<close> Argument parsing (clap), the insides of axum and tower (the routing table and what an
  extractor refuses are modelled from their documentation), the HTTP client, the async runtime, SQLite
  and sockets themselves; file modes and directories; the preview server in TypeScript, the web site,
  the scripts. Values of
  type \<^verbatim>\<open>String\<close> that are not UTF-8 do not exist in the program; where a theorem needs it, validity is
  a hypothesis.
\<close>

end
